(* ===== verification/Prelude.thy ===== *)
theory Prelude
  imports Complex_Main "HOL-Library.Word" "HOL-Library.Log_Nat" "HOL-Library.Multiset"
begin

text \<open>
  Shared vocabulary of the development: the machine types of the C++ sources, fixed-size
  character buffers, the system clock, and the generic list facts the component theories use.

  The named collections gather what the component proofs unfold:
  \<^item> \<open>model_defs\<close>: small helper definitions that proofs always unfold;
  \<^item> \<open>inv_intros\<close>: the invariant-preservation lemmas of the components.
\<close>

named_theorems model_defs
named_theorems inv_intros

unbundle bit_operations_syntax

section \<open>Machine types\<close>

text \<open>
  Unsigned integers keep their width; \<open>int64_t\<close> values are only compared in the modelled
  code, and where one is computed the wrap-around is written out with \<^const>\<open>signed_take_bit\<close>.
  \<open>size_t\<close> indices of ring buffers are \<open>64 word\<close>; lengths of containers are \<open>nat\<close>.
\<close>

type_synonym u8 = "8 word"
type_synonym u32 = "32 word"
type_synonym u64 = "64 word"
type_synonym i32 = int
type_synonym i64 = int

section \<open>Fixed-size character buffers\<close>

text \<open>
  A \<open>char buf[N]\<close> that holds a C string is modelled by the string itself. \<open>c_str\<close> is what a C
  function sees of a \<open>std::string\<close>: the characters before the first NUL. \<open>copy_string n s\<close> is
  the buffer after \<open>strncpy(buf, s.c_str(), n - 1); buf[n - 1] = '\0'\<close>.
\<close>

definition c_str :: "string \<Rightarrow> string" where
  "c_str s = takeWhile (\<lambda>c. c \<noteq> CHR 0x00) s"

definition copy_string :: "nat \<Rightarrow> string \<Rightarrow> string" where
  "copy_string n s = take (n - 1) (c_str s)"

definition wf_buffer :: "nat \<Rightarrow> string \<Rightarrow> bool" where
  "wf_buffer n s \<longleftrightarrow> length s < n \<and> CHR 0x00 \<notin> set s"

lemma c_str_id [simp]: "CHR 0x00 \<notin> set s \<Longrightarrow> c_str s = s"
  by (auto simp: c_str_def takeWhile_eq_all_conv)

lemma c_str_no_nul [simp]: "CHR 0x00 \<notin> set (c_str s)"
  by (auto simp: c_str_def dest: set_takeWhileD)

lemma wf_buffer_copy_string [simp, intro]: "0 < n \<Longrightarrow> wf_buffer n (copy_string n s)"
  by (auto simp: wf_buffer_def copy_string_def dest: in_set_takeD)

lemma copy_string_id [simp]: "wf_buffer n s \<Longrightarrow> copy_string n s = s"
  by (auto simp: wf_buffer_def copy_string_def)

lemma wf_buffer_Nil [simp]: "wf_buffer n [] \<longleftrightarrow> 0 < n"
  by (simp add: wf_buffer_def)

text \<open>
  \<open>strncpy(buf, s, n - 1)\<close> alone, into a buffer whose last byte \<open>junk\<close> was never written:
  a shorter string is NUL-padded, but one of at least \<open>n - 1\<close> characters runs into that byte.
\<close>

definition strncpy_buffer :: "nat \<Rightarrow> char \<Rightarrow> string \<Rightarrow> string" where
  "strncpy_buffer n junk s =
     (if length (c_str s) < n - 1 then c_str s
      else take (n - 1) (c_str s) @ (if junk = CHR 0x00 then [] else [junk]))"

lemma strncpy_buffer_short [simp]:
  "length (c_str s) < n - 1 \<Longrightarrow> strncpy_buffer n junk s = c_str s"
  by (simp add: strncpy_buffer_def)

section \<open>The clock\<close>

text \<open>
  A clock is the sequence of values its successive readings return. Reading it consumes the
  first; nothing is assumed about the order of the values.
\<close>

type_synonym clock = "nat \<Rightarrow> i64"

definition read_clock :: "clock \<Rightarrow> i64 \<times> clock" where
  "read_clock c = (c 0, \<lambda>n. c (Suc n))"

lemma read_clock_simps [simp]: "fst (read_clock c) = c 0" "snd (read_clock c) = (\<lambda>n. c (Suc n))"
  by (simp_all add: read_clock_def)

section \<open>Lists\<close>

lemma sorted_wrt_map_snoc:
  "sorted_wrt P (map f (xs @ [x])) \<longleftrightarrow> sorted_wrt P (map f xs) \<and> (\<forall>y\<in>set xs. P (f y) (f x))"
  by (auto simp: sorted_wrt_append)

lemma filter_partition_mset: "mset (filter P xs) + mset (filter (\<lambda>x. \<not> P x) xs) = mset xs"
  by (induction xs) auto

text \<open>Indices below a power of two: masking is reduction modulo the capacity.\<close>

lemma and_mask_word: "(x :: u64) AND (2 ^ k - 1) = of_nat (unat x mod 2 ^ k)" if "k < 64"
proof -
  have "x AND (2 ^ k - 1) = take_bit k x"
    by (simp add: take_bit_eq_mask mask_eq_exp_minus_1)
  also have "\<dots> = of_nat (take_bit k (unat x))"
    by (simp add: of_nat_take_bit)
  also have "take_bit k (unat x) = unat x mod 2 ^ k"
    by (simp add: take_bit_nat_def)
  finally show ?thesis .
qed

lemma unat_of_nat_u64: "n < 2 ^ 64 \<Longrightarrow> unat (of_nat n :: u64) = n"
  by (simp add: unsigned_of_nat take_bit_nat_eq_self)

lemma of_nat_u64_inject:
  "m < 2 ^ 64 \<Longrightarrow> n < 2 ^ 64 \<Longrightarrow> of_nat m = (of_nat n :: u64) \<longleftrightarrow> m = n"
  by (metis unat_of_nat_u64)

lemma sint_of_nat_u64: "n < 2 ^ 63 \<Longrightarrow> sint (of_nat n :: u64) = int n"
  by (simp add: signed_of_nat signed_take_bit_int_eq_self)

lemma u64_less_plus_one: "e < - 1 \<Longrightarrow> x < e + 1 \<longleftrightarrow> x \<le> (e :: u64)"
proof -
  assume "e < - 1"
  then have "e + 1 \<noteq> 0" by (metis add_eq_0_iff2 less_irrefl)
  then have "unat (e + 1) = Suc (unat e)" by (metis add.commute unatSuc)
  then show ?thesis by (simp add: word_less_nat_alt word_le_nat_alt less_Suc_eq_le)
qed

lemma of_nat_u64_less:
  "m < 2 ^ 64 \<Longrightarrow> n < 2 ^ 64 \<Longrightarrow> (of_nat m :: u64) < of_nat n \<longleftrightarrow> m < n"
  by (simp add: word_less_nat_alt unat_of_nat_u64)

end
