(* ===== verification/Double.thy ===== *)
theory Double
  imports Prelude
begin

text \<open>
  The C++ type \<open>double\<close>: IEEE-754 binary64 with rounding to nearest, ties to even, subnormal
  numbers, overflow to the infinities and NaN. A finite value is the rational number it denotes,
  so the two zeros are one value; the sources never divide by a zero or print a sign of zero
  that came from one, and every comparison treats the two alike.

  All operations are executable. The lemmas the components use are that rounding is monotone
  (\<open>round64_mono\<close>), that it leaves representable values alone (\<open>round64_id\<close>) and the facts
  about signs and comparisons that follow.
\<close>

section \<open>Values and rounding\<close>

datatype double = NaN | PInf | NInf | Fin rat

text \<open>The exponent of a positive rational: \<open>2 powi e \<le> r < 2 powi (e + 1)\<close>.\<close>

definition ilog2 :: "rat \<Rightarrow> int" where
  "ilog2 r = (let (p, q) = quotient_of r; e = bitlen p - bitlen q
              in if 2 powi e \<le> r then e else e - 1)"

definition round_half_even :: "rat \<Rightarrow> int" where
  "round_half_even x =
     (let f = \<lfloor>x\<rfloor>; d = x - of_int f
      in if d < 1/2 then f else if 1/2 < d then f + 1 else if even f then f else f + 1)"

text \<open>Exponent (clamped to that of the subnormals), 53-bit significand and rounded value.\<close>

definition expo :: "rat \<Rightarrow> int" where
  "expo r = max (ilog2 \<bar>r\<bar>) (-1022)"

definition mant :: "rat \<Rightarrow> int" where
  "mant r = round_half_even (r / 2 powi (expo r - 52))"

definition nearest :: "rat \<Rightarrow> rat" where
  "nearest r = of_int (mant r) * 2 powi (expo r - 52)"

definition round64 :: "rat \<Rightarrow> double" where
  "round64 r =
     (if 1023 < expo r \<or> expo r = 1023 \<and> 2 ^ 53 \<le> \<bar>mant r\<bar>
      then (if 0 < r then PInf else NInf) else Fin (nearest r))"

section \<open>Arithmetic and comparisons\<close>

fun double_add :: "double \<Rightarrow> double \<Rightarrow> double" where
  "double_add (Fin a) (Fin b) = round64 (a + b)"
| "double_add NaN _ = NaN"
| "double_add _ NaN = NaN"
| "double_add PInf NInf = NaN"
| "double_add NInf PInf = NaN"
| "double_add PInf _ = PInf"
| "double_add _ PInf = PInf"
| "double_add NInf _ = NInf"
| "double_add _ NInf = NInf"

fun double_neg :: "double \<Rightarrow> double" where
  "double_neg (Fin a) = Fin (- a)"
| "double_neg NaN = NaN"
| "double_neg PInf = NInf"
| "double_neg NInf = PInf"

definition double_inf :: "rat \<Rightarrow> double" where
  "double_inf s = (if s = 0 then NaN else if 0 < s then PInf else NInf)"

definition double_sgn :: "double \<Rightarrow> rat" where
  "double_sgn x = (case x of Fin a \<Rightarrow> sgn a | PInf \<Rightarrow> 1 | NInf \<Rightarrow> -1 | NaN \<Rightarrow> 0)"

fun double_mul :: "double \<Rightarrow> double \<Rightarrow> double" where
  "double_mul (Fin a) (Fin b) = round64 (a * b)"
| "double_mul NaN _ = NaN"
| "double_mul _ NaN = NaN"
| "double_mul a b = double_inf (double_sgn a * double_sgn b)"

text \<open>Division by zero follows the positive zero: \<open>x / 0.0\<close>.\<close>

fun double_div :: "double \<Rightarrow> double \<Rightarrow> double" where
  "double_div (Fin a) (Fin b) = (if b = 0 then double_inf (sgn a) else round64 (a / b))"
| "double_div NaN _ = NaN"
| "double_div _ NaN = NaN"
| "double_div (Fin _) _ = Fin 0"
| "double_div a (Fin b) = double_inf (double_sgn a * (if b < 0 then -1 else 1))"
| "double_div _ _ = NaN"

fun double_le :: "double \<Rightarrow> double \<Rightarrow> bool" where
  "double_le (Fin a) (Fin b) = (a \<le> b)"
| "double_le NaN _ = False"
| "double_le _ NaN = False"
| "double_le NInf _ = True"
| "double_le _ PInf = True"
| "double_le _ _ = False"

text \<open>The C++ operators on doubles are the overloaded HOL symbols.\<close>

instantiation double :: "{zero, plus, minus, uminus, times, inverse, abs, ord}"
begin

definition zero_double :: double where
  "zero_double = Fin 0"

definition plus_double :: "double \<Rightarrow> double \<Rightarrow> double" where
  "plus_double = double_add"

definition uminus_double :: "double \<Rightarrow> double" where
  "uminus_double = double_neg"

definition minus_double :: "double \<Rightarrow> double \<Rightarrow> double" where
  "minus_double a b = double_add a (double_neg b)"

definition times_double :: "double \<Rightarrow> double \<Rightarrow> double" where
  "times_double = double_mul"

definition divide_double :: "double \<Rightarrow> double \<Rightarrow> double" where
  "divide_double = double_div"

definition inverse_double :: "double \<Rightarrow> double" where
  "inverse_double = double_div (Fin 1)"

definition abs_double :: "double \<Rightarrow> double" where
  "abs_double x = (case x of Fin a \<Rightarrow> Fin \<bar>a\<bar> | NaN \<Rightarrow> NaN | _ \<Rightarrow> PInf)"

definition less_eq_double :: "double \<Rightarrow> double \<Rightarrow> bool" where
  "less_eq_double = double_le"

definition less_double :: "double \<Rightarrow> double \<Rightarrow> bool" where
  "less_double a b \<longleftrightarrow> double_le a b \<and> \<not> double_le b a"

instance ..

end

text \<open>\<open>a == b\<close> on doubles, \<open>std::min\<close> and \<open>std::max\<close> (which keep the first argument on NaN).\<close>

definition double_eq :: "double \<Rightarrow> double \<Rightarrow> bool" where
  "double_eq a b \<longleftrightarrow> a = b \<and> a \<noteq> NaN"

definition std_min :: "double \<Rightarrow> double \<Rightarrow> double" where
  "std_min a b = (if b < a then b else a)"

definition std_max :: "double \<Rightarrow> double \<Rightarrow> double" where
  "std_max a b = (if a < b then b else a)"

section \<open>Rounding lemmas\<close>

lemma powi_le_iff [simp]: "(2::rat) powi a \<le> 2 powi b \<longleftrightarrow> a \<le> b"
  by (metis linorder_not_less one_less_numeral_iff power_int_increasing power_int_strict_increasing
      less_imp_le semiring_norm(76) not_le)

lemma powi_less_iff [simp]: "(2::rat) powi a < 2 powi b \<longleftrightarrow> a < b"
  by (metis not_le powi_le_iff)

lemma powi_pos [simp]: "0 < (2::rat) powi a"
  by simp

lemma powi_Suc: "(2::rat) powi (a + 1) = 2 * 2 powi a"
  by (simp add: power_int_add)

lemma bitlen_powi:
  assumes "0 < p"
  shows "2 powi (bitlen p - 1) \<le> (of_int p :: rat)" and "(of_int p :: rat) < 2 powi (bitlen p)"
proof -
  from bitlen_bounds [OF assms]
  have l: "2 ^ nat (bitlen p - 1) \<le> p" and u: "p < 2 ^ nat (bitlen p)" by auto
  have b: "0 < bitlen p" using u assms by (cases "0 < bitlen p") auto
  from l have "(of_int (2 ^ nat (bitlen p - 1)) :: rat) \<le> of_int p" by (simp only: of_int_le_iff)
  with b show "2 powi (bitlen p - 1) \<le> (of_int p :: rat)"
    by (simp add: power_int_def)
  from u have "(of_int p :: rat) < of_int (2 ^ nat (bitlen p))" by (simp only: of_int_less_iff)
  with b show "(of_int p :: rat) < 2 powi (bitlen p)"
    by (simp add: power_int_def)
qed

lemma ilog2_bounds:
  assumes "0 < r"
  shows "2 powi (ilog2 r) \<le> r" and "r < 2 powi (ilog2 r + 1)"
proof -
  obtain p q where pq: "quotient_of r = (p, q)" by (cases "quotient_of r")
  have q: "0 < q" using pq by (rule quotient_of_denom_pos)
  have r: "r = of_int p / of_int q" using pq by (rule quotient_of_div)
  have p: "0 < p" using assms q r by (simp add: zero_less_divide_iff)
  define e where "e = bitlen p - bitlen q"
  note bp = bitlen_powi [OF p] and bq = bitlen_powi [OF q]
  have up: "r < 2 powi (e + 1)"
  proof -
    have "r < 2 powi (bitlen p) / of_int q"
      unfolding r using bp(2) q by (simp add: divide_strict_right_mono)
    also have "\<dots> \<le> 2 powi (bitlen p) / 2 powi (bitlen q - 1)"
      using bq(1) q by (intro divide_left_mono) auto
    also have "\<dots> = 2 powi (e + 1)" by (simp add: e_def power_int_diff power_int_add)
    finally show ?thesis .
  qed
  have lo: "2 powi (e - 1) \<le> r"
  proof -
    have "2 powi (e - 1) = (2 powi (bitlen p - 1) / 2 powi (bitlen q) :: rat)"
      by (simp add: e_def power_int_diff)
    also have "\<dots> \<le> of_int p / 2 powi (bitlen q)"
      using bp(1) by (simp add: divide_right_mono)
    also have "\<dots> \<le> r" unfolding r using bq(2) q p by (intro divide_left_mono) auto
    finally show ?thesis .
  qed
  have il: "ilog2 r = (if 2 powi e \<le> r then e else e - 1)"
    by (simp add: ilog2_def pq e_def)
  show "2 powi (ilog2 r) \<le> r" using lo by (simp add: il)
  show "r < 2 powi (ilog2 r + 1)" using up by (auto simp: il)
qed

lemma ilog2_unique:
  assumes "2 powi a \<le> r" and "r < 2 powi (a + 1)"
  shows "ilog2 r = a"
proof -
  have "0 < r" using assms(1) powi_pos less_le_trans by blast
  note b = ilog2_bounds [OF this]
  have "ilog2 r < a + 1" using b(1) assms(2) by (metis le_less_trans powi_less_iff)
  moreover have "a < ilog2 r + 1" using b(2) assms(1) by (metis le_less_trans powi_less_iff)
  ultimately show ?thesis by simp
qed

lemma ilog2_mono: "0 < r \<Longrightarrow> r \<le> s \<Longrightarrow> ilog2 r \<le> ilog2 s"
proof -
  assume a: "0 < r" "r \<le> s"
  then have "(2::rat) powi (ilog2 r) < 2 powi (ilog2 s + 1)"
    using ilog2_bounds[of r] ilog2_bounds[of s] by linarith
  then show ?thesis by simp
qed

lemma round_half_even_of_int [simp]: "round_half_even (of_int n) = n"
  by (simp add: round_half_even_def)

lemma round_half_even_uminus: "round_half_even (- x) = - round_half_even x"
proof (cases "x \<in> \<int>")
  case True
  then obtain n where "x = of_int n" by (auto elim: Ints_cases)
  then show ?thesis using round_half_even_of_int[of "-n"] by (simp del: round_half_even_of_int)
      (simp)
next
  case False
  then have "x \<noteq> of_int \<lfloor>x\<rfloor>" using Ints_of_int by metis
  then have "- \<lfloor>- x\<rfloor> = \<lfloor>x\<rfloor> + 1" using ceiling_altdef [of x] by (simp add: ceiling_def)
  then have "\<lfloor>- x\<rfloor> = - \<lfloor>x\<rfloor> - 1" by linarith
  then show ?thesis by (auto simp: round_half_even_def Let_def field_simps) presburger+
qed

lemma round_half_even_mono: "x \<le> y \<Longrightarrow> round_half_even x \<le> round_half_even y"
proof -
  assume xy: "x \<le> y"
  then have f: "\<lfloor>x\<rfloor> \<le> \<lfloor>y\<rfloor>" by (rule floor_mono)
  show ?thesis
  proof (cases "\<lfloor>x\<rfloor> = \<lfloor>y\<rfloor>")
    case True
    then show ?thesis using xy by (auto simp: round_half_even_def Let_def)
  next
    case False
    with f have "\<lfloor>x\<rfloor> + 1 \<le> \<lfloor>y\<rfloor>" by simp
    then show ?thesis by (auto simp: round_half_even_def Let_def)
  qed
qed

lemma round_half_even_le: "x \<le> of_int n \<Longrightarrow> round_half_even x \<le> n"
  using round_half_even_mono[of x "of_int n"] by simp

lemma round_half_even_ge: "of_int n \<le> x \<Longrightarrow> n \<le> round_half_even x"
  using round_half_even_mono[of "of_int n" x] by simp

lemma expo_uminus [simp]: "expo (- r) = expo r"
  by (simp add: expo_def)

lemma mant_uminus [simp]: "mant (- r) = - mant r"
  by (simp add: mant_def flip: round_half_even_uminus)

lemma nearest_uminus [simp]: "nearest (- r) = - nearest r"
  by (simp add: nearest_def)

lemma nearest_0 [simp]: "nearest 0 = 0"
  using round_half_even_of_int[of 0] by (simp add: nearest_def mant_def)

lemma pow_split: "(2::rat) powi (e + 1) = 2 ^ 53 * 2 powi (e - 52)" "(2::rat) powi e = 2 ^ 52 * 2 powi (e - 52)"
  by (simp_all add: power_int_diff power_int_add)

lemma expo_upper: "0 < r \<Longrightarrow> r < 2 powi (expo r + 1)"
proof -
  assume r: "0 < r"
  then have "r < 2 powi (ilog2 r + 1)" by (rule ilog2_bounds)
  also have "\<dots> \<le> 2 powi (expo r + 1)" using r by (simp add: expo_def)
  finally show ?thesis .
qed

lemma expo_lower: "0 < r \<Longrightarrow> -1022 < expo r \<Longrightarrow> 2 powi (expo r) \<le> r"
  using ilog2_bounds(1) [of r] by (auto simp: expo_def max_def split: if_splits)

lemma mant_upper: "0 < r \<Longrightarrow> mant r \<le> 2 ^ 53"
proof -
  assume "0 < r"
  then have "r / 2 powi (expo r - 52) \<le> of_int (2 ^ 53)"
    using expo_upper [of r] pow_split(1) [of "expo r"] by (simp add: field_simps)
  then show ?thesis unfolding mant_def by (rule round_half_even_le)
qed

lemma mant_lower: "0 < r \<Longrightarrow> -1022 < expo r \<Longrightarrow> 2 ^ 52 \<le> mant r"
proof -
  assume "0 < r" "-1022 < expo r"
  then have "of_int (2 ^ 52) \<le> r / 2 powi (expo r - 52)"
    using expo_lower [of r] pow_split(2) [of "expo r"] by (simp add: field_simps)
  then show ?thesis unfolding mant_def by (rule round_half_even_ge)
qed

lemma mant_nonneg: "0 \<le> r \<Longrightarrow> 0 \<le> mant r"
  unfolding mant_def by (rule round_half_even_ge) simp

lemma nearest_nonneg: "0 \<le> r \<Longrightarrow> 0 \<le> nearest r"
  by (simp add: nearest_def mant_nonneg)

lemma nearest_upper: "0 < r \<Longrightarrow> nearest r \<le> 2 powi (expo r + 1)"
proof -
  assume "0 < r"
  then have "(of_int (mant r) :: rat) \<le> of_int (2 ^ 53)" using mant_upper of_int_le_iff by blast
  then have "(of_int (mant r) :: rat) * 2 powi (expo r - 52) \<le> 2 ^ 53 * 2 powi (expo r - 52)"
    by (intro mult_right_mono) auto
  then show ?thesis by (simp only: nearest_def pow_split(1))
qed

lemma nearest_lower: "0 < r \<Longrightarrow> -1022 < expo r \<Longrightarrow> 2 powi (expo r) \<le> nearest r"
proof -
  assume "0 < r" "-1022 < expo r"
  then have "(of_int (2 ^ 52) :: rat) \<le> of_int (mant r)" using mant_lower of_int_le_iff by blast
  then have "2 ^ 52 * 2 powi (expo r - 52) \<le> (of_int (mant r) :: rat) * 2 powi (expo r - 52)"
    by (intro mult_right_mono) auto
  then show ?thesis by (simp only: nearest_def flip: pow_split(2))
qed

lemma expo_mono: "0 < r \<Longrightarrow> r \<le> s \<Longrightarrow> expo r \<le> expo s"
  using ilog2_mono [of r s] by (auto simp: expo_def max_def)

lemma expo_ge [simp]: "-1022 \<le> expo r"
  by (simp add: expo_def)

lemma nearest_mono_pos:
  assumes "0 < r" and "r \<le> s"
  shows "nearest r \<le> nearest s"
proof (cases "expo r = expo s")
  case True
  then have "mant r \<le> mant s"
    using assms(2) unfolding mant_def by (intro round_half_even_mono) (simp add: divide_right_mono)
  with True show ?thesis by (simp add: nearest_def mult_right_mono)
next
  case False
  with expo_mono [OF assms] have lt: "expo r + 1 \<le> expo s" by simp
  then have "-1022 < expo s" using expo_ge [of r] by linarith
  have "nearest r \<le> 2 powi (expo r + 1)" using assms(1) by (rule nearest_upper)
  also have "\<dots> \<le> 2 powi (expo s)" using lt by simp
  also have "\<dots> \<le> nearest s" using \<open>-1022 < expo s\<close> assms by (intro nearest_lower) auto
  finally show ?thesis .
qed

lemma nearest_mono: "r \<le> s \<Longrightarrow> nearest r \<le> nearest s"
proof -
  assume rs: "r \<le> s"
  consider "0 < r" | "r \<le> 0" "0 \<le> s" | "s < 0" by linarith
  then show ?thesis
  proof cases
    case 1 with rs show ?thesis by (rule nearest_mono_pos [rotated -1])
  next
    case 2
    then have "nearest r \<le> 0" using nearest_nonneg [of "- r"] by simp
    also have "0 \<le> nearest s" using 2 by (simp add: nearest_nonneg)
    finally show ?thesis .
  next
    case 3
    then have "nearest (- s) \<le> nearest (- r)" using rs by (intro nearest_mono_pos) auto
    then show ?thesis by simp
  qed
qed

lemma nearest_idem_pos:
  assumes "0 < r"
  shows "nearest (nearest r) = nearest r"
proof -
  define e where "e = expo r"
  define n where "n = mant r"
  have v: "nearest r = of_int n * 2 powi (e - 52)" by (simp add: nearest_def e_def n_def)
  have n0: "0 \<le> n" using assms by (simp add: n_def mant_nonneg)
  have n1: "n \<le> 2 ^ 53" unfolding n_def using assms by (rule mant_upper)
  have self: "nearest (of_int m * 2 powi (d - 52)) = of_int m * 2 powi (d - 52)"
    if "expo (of_int m * 2 powi (d - 52)) = d" for m d
    by (simp add: nearest_def mant_def that)
  consider "n = 0" | "n = 2 ^ 53" | "0 < n" "n < 2 ^ 53" "2 ^ 52 \<le> n"
    | "0 < n" "n < 2 ^ 52" using n0 n1 by linarith
  then show ?thesis
  proof cases
    case 1 then show ?thesis by (simp add: v)
  next
    case 2
    then have v': "nearest r = of_int (2 ^ 52) * 2 powi (e + 1 - 52)"
      by (simp add: v power_int_add power_int_diff)
    have "ilog2 (nearest r) = e + 1"
      using 2 pow_split [of e] pow_split[of "e + 1"] by (intro ilog2_unique) (simp_all add: v')
    then have "expo (nearest r) = e + 1"
      using expo_ge [of r] nearest_nonneg[of r] assms by (simp add: expo_def e_def)
    then show ?thesis using self [of "2 ^ 52" "e + 1"] by (simp add: v')
  next
    case 3
    have "ilog2 (nearest r) = e"
    proof (rule ilog2_unique)
      have "(of_int (2 ^ 52) :: rat) \<le> of_int n" using 3 of_int_le_iff by blast
      then show "2 powi e \<le> nearest r" by (simp add: v pow_split(2) [of e])
      have "(of_int n :: rat) < of_int (2 ^ 53)" using 3 of_int_less_iff by blast
      then show "nearest r < 2 powi (e + 1)" by (simp add: v pow_split(1) [of e])
    qed
    then have "expo (nearest r) = e"
      using expo_ge [of r] nearest_nonneg[of r] assms by (simp add: expo_def e_def)
    then show ?thesis using self [of n e] by (simp add: v)
  next
    case 4
    then have "\<not> - 1022 < expo r" using mant_lower [OF assms] by (auto simp: n_def)
    then have e: "e = -1022" using expo_ge [of r] unfolding e_def by linarith
    have pos: "0 < nearest r" using 4 by (simp add: v)
    have "(of_int n :: rat) < of_int (2 ^ 52)" using 4 of_int_less_iff by blast
    then have "nearest r < 2 powi (- 1022)" using pow_split(2) [of "-1022"] by (simp add: v e)
    then have "(2::rat) powi (ilog2 (nearest r)) < 2 powi (- 1022)"
      using ilog2_bounds(1) [OF pos] by (rule le_less_trans [rotated])
    then have "ilog2 (nearest r) < - 1022" by (simp only: powi_less_iff)
    then have "expo (nearest r) = e" using pos e by (simp add: expo_def)
    then show ?thesis using self [of n e] by (simp add: v)
  qed
qed

lemma nearest_idem [simp]: "nearest (nearest r) = nearest r"
proof -
  consider "0 < r" | "r = 0" | "0 < - r" by linarith
  then show ?thesis
  proof cases
    case 3
    then have "nearest (nearest (- r)) = nearest (- r)" by (rule nearest_idem_pos)
    then show ?thesis by simp
  qed (simp_all add: nearest_idem_pos)
qed

text \<open>The smallest power of two that is too large; kept folded.\<close>

definition overflow_bound :: rat where
  "overflow_bound = 2 powi 1024"

lemma overflow_bound_pos [simp]: "0 < overflow_bound"
  unfolding overflow_bound_def by (rule powi_pos)

lemma overflow_iff_pos:
  assumes r: "0 < r"
  shows "(1023 < expo r \<or> expo r = 1023 \<and> 2 ^ 53 \<le> mant r) \<longleftrightarrow> overflow_bound \<le> nearest r"
proof -
  consider "1023 < expo r" | "expo r = 1023" | "expo r < 1023" by linarith
  then show ?thesis
  proof cases
    case 1
    then have "overflow_bound \<le> 2 powi (expo r)" unfolding overflow_bound_def by (simp only: powi_le_iff)
    also have "\<dots> \<le> nearest r" using r 1 by (intro nearest_lower) auto
    finally show ?thesis using 1 by simp
  next
    case 2
    have "overflow_bound \<le> nearest r \<longleftrightarrow> (of_int (2 ^ 53) :: rat) \<le> of_int (mant r)"
      using pow_split(1) [of 1023] by (simp add: overflow_bound_def nearest_def 2 del: of_int_power)
    then show ?thesis using 2 by (simp only: of_int_le_iff) simp
  next
    case 3
    have "nearest r \<le> 2 powi (expo r + 1)" using r by (rule nearest_upper)
    also have "\<dots> < overflow_bound" unfolding overflow_bound_def using 3 by (simp only: powi_less_iff)
    finally show ?thesis using 3 by simp
  qed
qed

lemma expo_0 [simp]: "expo 0 = -2"
  by (simp add: expo_def ilog2_def bitlen_def floorlog_def)

lemma overflow_iff:
  "(1023 < expo r \<or> expo r = 1023 \<and> 2 ^ 53 \<le> \<bar>mant r\<bar>) \<longleftrightarrow> overflow_bound \<le> \<bar>nearest r\<bar>"
proof -
  consider "0 < r" | "r = 0" | "0 < - r" by linarith
  then show ?thesis
  proof cases
    case 1
    then show ?thesis
      using overflow_iff_pos [of r] mant_nonneg [of r] nearest_nonneg [of r] by simp
  next
    case 2
    then show ?thesis by (simp add: not_le)
  next
    case 3
    then show ?thesis
      using overflow_iff_pos [of "- r"] mant_nonneg [of "- r"] nearest_nonneg [of "- r"]
      by simp
  qed
qed

text \<open>The representable values: the fixed points of rounding below the overflow threshold.\<close>

definition is_double :: "double \<Rightarrow> bool" where
  "is_double x = (case x of Fin a \<Rightarrow> round64 a = Fin a | _ \<Rightarrow> True)"

lemma round64_alt:
  "round64 r = (if overflow_bound \<le> \<bar>nearest r\<bar> then (if 0 < r then PInf else NInf) else Fin (nearest r))"
  unfolding round64_def overflow_iff ..

lemma round64_Fin: "round64 r = Fin v \<Longrightarrow> round64 v = Fin v"
  by (auto simp: round64_alt split: if_splits)

lemma is_double_round64 [simp]: "is_double (round64 r)"
  by (auto simp: is_double_def round64_Fin split: double.splits)

lemma round64_0 [simp]: "round64 0 = Fin 0"
  by (simp add: round64_alt not_le)

lemma round64_not_NaN [simp]: "round64 r \<noteq> NaN" "NaN \<noteq> round64 r"
  by (auto simp: round64_def)

lemma round64_uminus: "round64 (- r) = double_neg (round64 r)"
proof (cases "r = 0")
  case False
  then show ?thesis by (auto simp: round64_alt)
qed simp

lemma nearest_sgn: "r \<le> 0 \<Longrightarrow> nearest r \<le> 0"
  using nearest_nonneg [of "- r"] by simp

lemma round64_mono: "r \<le> s \<Longrightarrow> double_le (round64 r) (round64 s)"
proof -
  assume "r \<le> s"
  note m = nearest_mono [OF this]
  have pos: "0 < r \<Longrightarrow> 0 < s" "0 < r \<Longrightarrow> 0 \<le> nearest r" "s \<le> 0 \<Longrightarrow> nearest s \<le> 0"
    using \<open>r \<le> s\<close> nearest_nonneg nearest_sgn by auto
  have "overflow_bound \<le> \<bar>nearest s\<bar>" if "0 < r" "overflow_bound \<le> \<bar>nearest r\<bar>"
    using that m pos by simp
  moreover have "overflow_bound \<le> \<bar>nearest r\<bar>" if "\<not> 0 < s" "overflow_bound \<le> \<bar>nearest s\<bar>"
    using that m pos by simp
  ultimately show ?thesis using m pos(1) by (auto simp: round64_alt)
qed

lemma round64_id [simp]: "is_double (Fin a) \<Longrightarrow> round64 a = Fin a"
  by (simp add: is_double_def)

section \<open>Facts about the operators\<close>

lemmas double_ops =
  zero_double_def plus_double_def minus_double_def uminus_double_def times_double_def
  divide_double_def abs_double_def less_eq_double_def less_double_def

lemma double_less_simps [simp]:
  "Fin a < Fin b \<longleftrightarrow> a < b" "Fin a < PInf" "NInf < Fin a" "NInf < PInf"
  "\<not> NaN < x" "\<not> x < NaN" "\<not> PInf < x" "\<not> x < NInf"
  by (auto simp: less_double_def elim: double_le.elims)

lemma double_le_simps [simp]:
  "Fin a \<le> Fin b \<longleftrightarrow> a \<le> b" "NInf \<le> x \<longleftrightarrow> x \<noteq> NaN" "x \<le> PInf \<longleftrightarrow> x \<noteq> NaN"
  "\<not> NaN \<le> x" "\<not> x \<le> NaN" "\<not> PInf \<le> Fin a" "\<not> Fin a \<le> NInf" "\<not> PInf \<le> NInf"
  by (auto simp: less_eq_double_def) (cases x; simp)+

lemma double_less_le: "(a::double) < b \<longleftrightarrow> a \<le> b \<and> \<not> b \<le> a"
  by (simp add: less_double_def less_eq_double_def)

lemma double_less_imp_le: "a < b \<Longrightarrow> a \<le> (b::double)"
  by (simp add: double_less_le)

lemma double_not_le: "a \<noteq> NaN \<Longrightarrow> b \<noteq> NaN \<Longrightarrow> \<not> a \<le> b \<longleftrightarrow> b < (a::double)"
  by (cases a; cases b) auto

lemma double_not_less: "a \<noteq> NaN \<Longrightarrow> b \<noteq> NaN \<Longrightarrow> \<not> a < b \<longleftrightarrow> b \<le> (a::double)"
  by (cases a; cases b) auto

lemma double_le_refl [simp]: "a \<noteq> NaN \<Longrightarrow> a \<le> (a::double)"
  by (cases a) auto

lemma double_le_trans [trans]: "a \<le> b \<Longrightarrow> b \<le> c \<Longrightarrow> a \<le> (c::double)"
  by (cases a; cases b; cases c) auto

lemma double_less_trans [trans]: "a < b \<Longrightarrow> b < c \<Longrightarrow> a < (c::double)"
  by (cases a; cases b; cases c) auto

lemma double_le_less_trans [trans]: "a \<le> b \<Longrightarrow> b < c \<Longrightarrow> a < (c::double)"
  by (cases a; cases b; cases c) auto

lemma double_less_irrefl [simp]: "\<not> a < (a::double)"
  by (cases a) auto

lemma double_le_antisym: "a \<le> b \<Longrightarrow> b \<le> a \<Longrightarrow> a = (b::double)"
  by (cases a; cases b) auto

lemma double_cases3:
  assumes "a \<noteq> NaN" and "b \<noteq> NaN"
  obtains "a < b" | "a = b" | "b < (a::double)"
  using assms by (cases a; cases b) (auto, metis linorder_less_linear)

section \<open>Integers are exact\<close>

lemma nearest_of_int:
  assumes "\<bar>z\<bar> < 2 ^ 53"
  shows "expo (of_int z) \<le> 52" and "nearest (of_int z) = of_int z"
proof -
  show e: "expo (of_int z) \<le> 52"
  proof (cases "z = 0")
    case False
    then have "0 < \<bar>of_int z :: rat\<bar>" by simp
    from ilog2_bounds(1) [OF this] have "2 powi (ilog2 \<bar>of_int z\<bar>) \<le> \<bar>of_int z :: rat\<bar>" .
    also have "\<dots> = of_int \<bar>z\<bar>" by simp
    also have "\<dots> < of_int (2 ^ 53)" by (simp only: of_int_less_iff assms)
    also have "\<dots> = 2 powi 53" by simp
    finally have "ilog2 \<bar>of_int z :: rat\<bar> < 53" by (simp only: powi_less_iff)
    then show ?thesis by (simp add: expo_def)
  qed simp
  let ?k = "nat (52 - expo (of_int z))"
  have p: "(2::rat) powi (expo (of_int z) - 52) = 1 / 2 ^ ?k"
    using e by (simp add: power_int_def inverse_eq_divide power_one_over)
  then have "(of_int z :: rat) / 2 powi (expo (of_int z) - 52) = of_int (z * 2 ^ ?k)" by simp
  then have "mant (of_int z) = z * 2 ^ ?k" unfolding mant_def by (simp only: round_half_even_of_int)
  then show "nearest (of_int z) = of_int z" unfolding nearest_def p by simp
qed

lemma round64_of_int: "\<bar>z\<bar> < 2 ^ 53 \<Longrightarrow> round64 (of_int z) = Fin (of_int z)"
  using nearest_of_int [of z] by (simp add: round64_def)

text \<open>A shortcut for evaluation.\<close>

lemma round64_code [code]:
  "round64 r =
     (let (p, q) = quotient_of r
      in if q = 1 \<and> \<bar>p\<bar> < 9007199254740992 then Fin r
         else if 1023 < expo r \<or> expo r = 1023 \<and> 9007199254740992 \<le> \<bar>mant r\<bar>
         then (if 0 < r then PInf else NInf) else Fin (nearest r))"
proof (cases "snd (quotient_of r) = 1 \<and> \<bar>fst (quotient_of r)\<bar> < 2 ^ 53")
  case True
  then have "r = of_int (fst (quotient_of r))"
    using quotient_of_div [of r "fst (quotient_of r)" 1] by (simp add: prod_eq_iff)
  moreover have "round64 (of_int (fst (quotient_of r))) = Fin (of_int (fst (quotient_of r)))"
    using True by (intro round64_of_int) simp
  ultimately show ?thesis using True by (simp add: case_prod_beta)
qed (auto simp: round64_def case_prod_beta)

end
