(* ===== verification/Trade.thy ===== *)
theory Trade
  imports Double
begin

text \<open>
  \<open>include/types/trade.hpp\<close>: the order enumerations, the \<open>Trade\<close> structure with its factory
  methods, and the structures exchanged with the market (\<open>OrderResponse\<close>, \<open>TradeEvent\<close>,
  \<open>QuoteUpdate\<close>). Character arrays hold C strings; \<open>wf_trade\<close>, \<open>wf_response\<close>, \<open>wf_event\<close> and
  \<open>wf_quote\<close> say that each fits its array. The process-wide state the factories use (the static
  order counter and the clock) is the record \<open>runtime\<close>.
\<close>

section \<open>Enumerations\<close>

datatype OrderSide = BUY | SELL

datatype OrderType = LIMIT | MARKET | STOP_LOSS | STOP_LIMIT | TAKE_PROFIT | TAKE_PROFIT_LIMIT

datatype TimeInForce = GTC | IOC | FOK | GTD

datatype ExecType = POST_ONLY | DEFAULT

datatype OrderStatus = NEW | FILLED | PARTIALLY_FILLED | CANCELED | REJECTED | EXPIRED

section \<open>Structures\<close>

record Trade =
  t_client_order_id :: u64
  t_strategy_id :: u32
  t_ticker :: string
  t_side :: OrderSide
  t_type :: OrderType
  t_time_in_force :: TimeInForce
  t_exec_type :: ExecType
  t_quantity :: double
  t_price :: double
  t_trigger_price :: double
  t_timestamp_ns :: i64
  t_priority :: u8

record OrderResponse =
  r_client_order_id :: u64
  r_exchange_order_id :: u64
  r_status :: OrderStatus
  r_filled_quantity :: double
  r_remaining_quantity :: double
  r_avg_price :: double
  r_fee :: double
  r_fee_currency :: string
  r_exchange_timestamp_ns :: i64
  r_error_code :: i32
  r_error_message :: string

definition new_OrderResponse :: OrderResponse where
  "new_OrderResponse =
     \<lparr>r_client_order_id = 0, r_exchange_order_id = 0, r_status = NEW, r_filled_quantity = 0,
      r_remaining_quantity = 0, r_avg_price = 0, r_fee = 0, r_fee_currency = [],
      r_exchange_timestamp_ns = 0, r_error_code = 0, r_error_message = []\<rparr>"

record TradeEvent =
  e_ticker :: string
  e_price :: double
  e_quantity :: double
  e_is_buyer_maker :: bool
  e_timestamp_ns :: i64
  e_trade_id :: u64

record QuoteUpdate =
  q_ticker :: string
  q_bid_price :: double
  q_bid_size :: double
  q_ask_price :: double
  q_ask_size :: double
  q_timestamp_ns :: i64

definition wf_trade :: "Trade \<Rightarrow> bool" where
  "wf_trade t \<longleftrightarrow> wf_buffer 16 (t_ticker t)"

definition wf_response :: "OrderResponse \<Rightarrow> bool" where
  "wf_response r \<longleftrightarrow> wf_buffer 8 (r_fee_currency r) \<and> wf_buffer 128 (r_error_message r)"

definition wf_event :: "TradeEvent \<Rightarrow> bool" where
  "wf_event e \<longleftrightarrow> wf_buffer 16 (e_ticker e)"

definition wf_quote :: "QuoteUpdate \<Rightarrow> bool" where
  "wf_quote q \<longleftrightarrow> wf_buffer 16 (q_ticker q)"

section \<open>Factory methods\<close>

text \<open>
  \<open>order_id_counter\<close> is the function-local static of \<open>create_limit_order\<close>; it starts at 0 and
  \<open>fetch_add(1)\<close> wraps at 64 bits.
\<close>

record runtime =
  order_id_counter :: u64
  clk :: clock

definition now_ns :: "runtime \<Rightarrow> i64 \<times> runtime" where
  "now_ns rt = (fst (read_clock (clk rt)), rt\<lparr>clk := snd (read_clock (clk rt))\<rparr>)"

definition create_limit_order ::
  "u32 \<Rightarrow> string \<Rightarrow> OrderSide \<Rightarrow> double \<Rightarrow> double \<Rightarrow> TimeInForce \<Rightarrow> ExecType \<Rightarrow> runtime \<Rightarrow> Trade \<times> runtime"
where
  "create_limit_order strategy_id ticker side quantity price tif exec rt =
     (let client_order_id = order_id_counter rt;
          rt = rt\<lparr>order_id_counter := order_id_counter rt + 1\<rparr>;
          (now, rt) = now_ns rt
      in (\<lparr>t_client_order_id = client_order_id, t_strategy_id = strategy_id,
           t_ticker = copy_string 16 ticker, t_side = side, t_type = LIMIT,
           t_time_in_force = tif, t_exec_type = exec, t_quantity = quantity, t_price = price,
           t_trigger_price = 0, t_timestamp_ns = now, t_priority = 128\<rparr>, rt))"

definition create_market_order ::
  "u32 \<Rightarrow> string \<Rightarrow> OrderSide \<Rightarrow> double \<Rightarrow> runtime \<Rightarrow> Trade \<times> runtime"
where
  "create_market_order strategy_id ticker side quantity rt =
     (let (t, rt) = create_limit_order strategy_id ticker side quantity 0 GTC DEFAULT rt
      in (t\<lparr>t_type := MARKET, t_time_in_force := IOC, t_priority := 0\<rparr>, rt))"

definition create_stop_order ::
  "u32 \<Rightarrow> string \<Rightarrow> OrderSide \<Rightarrow> double \<Rightarrow> double \<Rightarrow> double option \<Rightarrow> runtime \<Rightarrow> Trade \<times> runtime"
where
  "create_stop_order strategy_id ticker side quantity trigger_price limit_price rt =
     (let (t, rt) = create_limit_order strategy_id ticker side quantity
                      (case limit_price of None \<Rightarrow> 0 | Some p \<Rightarrow> p) GTC DEFAULT rt
      in (t\<lparr>t_type := (if limit_price \<noteq> None then STOP_LIMIT else STOP_LOSS),
            t_trigger_price := trigger_price, t_priority := 64\<rparr>, rt))"

section \<open>Lemmas\<close>

text \<open>Any sequence of orders, whichever factory makes each.\<close>

datatype order_request =
    LimitRequest u32 string OrderSide double double TimeInForce ExecType
  | MarketRequest u32 string OrderSide double
  | StopRequest u32 string OrderSide double double "double option"

fun create_order :: "order_request \<Rightarrow> runtime \<Rightarrow> Trade \<times> runtime" where
  "create_order (LimitRequest i s d q p f x) = create_limit_order i s d q p f x"
| "create_order (MarketRequest i s d q) = create_market_order i s d q"
| "create_order (StopRequest i s d q tp lp) = create_stop_order i s d q tp lp"

fun create_orders :: "order_request list \<Rightarrow> runtime \<Rightarrow> Trade list \<times> runtime" where
  "create_orders [] rt = ([], rt)"
| "create_orders (r # rs) rt =
     (let (t, rt) = create_order r rt; (ts, rt) = create_orders rs rt in (t # ts, rt))"

lemmas factory_defs = create_limit_order_def create_market_order_def create_stop_order_def now_ns_def

lemma create_order_id:
  "t_client_order_id (fst (create_order r rt)) = order_id_counter rt"
  "order_id_counter (snd (create_order r rt)) = order_id_counter rt + 1"
  by (cases r; simp add: factory_defs Let_def)+

lemma create_order_wf: "wf_trade (fst (create_order r rt))"
  by (cases r; simp add: factory_defs Let_def wf_trade_def)

lemma create_orders_ids:
  "map t_client_order_id (fst (create_orders rs rt))
     = map (\<lambda>i. order_id_counter rt + of_nat i) [0..<length rs]"
proof (induction rs arbitrary: rt)
  case (Cons r rs)
  have upt: "[0..<Suc n] = 0 # map Suc [0..<n]" for n
    by (metis map_Suc_upt upt_conv_Cons zero_less_Suc)
  show ?case
    using Cons.IH [of "snd (create_order r rt)"]
    by (simp add: Let_def split_beta create_order_id upt add.assoc comp_def del: upt_Suc)
qed simp

text \<open>
  Order identifiers are unique: however many orders the process creates, up to the
  \<open>2 ^ 64\<close> values of the counter, and whichever factory makes each of them, no two carry the
  same client order id.
\<close>

theorem order_ids_distinct:
  assumes "length rs \<le> 2 ^ 64"
  shows "distinct (map t_client_order_id (fst (create_orders rs rt)))"
proof -
  have "inj_on (\<lambda>i. order_id_counter rt + of_nat i) {0..<length rs}"
    using assms by (auto simp: inj_on_def of_nat_u64_inject)
  then show ?thesis by (simp add: create_orders_ids distinct_map)
qed

theorem order_ids_distinct_witness:
  "distinct (map t_client_order_id
     (fst (create_orders [MarketRequest 1 ''BTC_USDT'' BUY (Fin 1),
                          StopRequest 1 ''BTC_USDT'' SELL (Fin 1) (Fin 90) None]
            \<lparr>order_id_counter = - 1, clk = (\<lambda>n. int n)\<rparr>)))"
  by (rule order_ids_distinct) simp

end
