(* ===== verification/Trade_Queue.thy ===== *)
theory Trade_Queue
  imports Trade
begin

text \<open>
  \<open>include/core/trade_queue.hpp\<close>, operation by operation: the ring buffer \<open>SPSCTradeQueue\<close>, the
  \<open>PriorityTradeQueue\<close> built from four of them, and the slot queue \<open>MPSCTradeQueue\<close> as one
  thread sees it when no other thread interferes (\<open>Spsc_Concurrent\<close> and \<open>Mpsc_Concurrent\<close> have the interleavings).

  The interface both rings provide is the locale \<open>bounded_fifo\<close>: a queue of limited room over an
  abstract list. What a client may rely on is proved once in the locale and holds of every
  interpretation. The queues are polymorphic in their elements where the code does not look at
  them.
\<close>

section \<open>The interface of a bounded queue\<close>

datatype 'a queue_op = Push 'a | Pop

text \<open>A run of operations: the pushed elements that were accepted, the popped ones, the queue.\<close>

fun run_queue ::
  "('a \<Rightarrow> 'q \<Rightarrow> bool \<times> 'q) \<Rightarrow> ('q \<Rightarrow> 'a option \<times> 'q) \<Rightarrow> 'a queue_op list \<Rightarrow> 'q
     \<Rightarrow> 'a list \<times> 'a list \<times> 'q"
where
  "run_queue push pop [] q = ([], [], q)"
| "run_queue push pop (Push x # ops) q =
     (let (ok, q') = push x q; (acc, out, q'') = run_queue push pop ops q'
      in (if ok then x # acc else acc, out, q''))"
| "run_queue push pop (Pop # ops) q =
     (let (r, q') = pop q; (acc, out, q'') = run_queue push pop ops q'
      in (acc, (case r of None \<Rightarrow> out | Some x \<Rightarrow> x # out), q''))"

locale bounded_fifo =
  fixes inv :: "'q \<Rightarrow> bool"
    and contents :: "'q \<Rightarrow> 'a list"
    and room :: nat
    and push :: "'a \<Rightarrow> 'q \<Rightarrow> bool \<times> 'q"
    and pop :: "'q \<Rightarrow> 'a option \<times> 'q"
  assumes push_inv: "inv q \<Longrightarrow> inv (snd (push x q))"
    and pop_inv: "inv q \<Longrightarrow> inv (snd (pop q))"
    and push_room: "inv q \<Longrightarrow> length (contents q) < room \<Longrightarrow>
      fst (push x q) \<and> contents (snd (push x q)) = contents q @ [x]"
    and push_full: "inv q \<Longrightarrow> room \<le> length (contents q) \<Longrightarrow> push x q = (False, q)"
    and pop_nil: "inv q \<Longrightarrow> contents q = [] \<Longrightarrow> pop q = (None, q)"
    and pop_cons: "inv q \<Longrightarrow> contents q = x # xs \<Longrightarrow>
      fst (pop q) = Some x \<and> contents (snd (pop q)) = xs"
begin

lemma push_contents:
  assumes "inv q" and "push x q = (ok, q')"
  shows "inv q' \<and> contents q' = (if ok then contents q @ [x] else contents q)"
  using assms push_inv [of q x] push_room [of q x] push_full [of q x]
  by (cases "length (contents q) < room") auto

lemma pop_contents:
  assumes "inv q" and "pop q = (r, q')"
  shows "inv q' \<and> contents q = (case r of None \<Rightarrow> contents q' | Some x \<Rightarrow> x # contents q')"
  using assms pop_inv [of q] pop_nil [of q] pop_cons [of q]
  by (cases "contents q") auto

lemma push_accepts_iff: "inv q \<Longrightarrow> fst (push x q) \<longleftrightarrow> length (contents q) < room"
  using push_room [of q x] push_full [of q x] by (cases "length (contents q) < room") auto

text \<open>First in, first out over any run: nothing is lost, duplicated or reordered.\<close>

lemma run_fifo:
  "inv q \<Longrightarrow> run_queue push pop ops q = (acc, out, q') \<Longrightarrow>
     inv q' \<and> contents q @ acc = out @ contents q'"
proof (induction ops arbitrary: q acc out q')
  case (Cons op ops)
  show ?case
  proof (cases op)
    case (Push x)
    obtain ok q1 where q1: "push x q = (ok, q1)" by (cases "push x q")
    obtain acc1 out1 q2 where r: "run_queue push pop ops q1 = (acc1, out1, q2)"
      by (cases "run_queue push pop ops q1")
    from push_contents [OF Cons.prems(1) q1] Cons.IH [OF _ r] Cons.prems(2) show ?thesis
      by (auto simp: Push q1 r split: if_splits)
  next
    case Pop
    obtain r q1 where q1: "pop q = (r, q1)" by (cases "pop q")
    obtain acc1 out1 q2 where rr: "run_queue push pop ops q1 = (acc1, out1, q2)"
      by (cases "run_queue push pop ops q1")
    from pop_contents [OF Cons.prems(1) q1] Cons.IH [OF _ rr] Cons.prems(2) show ?thesis
      by (auto simp: Pop q1 rr split: option.splits)
  qed
qed simp

end

section \<open>Ring indices\<close>

text \<open>
  The template parameter \<open>Capacity\<close>: a power of two (the \<open>static_assert\<close>) that fits
  \<open>size_t\<close>, and \<open>MASK = Capacity - 1\<close>.
\<close>

definition valid_capacity :: "nat \<Rightarrow> bool" where
  "valid_capacity K \<longleftrightarrow> list_ex (\<lambda>k. K = 2 ^ k) [0..<64]"

definition MASK :: "nat \<Rightarrow> u64" where
  "MASK K = of_nat K - 1"

lemma valid_capacityE:
  assumes "valid_capacity K"
  obtains k where "k < 64" and "K = 2 ^ k"
  using assms by (auto simp: valid_capacity_def list_ex_iff)

lemma valid_capacity_pos [simp]: "valid_capacity K \<Longrightarrow> 0 < K"
  by (auto elim!: valid_capacityE)

lemma valid_capacity_dvd: "valid_capacity K \<Longrightarrow> K dvd 2 ^ 64"
proof (erule valid_capacityE)
  fix k :: nat assume "k < 64" "K = 2 ^ k"
  moreover have "(2::nat) ^ k dvd 2 ^ 64" using \<open>k < 64\<close> by (intro le_imp_power_dvd) simp
  ultimately show ?thesis by simp
qed

lemma valid_capacity_less: "valid_capacity K \<Longrightarrow> K < 2 ^ 64"
proof (erule valid_capacityE)
  fix k :: nat assume "k < 64" "K = 2 ^ k"
  moreover have "(2::nat) ^ k < 2 ^ 64" using \<open>k < 64\<close> by (intro power_strict_increasing) auto
  ultimately show ?thesis by simp
qed

lemma unat_less_u64: "unat (x :: u64) < 2 ^ 64"
  using unsigned_less [of x] by simp

lemma unat_masked: "valid_capacity K \<Longrightarrow> unat (x AND MASK K) = unat x mod K"
proof (erule valid_capacityE)
  fix k assume k: "k < 64" "K = 2 ^ k"
  have "unat x mod K < 2 ^ 64"
    using unat_less_u64 [of x] mod_less_eq_dividend [of "unat x" K] by linarith
  then have "unat (of_nat (unat x mod K) :: u64) = unat x mod K" by (rule unat_of_nat_u64)
  then show ?thesis using k and_mask_word [of k x] by (simp add: MASK_def)
qed

lemma unat_add_mod: "valid_capacity K \<Longrightarrow> unat (x + y) mod K = (unat x + unat y) mod K" for x y :: u64
proof -
  assume "valid_capacity K"
  then have "K dvd 2 ^ 64" by (rule valid_capacity_dvd)
  then show ?thesis using mod_mod_cancel [of K "2 ^ 64" "unat x + unat y"]
    by (simp add: unat_word_ariths)
qed

lemma unat_masked_Suc: "valid_capacity K \<Longrightarrow> unat ((x + 1) AND MASK K) = Suc (unat x) mod K"
  by (simp add: unat_masked unat_add_mod)

text \<open>The \<open>c\<close> elements of a ring from position \<open>h\<close> on.\<close>

definition ring_list :: "'a list \<Rightarrow> nat \<Rightarrow> nat \<Rightarrow> 'a list" where
  "ring_list buf h c = map (\<lambda>i. buf ! ((h + i) mod length buf)) [0..<c]"

definition ring_count :: "nat \<Rightarrow> nat \<Rightarrow> nat \<Rightarrow> nat" where
  "ring_count K h t = (t + K - h) mod K"

lemma length_ring_list [simp]: "length (ring_list buf h c) = c"
  by (simp add: ring_list_def)

lemma ring_list_0 [simp]: "ring_list buf h 0 = []"
  by (simp add: ring_list_def)

lemma ring_list_Suc:
  "h < length buf \<Longrightarrow> ring_list buf h (Suc c) = buf ! h # ring_list buf (Suc h mod length buf) c"
  by (simp add: ring_list_def upt_conv_Cons mod_add_left_eq flip: map_Suc_upt del: upt_Suc)

lemma ring_list_update:
  assumes "h < length buf" and "c < length buf" and "t = (h + c) mod length buf"
  shows "ring_list (buf[t := x]) h (Suc c) = ring_list buf h c @ [x]"
proof -
  have "t \<noteq> (h + i) mod length buf" if "i < c" for i
  proof
    assume "t = (h + i) mod length buf"
    then have "(h + i) mod length buf = (h + c) mod length buf" using assms(3) by simp
    then have "length buf dvd (h + c) - (h + i)"
      using that by (metis mod_eq_dvd_iff_nat less_imp_le nat_add_left_cancel_le)
    then show False using that assms(2) by (auto dest: dvd_imp_le)
  qed
  moreover have "t < length buf" using assms(1) unfolding assms(3) by (intro mod_less_divisor) linarith
  ultimately show ?thesis by (simp add: ring_list_def assms(3) [symmetric] nth_list_update_neq)
qed

lemma ring_count_Suc:
  "h < K \<Longrightarrow> t < K \<Longrightarrow> Suc t mod K \<noteq> h \<Longrightarrow> ring_count K h (Suc t mod K) = Suc (ring_count K h t)"
  by (auto simp: ring_count_def mod_Suc mod_if split: if_splits)

lemma ring_count_full:
  "h < K \<Longrightarrow> t < K \<Longrightarrow> Suc t mod K = h \<longleftrightarrow> ring_count K h t = K - 1"
  by (auto simp: ring_count_def mod_Suc mod_if split: if_splits)

lemma ring_count_0: "h < K \<Longrightarrow> t < K \<Longrightarrow> ring_count K h t = 0 \<longleftrightarrow> h = t"
  by (auto simp: ring_count_def mod_if split: if_splits)

lemma ring_count_pop:
  "h < K \<Longrightarrow> t < K \<Longrightarrow> h \<noteq> t \<Longrightarrow> ring_count K h t = Suc (ring_count K (Suc h mod K) t)"
  by (auto simp: ring_count_def mod_Suc mod_if split: if_splits)

lemma ring_count_tail: "h < K \<Longrightarrow> t < K \<Longrightarrow> (h + ring_count K h t) mod K = t"
  by (auto simp: ring_count_def mod_if split: if_splits)

lemma ring_count_less: "h < K \<Longrightarrow> ring_count K h t < K"
  by (auto simp: ring_count_def)

section \<open>SPSCTradeQueue\<close>

record 'a spsc_queue =
  sq_head :: u64
  sq_tail :: u64
  sq_buffer :: "'a list"

text \<open>A fresh queue: both indices zero, the array holding its initial elements.\<close>

definition spsc_new :: "nat \<Rightarrow> 'a \<Rightarrow> 'a spsc_queue" where
  "spsc_new K a = \<lparr>sq_head = 0, sq_tail = 0, sq_buffer = replicate K a\<rparr>"

definition spsc_try_push :: "nat \<Rightarrow> 'a \<Rightarrow> 'a spsc_queue \<Rightarrow> bool \<times> 'a spsc_queue" where
  "spsc_try_push K trade q =
     (let tail = sq_tail q; next_tail = (tail + 1) AND MASK K
      in if next_tail = sq_head q then (False, q)
         else (True, q\<lparr>sq_buffer := (sq_buffer q)[unat tail := trade], sq_tail := next_tail\<rparr>))"

definition spsc_try_pop :: "nat \<Rightarrow> 'a spsc_queue \<Rightarrow> 'a option \<times> 'a spsc_queue" where
  "spsc_try_pop K q =
     (let head = sq_head q
      in if head = sq_tail q then (None, q)
         else (Some (sq_buffer q ! unat head), q\<lparr>sq_head := (head + 1) AND MASK K\<rparr>))"

definition spsc_peek :: "'a spsc_queue \<Rightarrow> 'a option" where
  "spsc_peek q = (if sq_head q = sq_tail q then None else Some (sq_buffer q ! unat (sq_head q)))"

definition spsc_empty :: "'a spsc_queue \<Rightarrow> bool" where
  "spsc_empty q \<longleftrightarrow> sq_head q = sq_tail q"

definition spsc_size :: "nat \<Rightarrow> 'a spsc_queue \<Rightarrow> u64" where
  "spsc_size K q = (sq_tail q - sq_head q + of_nat K) AND MASK K"

definition spsc_capacity :: "nat \<Rightarrow> u64" where
  "spsc_capacity K = of_nat K - 1"

definition spsc_clear :: "'a spsc_queue \<Rightarrow> 'a spsc_queue" where
  "spsc_clear q = q\<lparr>sq_head := 0, sq_tail := 0\<rparr>"

text \<open>Invariant and abstraction: the elements from \<open>head_\<close> up to \<open>tail_\<close>.\<close>

definition spsc_inv :: "nat \<Rightarrow> 'a spsc_queue \<Rightarrow> bool" where
  "spsc_inv K q \<longleftrightarrow> valid_capacity K \<and> unat (sq_head q) < K \<and> unat (sq_tail q) < K \<and> length (sq_buffer q) = K"

definition spsc_contents :: "nat \<Rightarrow> 'a spsc_queue \<Rightarrow> 'a list" where
  "spsc_contents K q =
     ring_list (sq_buffer q) (unat (sq_head q)) (ring_count K (unat (sq_head q)) (unat (sq_tail q)))"

lemma spsc_new_inv [inv_intros]: "valid_capacity K \<Longrightarrow> spsc_inv K (spsc_new K a)"
  by (simp add: spsc_inv_def spsc_new_def)

lemma spsc_new_contents [simp]: "spsc_contents K (spsc_new K a) = []"
  by (simp add: spsc_contents_def spsc_new_def ring_count_def)

lemma spsc_push_inv [inv_intros]: "spsc_inv K q \<Longrightarrow> spsc_inv K (snd (spsc_try_push K x q))"
  by (auto simp: spsc_inv_def spsc_try_push_def Let_def unat_masked_Suc)

lemma spsc_pop_inv [inv_intros]: "spsc_inv K q \<Longrightarrow> spsc_inv K (snd (spsc_try_pop K q))"
  by (auto simp: spsc_inv_def spsc_try_pop_def Let_def unat_masked_Suc)

lemma spsc_next_tail_full:
  "spsc_inv K q \<Longrightarrow> (sq_tail q + 1) AND MASK K = sq_head q \<longleftrightarrow> length (spsc_contents K q) = K - 1"
  by (simp add: spsc_inv_def spsc_contents_def word_unat_eq_iff unat_masked_Suc ring_count_full)

lemma spsc_push_room:
  assumes "spsc_inv K q" and "length (spsc_contents K q) < K - 1"
  shows "fst (spsc_try_push K x q) \<and> spsc_contents K (snd (spsc_try_push K x q)) = spsc_contents K q @ [x]"
proof -
  let ?h = "unat (sq_head q)" and ?t = "unat (sq_tail q)"
  have K: "?h < K" "?t < K" "length (sq_buffer q) = K" "valid_capacity K"
    using assms(1) by (auto simp: spsc_inv_def)
  have nf: "(sq_tail q + 1) AND MASK K \<noteq> sq_head q"
    using spsc_next_tail_full [OF assms(1)] assms(2) by simp
  then have "Suc ?t mod K \<noteq> ?h" using K by (metis unat_masked_Suc word_unat_eq_iff)
  with K have "ring_count K ?h (Suc ?t mod K) = Suc (ring_count K ?h ?t)" by (simp add: ring_count_Suc)
  moreover have "ring_list ((sq_buffer q)[?t := x]) ?h (Suc (ring_count K ?h ?t))
      = ring_list (sq_buffer q) ?h (ring_count K ?h ?t) @ [x]"
    using K by (intro ring_list_update) (simp_all add: ring_count_less ring_count_tail)
  ultimately show ?thesis
    using nf K by (simp add: spsc_try_push_def Let_def spsc_contents_def unat_masked_Suc)
qed

lemma spsc_contents_nil: "spsc_inv K q \<Longrightarrow> spsc_contents K q = [] \<longleftrightarrow> sq_head q = sq_tail q"
  by (simp add: spsc_inv_def spsc_contents_def word_unat_eq_iff ring_count_0
      flip: length_0_conv)

lemma spsc_contents_Cons:
  assumes "spsc_inv K q" and "sq_head q \<noteq> sq_tail q"
  shows "spsc_contents K q
    = sq_buffer q ! unat (sq_head q) # spsc_contents K (q\<lparr>sq_head := (sq_head q + 1) AND MASK K\<rparr>)"
proof -
  let ?h = "unat (sq_head q)" and ?t = "unat (sq_tail q)"
  have K: "?h < K" "?t < K" "length (sq_buffer q) = K" "valid_capacity K" "?h \<noteq> ?t"
    using assms by (auto simp: spsc_inv_def word_unat_eq_iff)
  then show ?thesis
    by (simp add: spsc_contents_def ring_count_pop [of ?h K ?t] ring_list_Suc unat_masked_Suc)
qed

lemma spsc_contents_less: "spsc_inv K q \<Longrightarrow> length (spsc_contents K q) < K"
  by (simp add: spsc_inv_def spsc_contents_def ring_count_less)

interpretation spsc: bounded_fifo "spsc_inv K" "spsc_contents K" "K - 1" "spsc_try_push K" "spsc_try_pop K"
  for K
proof (unfold_locales, goal_cases)
  case 2
  then show ?case by (rule spsc_pop_inv)
next
  case (4 q x)
  then have "length (spsc_contents K q) = K - 1" using spsc_contents_less [of K q] by linarith
  then show ?case using 4 by (simp add: spsc_try_push_def Let_def spsc_next_tail_full)
next
  case (6 q x xs)
  then show ?case
    using spsc_contents_Cons [of K q] spsc_contents_nil [of K q]
    by (auto simp: spsc_try_pop_def Let_def)
qed (simp_all add: spsc_push_inv spsc_push_room spsc_try_pop_def spsc_contents_nil)

lemma mod_add_cancel: "(a + h) mod K = (b + h) mod K \<Longrightarrow> a mod K = b mod K" for a b h K :: nat
proof (induction a b rule: linorder_wlog)
  case (le a b)
  then have "K dvd (b + h) - (a + h)" by (metis add_le_mono1 mod_eq_dvd_iff_nat)
  then have "K dvd b - a" by simp
  then show ?case using le by (metis mod_eq_dvd_iff_nat)
next
  case (sym a b)
  then show ?case by metis
qed

lemma spsc_size_length:
  assumes "spsc_inv K q"
  shows "unat (spsc_size K q) = length (spsc_contents K q)"
proof -
  let ?h = "unat (sq_head q)" and ?t = "unat (sq_tail q)" and ?x = "sq_tail q - sq_head q + of_nat K"
  have K: "?h < K" "?t < K" "valid_capacity K" using assms by (auto simp: spsc_inv_def)
  have "(unat ?x + ?h) mod K = unat (?x + sq_head q) mod K"
    by (rule unat_add_mod [OF K(3), symmetric])
  also have "?x + sq_head q = sq_tail q + of_nat K" by simp
  also have "unat (sq_tail q + of_nat K) mod K = (?t + unat (of_nat K :: u64)) mod K"
    by (rule unat_add_mod [OF K(3)])
  also have "unat (of_nat K :: u64) = K" by (rule unat_of_nat_u64 [OF valid_capacity_less [OF K(3)]])
  finally have "(unat ?x + ?h) mod K = (ring_count K ?h ?t + ?h) mod K"
    using K ring_count_tail [of ?h K ?t] by (simp add: add.commute)
  then have "unat ?x mod K = ring_count K ?h ?t mod K" by (rule mod_add_cancel)
  then show ?thesis
    using K ring_count_less [of ?h K ?t] by (simp add: spsc_size_def unat_masked spsc_contents_def)
qed

lemma spsc_empty_iff: "spsc_inv K q \<Longrightarrow> spsc_empty q \<longleftrightarrow> spsc_contents K q = []"
  by (simp add: spsc_empty_def spsc_contents_nil)

lemma spsc_peek_pop: "spsc_peek q = fst (spsc_try_pop K q)"
  by (simp add: spsc_peek_def spsc_try_pop_def Let_def)

lemma spsc_clear_inv [inv_intros]: "spsc_inv K q \<Longrightarrow> spsc_inv K (spsc_clear q)"
  by (simp add: spsc_inv_def spsc_clear_def)

text \<open>
  The single-producer ring is a first-in first-out queue: over any run of pushes and pops
  from a fresh queue, the accepted elements are exactly the popped ones followed by those still
  queued, in order, and \<open>size()\<close> reports how many those are.
\<close>

theorem spsc_fifo:
  assumes "valid_capacity K"
    and "run_queue (spsc_try_push K) (spsc_try_pop K) ops (spsc_new K a) = (acc, out, q)"
  shows "acc = out @ spsc_contents K q \<and> unat (spsc_size K q) = length acc - length out"
  using spsc.run_fifo [OF spsc_new_inv [OF assms(1)] assms(2)] by (auto simp: spsc_size_length)

theorem spsc_fifo_witness:
  "valid_capacity 4 \<and>
   (let (acc, out, q) = run_queue (spsc_try_push 4) (spsc_try_pop 4)
          [Push 1, Push 2, Pop, Push 3, Push 4, Push 5, Pop] (spsc_new 4 (0::nat))
    in acc = [1, 2, 3, 4] \<and> out = [1, 2] \<and> acc = out @ spsc_contents 4 q
       \<and> unat (spsc_size 4 q) = length acc - length out)"
proof -
  have v: "valid_capacity 4" by code_simp
  obtain acc out q where r: "run_queue (spsc_try_push 4) (spsc_try_pop 4)
      [Push 1, Push 2, Pop, Push 3, Push 4, Push 5, Pop] (spsc_new 4 (0::nat)) = (acc, out, q)"
    by (metis prod_cases3)
  moreover have "fst (run_queue (spsc_try_push 4) (spsc_try_pop 4)
      [Push 1, Push 2, Pop, Push 3, Push 4, Push 5, Pop] (spsc_new 4 (0::nat))) = [1, 2, 3, 4]"
    and "fst (snd (run_queue (spsc_try_push 4) (spsc_try_pop 4)
      [Push 1, Push 2, Pop, Push 3, Push 4, Push 5, Pop] (spsc_new 4 (0::nat)))) = [1, 2]"
    by code_simp+
  ultimately show ?thesis using v spsc_fifo [OF v r] by simp
qed

section \<open>PriorityTradeQueue\<close>

text \<open>
  One ring per priority level, of \<open>CapacityPerLevel\<close> slots each. The level of a trade is read
  off its priority; popping scans the levels from the highest.
\<close>

definition priority_to_level :: "u8 \<Rightarrow> nat" where
  "priority_to_level priority =
     (if priority < 32 then 0 else if priority < 96 then 1 else if priority < 192 then 2 else 3)"

definition prio_try_push ::
  "nat \<Rightarrow> Trade \<Rightarrow> Trade spsc_queue list \<Rightarrow> bool \<times> Trade spsc_queue list"
where
  "prio_try_push K trade qs =
     (let level = priority_to_level (t_priority trade);
          (ok, q) = spsc_try_push K trade (qs ! level)
      in (ok, qs[level := q]))"

fun prio_try_pop :: "nat \<Rightarrow> Trade spsc_queue list \<Rightarrow> Trade option \<times> Trade spsc_queue list" where
  "prio_try_pop K [] = (None, [])"
| "prio_try_pop K (q # qs) =
     (case spsc_try_pop K q of
        (Some trade, q') \<Rightarrow> (Some trade, q' # qs)
      | (None, q') \<Rightarrow> (let (r, qs') = prio_try_pop K qs in (r, q' # qs')))"

fun prio_empty :: "Trade spsc_queue list \<Rightarrow> bool" where
  "prio_empty [] = True"
| "prio_empty (q # qs) = (if \<not> spsc_empty q then False else prio_empty qs)"

definition prio_size :: "nat \<Rightarrow> Trade spsc_queue list \<Rightarrow> u64" where
  "prio_size K qs = foldl (\<lambda>total q. total + spsc_size K q) 0 qs"

text \<open>
  Invariant: four rings, each holding trades of its own level only. The contents are read in
  the order of the levels.
\<close>

abbreviation trade_level :: "Trade \<Rightarrow> nat" where
  "trade_level t \<equiv> priority_to_level (t_priority t)"

definition prio_inv :: "nat \<Rightarrow> Trade spsc_queue list \<Rightarrow> bool" where
  "prio_inv K qs \<longleftrightarrow> length qs = 4 \<and>
     (\<forall>l < 4. spsc_inv K (qs ! l) \<and> (\<forall>t \<in> set (spsc_contents K (qs ! l)). trade_level t = l))"

definition prio_contents :: "nat \<Rightarrow> Trade spsc_queue list \<Rightarrow> Trade list" where
  "prio_contents K qs = concat (map (spsc_contents K) qs)"

lemma priority_to_level_less: "priority_to_level p < 4"
  by (simp add: priority_to_level_def)

lemma prio_push_inv [inv_intros]:
  assumes "prio_inv K qs" and "prio_try_push K t qs = (ok, qs')"
  shows "prio_inv K qs'"
proof -
  let ?l = "trade_level t"
  have l: "?l < 4" by (rule priority_to_level_less)
  obtain q' where q': "spsc_try_push K t (qs ! ?l) = (ok, q')" and qs': "qs' = qs[?l := q']"
    using assms(2) by (auto simp: prio_try_push_def Let_def split: prod.splits)
  have "spsc_inv K (qs ! ?l)" using assms(1) l by (simp add: prio_inv_def)
  from spsc.push_contents [OF this q'] show ?thesis
    using assms(1) l by (auto simp: prio_inv_def qs' nth_list_update split: if_splits)
qed

text \<open>Sorting by level: the contents of a queue in its invariant.\<close>

lemma concat_levels_sorted:
  assumes "\<forall>l < length xss. \<forall>t \<in> set (xss ! l). f t = n + l"
  shows "sorted (map f (concat xss))"
  using assms
proof (induction xss arbitrary: n)
  case (Cons xs xss)
  have "sorted (map f (concat xss))"
    using Cons.prems by (intro Cons.IH [of "Suc n"]) force
  moreover have "f t = n" if "t \<in> set xs" for t using that Cons.prems by force
  moreover have "n \<le> f u" if "u \<in> set (concat xss)" for u
  proof -
    from that obtain l where "l < length xss" "u \<in> set (xss ! l)" by (auto simp: in_set_conv_nth) metis
    then show ?thesis using Cons.prems by force
  qed
  moreover have "map f xs = replicate (length xs) n"
    using calculation(2) by (simp add: map_replicate_const map_cong)
  ultimately show ?case by (auto simp: sorted_append)
qed simp

lemma prio_contents_sorted: "prio_inv K qs \<Longrightarrow> sorted (map trade_level (prio_contents K qs))"
  unfolding prio_contents_def
  by (rule concat_levels_sorted [where n = 0]) (auto simp: prio_inv_def)

lemma prio_pop_contents:
  assumes "\<forall>q \<in> set qs. spsc_inv K q" and "prio_try_pop K qs = (r, qs')"
  shows "length qs' = length qs \<and> (\<forall>q \<in> set qs'. spsc_inv K q)
    \<and> (case r of None \<Rightarrow> qs' = qs \<and> prio_contents K qs = []
       | Some t \<Rightarrow> prio_contents K qs = t # prio_contents K qs')"
  using assms
proof (induction qs arbitrary: r qs')
  case (Cons q qs)
  then have q: "spsc_inv K q" by simp
  obtain r1 q1 where p1: "spsc_try_pop K q = (r1, q1)" by (cases "spsc_try_pop K q")
  obtain r2 qs2 where p2: "prio_try_pop K qs = (r2, qs2)" by (cases "prio_try_pop K qs")
  have IH: "length qs2 = length qs \<and> (\<forall>q \<in> set qs2. spsc_inv K q)
    \<and> (case r2 of None \<Rightarrow> qs2 = qs \<and> prio_contents K qs = []
       | Some t \<Rightarrow> prio_contents K qs = t # prio_contents K qs2)"
    using Cons.prems by (intro Cons.IH) (simp_all add: p2)
  have q1: "spsc_contents K q = [] \<and> q1 = q" if "r1 = None"
    using q p1 that spsc.pop_nil [of K q] spsc.pop_cons [of K q] by (cases "spsc_contents K q") auto
  from spsc.pop_contents [OF q p1] IH q1 Cons.prems show ?case
    by (cases r1) (auto simp: p1 p2 prio_contents_def split: option.splits)
qed (auto simp: prio_contents_def)

lemma prio_inv_all: "prio_inv K qs \<Longrightarrow> \<forall>q \<in> set qs. spsc_inv K q"
  by (auto simp: prio_inv_def in_set_conv_nth)

lemma prio_pop_levels:
  "\<forall>q \<in> set qs. spsc_inv K q \<Longrightarrow> prio_try_pop K qs = (r, qs') \<Longrightarrow> l < length qs \<Longrightarrow>
     set (spsc_contents K (qs' ! l)) \<subseteq> set (spsc_contents K (qs ! l))"
proof (induction qs arbitrary: r qs' l)
  case (Cons q qs)
  obtain r1 q1 where p1: "spsc_try_pop K q = (r1, q1)" by (cases "spsc_try_pop K q")
  obtain r2 qs2 where p2: "prio_try_pop K qs = (r2, qs2)" by (cases "prio_try_pop K qs")
  have "set (spsc_contents K q1) \<subseteq> set (spsc_contents K q)"
    using spsc.pop_contents [OF _ p1] Cons.prems(1) by (auto split: option.splits)
  with Cons.prems Cons.IH [OF _ p2] show ?case
    by (cases l; cases r1) (fastforce simp: p1 p2)+
qed simp

lemma prio_pop_inv [inv_intros]:
  assumes "prio_inv K qs" and "prio_try_pop K qs = (r, qs')"
  shows "prio_inv K qs'"
  using assms prio_pop_contents [OF prio_inv_all [OF assms(1)] assms(2)]
    prio_pop_levels [OF prio_inv_all [OF assms(1)] assms(2)]
  unfolding prio_inv_def by (metis nth_mem subsetD)

lemma prio_new_inv [inv_intros]: "valid_capacity K \<Longrightarrow> prio_inv K (replicate 4 (spsc_new K a))"
  by (simp add: prio_inv_def spsc_new_inv)

lemma prio_empty_iff: "\<forall>q \<in> set qs. spsc_inv K q \<Longrightarrow> prio_empty qs \<longleftrightarrow> prio_contents K qs = []"
  by (induction qs) (auto simp: prio_contents_def spsc_empty_iff)

text \<open>
  (C30) A pop returns a trade of the most urgent non-empty level: no trade left in the queue is
  of a higher level, and it returns nothing only when every level is empty. Within a level the
  ring keeps first-in first-out order, so the popped trade is the oldest of its level.
\<close>

theorem prio_pop_most_urgent:
  assumes "prio_inv K qs" and "prio_try_pop K qs = (r, qs')"
  shows "case r of
      None \<Rightarrow> prio_contents K qs = [] \<and> qs' = qs
    | Some t \<Rightarrow> prio_contents K qs = t # prio_contents K qs'
        \<and> (\<forall>u \<in> set (prio_contents K qs'). trade_level t \<le> trade_level u)"
proof (cases r)
  case None
  then show ?thesis using prio_pop_contents [OF prio_inv_all [OF assms(1)] assms(2)] by simp
next
  case (Some t)
  then have c: "prio_contents K qs = t # prio_contents K qs'"
    using prio_pop_contents [OF prio_inv_all [OF assms(1)] assms(2)] by simp
  then show ?thesis using prio_contents_sorted [OF assms(1)] Some by auto
qed

definition example_queue :: "Trade spsc_queue list" where
  "example_queue =
     (let rt = \<lparr>order_id_counter = 0, clk = (\<lambda>n. int n)\<rparr>;
          (limit, rt) = create_limit_order 1 ''BTC_USDT'' BUY (Fin 1) (Fin 90) GTC DEFAULT rt;
          (market, rt) = create_market_order 1 ''BTC_USDT'' SELL (Fin 2) rt;
          qs = replicate 4 (spsc_new 4 limit)
      in snd (prio_try_push 4 market (snd (prio_try_push 4 limit qs))))"

lemma example_queue_inv: "prio_inv 4 example_queue"
proof -
  have "valid_capacity 4" by code_simp
  then show ?thesis
    unfolding example_queue_def Let_def split_beta
    by (intro prio_push_inv [OF _ prod.collapse [symmetric]] prio_new_inv)
qed

theorem prio_pop_most_urgent_witness:
  "\<exists>t qs'. prio_try_pop 4 example_queue = (Some t, qs') \<and> t_type t = MARKET
     \<and> prio_contents 4 example_queue = t # prio_contents 4 qs'
     \<and> (\<forall>u \<in> set (prio_contents 4 qs'). trade_level t \<le> trade_level u)"
proof -
  obtain r qs' where r: "prio_try_pop 4 example_queue = (r, qs')" by (cases "prio_try_pop 4 example_queue")
  have "map_option t_type (fst (prio_try_pop 4 example_queue)) = Some MARKET" by code_simp
  with r prio_pop_most_urgent [OF example_queue_inv r] show ?thesis by (cases r) auto
qed

section \<open>MPSCTradeQueue without interference\<close>

record 'a slot =
  sl_sequence :: u64
  sl_data :: 'a

record 'a mpsc_queue =
  mq_buffer :: "'a slot list"
  mq_enqueue_pos :: u64
  mq_dequeue_pos :: u64

definition mpsc_new :: "nat \<Rightarrow> 'a \<Rightarrow> 'a mpsc_queue" where
  "mpsc_new K a =
     \<lparr>mq_buffer = map (\<lambda>i. \<lparr>sl_sequence = of_nat i, sl_data = a\<rparr>) [0..<K],
      mq_enqueue_pos = 0, mq_dequeue_pos = 0\<rparr>"

text \<open>
  \<open>static_cast<intptr_t>(seq) - static_cast<intptr_t>(pos)\<close>, in two's complement (where the
  subtraction would overflow, the C++ expression has no defined value).
\<close>

definition seq_diff :: "u64 \<Rightarrow> u64 \<Rightarrow> int" where
  "seq_diff sequence pos = sint (sequence - pos)"

text \<open>
  \<open>try_push\<close>: the loop retries after a lost race only. Without interference a second iteration
  would read the same position and the same slot again, so it never returns: \<open>None\<close>.
\<close>

definition mpsc_try_push :: "nat \<Rightarrow> 'a \<Rightarrow> 'a mpsc_queue \<Rightarrow> (bool \<times> 'a mpsc_queue) option" where
  "mpsc_try_push K trade q =
     (let pos = mq_enqueue_pos q; i = unat (pos AND MASK K);
          diff = seq_diff (sl_sequence (mq_buffer q ! i)) pos
      in if diff = 0
         then Some (True, q\<lparr>mq_enqueue_pos := pos + 1,
                            mq_buffer := (mq_buffer q)[i := \<lparr>sl_sequence = pos + 1, sl_data = trade\<rparr>]\<rparr>)
         else if diff < 0 then Some (False, q) else None)"

definition mpsc_try_pop :: "nat \<Rightarrow> 'a mpsc_queue \<Rightarrow> 'a option \<times> 'a mpsc_queue" where
  "mpsc_try_pop K q =
     (let pos = mq_dequeue_pos q; i = unat (pos AND MASK K); slot = mq_buffer q ! i;
          diff = seq_diff (sl_sequence slot) (pos + 1)
      in if diff < 0 then (None, q)
         else (Some (sl_data slot),
               q\<lparr>mq_buffer := (mq_buffer q)[i := slot\<lparr>sl_sequence := pos + of_nat K\<rparr>],
                 mq_dequeue_pos := pos + 1\<rparr>))"

definition mpsc_peek :: "nat \<Rightarrow> 'a mpsc_queue \<Rightarrow> 'a option" where
  "mpsc_peek K q =
     (let slot = mq_buffer q ! unat (mq_dequeue_pos q AND MASK K)
      in if seq_diff (sl_sequence slot) (mq_dequeue_pos q + 1) < 0 then None
         else Some (sl_data slot))"

definition mpsc_empty :: "nat \<Rightarrow> 'a mpsc_queue \<Rightarrow> bool" where
  "mpsc_empty K q =
     (let slot = mq_buffer q ! unat (mq_dequeue_pos q AND MASK K)
      in seq_diff (sl_sequence slot) (mq_dequeue_pos q + 1) < 0)"

definition mpsc_capacity :: "nat \<Rightarrow> u64" where
  "mpsc_capacity K = of_nat K"

text \<open>
  Invariant with \<open>c\<close> elements queued: the slot of position \<open>dequeue_pos + i\<close> is published
  for \<open>i < c\<close> and free otherwise. The code needs at least two slots (a single slot's
  \<open>published\<close> mark for one position is its \<open>free\<close> mark for the next).
\<close>

definition mpsc_capacity_ok :: "nat \<Rightarrow> bool" where
  "mpsc_capacity_ok K \<longleftrightarrow> valid_capacity K \<and> 2 \<le> K \<and> K < 2 ^ 63"

definition mpsc_index :: "nat \<Rightarrow> 'a mpsc_queue \<Rightarrow> nat \<Rightarrow> nat" where
  "mpsc_index K q i = (unat (mq_dequeue_pos q) + i) mod K"

definition mpsc_count :: "'a mpsc_queue \<Rightarrow> nat" where
  "mpsc_count q = unat (mq_enqueue_pos q - mq_dequeue_pos q)"

definition mpsc_inv :: "nat \<Rightarrow> 'a mpsc_queue \<Rightarrow> bool" where
  "mpsc_inv K q \<longleftrightarrow> mpsc_capacity_ok K \<and> length (mq_buffer q) = K \<and> mpsc_count q \<le> K \<and>
     (\<forall>i < K. sl_sequence (mq_buffer q ! mpsc_index K q i)
        = mq_dequeue_pos q + of_nat i + (if i < mpsc_count q then 1 else 0))"

definition mpsc_contents :: "nat \<Rightarrow> 'a mpsc_queue \<Rightarrow> 'a list" where
  "mpsc_contents K q = map (\<lambda>i. sl_data (mq_buffer q ! mpsc_index K q i)) [0..<mpsc_count q]"

definition mpsc_push_seq :: "nat \<Rightarrow> 'a \<Rightarrow> 'a mpsc_queue \<Rightarrow> bool \<times> 'a mpsc_queue" where
  "mpsc_push_seq K trade q = (case mpsc_try_push K trade q of Some r \<Rightarrow> r | None \<Rightarrow> (False, q))"

lemma mpsc_capacity_okD:
  "mpsc_capacity_ok K \<Longrightarrow> valid_capacity K \<and> 2 \<le> K \<and> K < 2 ^ 63 \<and> 0 < K"
  by (auto simp: mpsc_capacity_ok_def)

lemma mpsc_index_less: "mpsc_capacity_ok K \<Longrightarrow> mpsc_index K q i < K"
  by (simp add: mpsc_index_def mpsc_capacity_ok_def)

lemma mpsc_index_inj:
  assumes "mpsc_index K q i = mpsc_index K q j" and "i < K" and "j < K"
  shows "i = j"
proof -
  have "i mod K = j mod K"
    using assms(1) mod_add_cancel [of i "unat (mq_dequeue_pos q)" K j] by (simp add: mpsc_index_def add.commute)
  then show ?thesis using assms by simp
qed

lemma mpsc_slot_word:
  "valid_capacity K \<Longrightarrow> i < 2 ^ 64 \<Longrightarrow> unat ((mq_dequeue_pos q + of_nat i) AND MASK K) = mpsc_index K q i"
  by (simp add: unat_masked unat_add_mod unat_of_nat_u64 mpsc_index_def)

lemma mpsc_enqueue_pos: "mq_enqueue_pos q = mq_dequeue_pos q + of_nat (mpsc_count q)"
  by (simp add: mpsc_count_def)

lemma seq_diff_of_nat:
  assumes "a < 2 ^ 63" and "b < 2 ^ 63"
  shows "seq_diff (d + of_nat a) (d + of_nat b) = int a - int b"
proof -
  have "seq_diff (d + of_nat a) (d + of_nat b) = sint (of_int (int a - int b) :: u64)"
    by (simp add: seq_diff_def)
  also have "\<dots> = signed_take_bit 63 (int a - int b)"
    by (simp add: signed_of_int del: of_int_diff)
  also have "\<dots> = int a - int b"
    using assms by (intro signed_take_bit_int_eq_self) auto
  finally show ?thesis .
qed

lemma mpsc_inv_seq:
  "mpsc_inv K q \<Longrightarrow> i < K \<Longrightarrow> sl_sequence (mq_buffer q ! mpsc_index K q i)
     = mq_dequeue_pos q + of_nat (i + (if i < mpsc_count q then 1 else 0))"
  by (simp add: mpsc_inv_def)

lemma mpsc_invD:
  "mpsc_inv K q \<Longrightarrow> valid_capacity K \<and> 2 \<le> K \<and> K < 2 ^ 63 \<and> length (mq_buffer q) = K \<and> mpsc_count q \<le> K"
  by (auto simp: mpsc_inv_def mpsc_capacity_ok_def)

lemma mpsc_push_index:
  "mpsc_inv K q \<Longrightarrow> unat (mq_enqueue_pos q AND MASK K) = mpsc_index K q (mpsc_count q)"
  using mpsc_invD [of K q] mpsc_slot_word [of K "mpsc_count q" q] by (simp add: mpsc_enqueue_pos)

lemma mpsc_push_diff:
  assumes "mpsc_inv K q"
  shows "seq_diff (sl_sequence (mq_buffer q ! mpsc_index K q (mpsc_count q))) (mq_enqueue_pos q)
    = (if mpsc_count q < K then 0 else 1 - int K)"
proof -
  note K = mpsc_invD [OF assms]
  let ?c = "mpsc_count q"
  have full: "mpsc_index K q ?c = mpsc_index K q 0" if "\<not> ?c < K"
    using that K by (simp add: mpsc_index_def)
  show ?thesis
    unfolding mpsc_enqueue_pos [of q]
    using K full mpsc_inv_seq [OF assms, of ?c] mpsc_inv_seq [OF assms, of 0]
      seq_diff_of_nat [of ?c ?c] seq_diff_of_nat [of 1 K "mq_dequeue_pos q"]
    by (cases "?c < K") auto
qed

lemma mpsc_push_never_spins: "mpsc_inv K q \<Longrightarrow> mpsc_try_push K x q = Some (mpsc_push_seq K x q)"
  using mpsc_invD [of K q]
  by (auto simp: mpsc_push_seq_def mpsc_try_push_def Let_def mpsc_push_index mpsc_push_diff)

lemma mpsc_push_eq:
  assumes "mpsc_inv K q"
  shows "mpsc_push_seq K x q =
    (if mpsc_count q < K
     then (True, q\<lparr>mq_enqueue_pos := mq_enqueue_pos q + 1,
                   mq_buffer := (mq_buffer q)[mpsc_index K q (mpsc_count q)
                       := \<lparr>sl_sequence = mq_enqueue_pos q + 1, sl_data = x\<rparr>]\<rparr>)
     else (False, q))"
  using mpsc_invD [OF assms]
  by (simp add: mpsc_push_seq_def mpsc_try_push_def Let_def mpsc_push_index mpsc_push_diff assms)

lemma mpsc_pushed:
  fixes q :: "'a mpsc_queue" and x :: 'a and K :: nat
  defines "q' \<equiv> q\<lparr>mq_enqueue_pos := mq_enqueue_pos q + 1,
      mq_buffer := (mq_buffer q)[mpsc_index K q (mpsc_count q)
        := \<lparr>sl_sequence = mq_enqueue_pos q + 1, sl_data = x\<rparr>]\<rparr>"
  assumes inv: "mpsc_inv K q" and c: "mpsc_count q < K"
  shows "mpsc_inv K q'" and "mpsc_contents K q' = mpsc_contents K q @ [x]"
proof -
  note K = mpsc_invD [OF inv]
  let ?c = "mpsc_count q"
  have deq [simp]: "mq_dequeue_pos q' = mq_dequeue_pos q" by (simp add: q'_def)
  have ix [simp]: "mpsc_index K q' i = mpsc_index K q i" for i by (simp add: mpsc_index_def)
  have "mq_enqueue_pos q' - mq_dequeue_pos q' = of_nat (Suc ?c)"
    by (simp add: q'_def mpsc_enqueue_pos [of q])
  moreover have "Suc ?c < 2 ^ 64" using K c by simp
  ultimately have cnt [simp]: "mpsc_count q' = Suc ?c"
    unfolding mpsc_count_def [of q'] by (simp only: unat_of_nat_u64)
  have lt: "mpsc_index K q i < K" for i using K by (simp add: mpsc_index_def)
  have slot: "mq_buffer q' ! mpsc_index K q i =
      (if i = ?c then \<lparr>sl_sequence = mq_enqueue_pos q + 1, sl_data = x\<rparr>
       else mq_buffer q ! mpsc_index K q i)" if "i < K" for i
    using that c lt K mpsc_index_inj [of K q i ?c] by (auto simp: q'_def nth_list_update)
  have len: "length (mq_buffer q') = K" using K by (simp add: q'_def)
  show "mpsc_inv K q'"
    using inv c len unfolding mpsc_inv_def [of K q']
    by (auto simp: slot mpsc_enqueue_pos [of q] less_Suc_eq mpsc_inv_seq) (simp add: mpsc_inv_def)
  show "mpsc_contents K q' = mpsc_contents K q @ [x]"
    using c slot by (simp add: mpsc_contents_def)
qed

lemma mpsc_pop_index: "mpsc_inv K q \<Longrightarrow> unat (mq_dequeue_pos q AND MASK K) = mpsc_index K q 0"
  using mpsc_invD [of K q] mpsc_slot_word [of K 0 q] by simp

lemma mpsc_pop_diff:
  assumes "mpsc_inv K q"
  shows "seq_diff (sl_sequence (mq_buffer q ! mpsc_index K q 0)) (mq_dequeue_pos q + 1)
    = (if 0 < mpsc_count q then 0 else - 1)"
  using mpsc_invD [OF assms] mpsc_inv_seq [OF assms, of 0]
    seq_diff_of_nat [of 1 1 "mq_dequeue_pos q"] seq_diff_of_nat [of 0 1 "mq_dequeue_pos q"] by auto

lemma mpsc_pop_eq:
  assumes "mpsc_inv K q"
  shows "mpsc_try_pop K q =
    (if mpsc_count q = 0 then (None, q)
     else (Some (sl_data (mq_buffer q ! mpsc_index K q 0)),
           q\<lparr>mq_buffer := (mq_buffer q)[mpsc_index K q 0 :=
                (mq_buffer q ! mpsc_index K q 0)\<lparr>sl_sequence := mq_dequeue_pos q + of_nat K\<rparr>],
             mq_dequeue_pos := mq_dequeue_pos q + 1\<rparr>))"
  by (simp add: mpsc_try_pop_def Let_def mpsc_pop_index mpsc_pop_diff assms)

lemma mpsc_popped:
  fixes q :: "'a mpsc_queue" and K :: nat
  defines "q' \<equiv> q\<lparr>mq_buffer := (mq_buffer q)[mpsc_index K q 0 :=
        (mq_buffer q ! mpsc_index K q 0)\<lparr>sl_sequence := mq_dequeue_pos q + of_nat K\<rparr>],
      mq_dequeue_pos := mq_dequeue_pos q + 1\<rparr>"
  assumes inv: "mpsc_inv K q" and c: "0 < mpsc_count q"
  shows "mpsc_inv K q'"
    and "mpsc_contents K q = sl_data (mq_buffer q ! mpsc_index K q 0) # mpsc_contents K q'"
proof -
  note K = mpsc_invD [OF inv]
  let ?c = "mpsc_count q"
  have deq: "mq_dequeue_pos q' = mq_dequeue_pos q + 1" by (simp add: q'_def)
  have ix: "mpsc_index K q' i = mpsc_index K q (Suc i)" for i
  proof -
    have "mpsc_index K q' i = (unat (mq_dequeue_pos q + 1) mod K + i) mod K"
      by (simp add: mpsc_index_def deq mod_add_left_eq)
    also have "\<dots> = mpsc_index K q (Suc i)"
      using K by (simp add: unat_add_mod mod_add_left_eq mpsc_index_def)
    finally show ?thesis .
  qed
  have "mq_enqueue_pos q' - mq_dequeue_pos q' = of_nat (?c - 1)"
    using c by (simp add: q'_def mpsc_enqueue_pos [of q] of_nat_diff)
  moreover have "?c - 1 < 2 ^ 64" using K by (intro less_imp_diff_less) simp
  ultimately have cnt: "mpsc_count q' = ?c - 1"
    unfolding mpsc_count_def [of q'] by (simp only: unat_of_nat_u64)
  have lt: "mpsc_index K q i < K" for i using K by (simp add: mpsc_index_def)
  have wrap: "mpsc_index K q K = mpsc_index K q 0" by (simp add: mpsc_index_def)
  have slot: "mq_buffer q' ! mpsc_index K q i = mq_buffer q ! mpsc_index K q i" if "0 < i" "i < K" for i
  proof -
    have "mpsc_index K q 0 \<noteq> mpsc_index K q i" using that mpsc_index_inj [of K q 0 i] by auto
    then show ?thesis by (simp add: q'_def)
  qed
  have last: "mq_buffer q' ! mpsc_index K q K
      = (mq_buffer q ! mpsc_index K q 0)\<lparr>sl_sequence := mq_dequeue_pos q + of_nat K\<rparr>"
    using K lt [of 0] by (simp add: q'_def wrap)
  have seq: "sl_sequence (mq_buffer q' ! mpsc_index K q (Suc i))
      = mq_dequeue_pos q' + of_nat i + (if i < mpsc_count q' then 1 else 0)" if "i < K" for i
  proof (cases "Suc i = K")
    case True
    then show ?thesis using last K c by (auto simp: deq cnt)
  next
    case False
    with that have "Suc i < K" by simp
    then show ?thesis using slot [of "Suc i"] mpsc_inv_seq [OF inv, of "Suc i"] c
      by (auto simp: deq cnt algebra_simps)
  qed
  have "length (mq_buffer q') = K" using K by (simp add: q'_def)
  then show "mpsc_inv K q'"
    using inv K seq unfolding mpsc_inv_def [of K q'] by (auto simp: ix cnt mpsc_inv_def)
  have "[0..<?c] = 0 # map Suc [0..<?c - 1]" using c by (simp add: map_Suc_upt upt_conv_Cons)
  then show "mpsc_contents K q = sl_data (mq_buffer q ! mpsc_index K q 0) # mpsc_contents K q'"
    using slot K c by (auto simp: mpsc_contents_def cnt ix)
qed

lemma length_mpsc_contents [simp]: "length (mpsc_contents K q) = mpsc_count q"
  by (simp add: mpsc_contents_def)

lemma mpsc_contents_nil: "mpsc_contents K q = [] \<longleftrightarrow> mpsc_count q = 0"
  by (simp flip: length_0_conv)

interpretation mpsc: bounded_fifo "mpsc_inv K" "mpsc_contents K" K "mpsc_push_seq K" "mpsc_try_pop K"
  for K
proof (unfold_locales, goal_cases)
  case (6 q x xs)
  then have "0 < mpsc_count q" by (simp flip: length_mpsc_contents [of K q])
  with 6 mpsc_popped(2) [of K q] show ?case by (simp add: mpsc_pop_eq)
qed (auto simp: mpsc_push_eq mpsc_pop_eq mpsc_pushed mpsc_popped mpsc_contents_nil)

lemma mpsc_new_inv [inv_intros]: "mpsc_capacity_ok K \<Longrightarrow> mpsc_inv K (mpsc_new K a)"
  by (auto simp: mpsc_inv_def mpsc_new_def mpsc_count_def mpsc_index_def mpsc_capacity_ok_def)

lemma mpsc_new_contents [simp]: "mpsc_contents K (mpsc_new K a) = []"
  by (simp add: mpsc_contents_def mpsc_new_def mpsc_count_def)

text \<open>
  Used by one thread at a time, the multi-producer queue is a first-in first-out queue of
  all its \<open>Capacity\<close> slots, provided it has at least two: no call spins, a push is refused
  exactly when that many elements are queued, and the accepted elements leave in order.
\<close>

theorem mpsc_sequential_fifo:
  assumes "mpsc_capacity_ok K"
    and "run_queue (mpsc_push_seq K) (mpsc_try_pop K) ops (mpsc_new K a) = (acc, out, q)"
  shows "acc = out @ mpsc_contents K q
    \<and> mpsc_try_push K x q = Some (mpsc_push_seq K x q)
    \<and> (fst (mpsc_push_seq K x q) \<longleftrightarrow> length (mpsc_contents K q) < K)"
proof -
  from mpsc.run_fifo [OF mpsc_new_inv [OF assms(1)] assms(2)]
  have "mpsc_inv K q" "acc = out @ mpsc_contents K q" by auto
  then show ?thesis
    using mpsc_push_never_spins [of K q x] mpsc.push_accepts_iff [of K q x] by simp
qed

theorem mpsc_sequential_fifo_witness:
  "mpsc_capacity_ok 2 \<and>
   (\<exists>q. run_queue (mpsc_push_seq 2) (mpsc_try_pop 2) [Push 1, Push 2, Push 3, Pop, Push 4] (mpsc_new 2 (0::nat))
          = ([1, 2, 4], [1], q)
      \<and> [1, 2, 4] = [1] @ mpsc_contents 2 q
      \<and> mpsc_try_push 2 5 q = Some (mpsc_push_seq 2 5 q) \<and> \<not> fst (mpsc_push_seq 2 5 q))"
proof -
  let ?r = "run_queue (mpsc_push_seq 2) (mpsc_try_pop 2) [Push 1, Push 2, Push 3, Pop, Push 4] (mpsc_new 2 (0::nat))"
  have "valid_capacity 2" by code_simp
  then have ok: "mpsc_capacity_ok 2" by (simp add: mpsc_capacity_ok_def)
  have "fst ?r = [1, 2, 4]" "fst (snd ?r) = [1]" by code_simp+
  then have r: "?r = ([1, 2, 4], [1], snd (snd ?r))" by (metis prod.collapse)
  note concl = mpsc_sequential_fifo [OF ok r, of 5]
  have "\<not> fst (mpsc_push_seq 2 5 (snd (snd ?r)))" by code_simp
  with ok r concl show ?thesis by blast
qed

text \<open>
  With a single slot, which the \<open>static_assert\<close> lets through, the queue loses data: the
  second push overwrites the element of the first and both are reported as accepted.
\<close>

lemma mpsc_capacity_one_overwrites:
  "valid_capacity 1 \<and>
   (let (acc, out, q) = run_queue (mpsc_push_seq 1) (mpsc_try_pop 1) [Push 1, Push 2, Pop, Pop] (mpsc_new 1 (0::nat))
    in acc = [1, 2] \<and> hd out = 2)"
  by code_simp

end
