(* ===== verification/Concurrent_Queue.thy ===== *)
theory Concurrent_Queue
  imports Prelude "HOL-Library.Sublist"
begin

text \<open>
  What a queue shared by threads promises, as the locale \<open>concurrent_queue\<close>: a step relation over
  a state with a history of the elements that entered and of those that were taken. A provider
  shows that its invariant is kept and that a single step moves at most one element; that every
  interleaving then refines a bounded first-in first-out queue is proved once. Both lock-free
  queues interpret it (\<open>Spsc_Concurrent\<close>, \<open>Mpsc_Concurrent\<close>).
\<close>

text \<open>The abstract queue: a bounded list that grows at one end and shrinks at the other.\<close>

inductive fifo_step :: "nat \<Rightarrow> 'a list \<Rightarrow> 'a list \<Rightarrow> bool" for room where
  enqueue: "length xs < room \<Longrightarrow> fifo_step room xs (xs @ [x])"
| dequeue: "fifo_step room (x # xs) xs"
| stutter: "fifo_step room xs xs"

inductive_simps fifo_step_Nil: "fifo_step room [] xs"

locale concurrent_queue =
  fixes step :: "'s \<Rightarrow> 's \<Rightarrow> bool"
    and start :: 's
    and valid :: "'s \<Rightarrow> bool"
    and inv :: "'s \<Rightarrow> bool"
    and entered :: "'s \<Rightarrow> 'a list"
    and taken :: "'s \<Rightarrow> 'a list"
    and room :: nat
  assumes start_inv: "inv start"
    and valid_back: "step s s' \<Longrightarrow> valid s' \<Longrightarrow> valid s"
    and step_inv: "inv s \<Longrightarrow> valid s \<Longrightarrow> step s s' \<Longrightarrow> inv s'"
    and taken_prefix: "inv s \<Longrightarrow> valid s \<Longrightarrow> prefix (taken s) (entered s)"
    and taken_room: "inv s \<Longrightarrow> valid s \<Longrightarrow> length (entered s) \<le> length (taken s) + room"
    and step_moves: "step s s' \<Longrightarrow>
      \<exists>xs ys. entered s' = entered s @ xs \<and> taken s' = taken s @ ys \<and> length xs + length ys \<le> 1"
begin

lemma reachable_inv: "step\<^sup>*\<^sup>* start s \<Longrightarrow> valid s \<Longrightarrow> inv s"
proof (induction rule: rtranclp_induct)
  case base
  show ?case by (rule start_inv)
next
  case (step s s')
  then show ?case using step_inv valid_back by blast
qed

lemma queued_length: "inv s \<Longrightarrow> valid s \<Longrightarrow> length (drop (length (taken s)) (entered s)) \<le> room"
  using taken_room [of s] by simp

lemma entered_split: "inv s \<Longrightarrow> valid s \<Longrightarrow> entered s = taken s @ drop (length (taken s)) (entered s)"
  using taken_prefix [of s] by (auto simp: prefix_def)

lemma refines_fifo:
  assumes "inv s" and "step s s'" and "valid s'"
  shows "fifo_step room (drop (length (taken s)) (entered s)) (drop (length (taken s')) (entered s'))"
    (is "fifo_step room ?q ?q'")
proof -
  have v: "valid s" "inv s'" using assms valid_back step_inv by blast+
  note e = entered_split [OF assms(1) v(1)] entered_split [OF v(2) assms(3)]
  obtain xs ys where m: "entered s' = entered s @ xs" "taken s' = taken s @ ys" "length xs + length ys \<le> 1"
    using step_moves [OF assms(2)] by blast
  then have q: "?q @ xs = ys @ ?q'" using e by (metis append.assoc append_eq_append_conv)
  consider "xs = []" "ys = []" | x where "xs = [x]" "ys = []" | y where "xs = []" "ys = [y]"
    using m(3) by (cases xs; cases ys) auto
  then show ?thesis
  proof cases
    case (2 x)
    then have "?q' = ?q @ [x]" using q by simp
    moreover from this have "length ?q < room" using queued_length [OF v(2) assms(3)] by simp
    ultimately show ?thesis by (simp only: fifo_step.enqueue)
  next
    case (3 y)
    then show ?thesis using q fifo_step.dequeue [of room y ?q'] by simp
  qed (use q in \<open>simp add: fifo_step.stutter\<close>)
qed

text \<open>Over any interleaving: nothing lost, duplicated or reordered, and never more than fits.\<close>

lemma reachable_fifo:
  assumes "step\<^sup>*\<^sup>* start s" and "step s s'" and "valid s'"
  shows "fifo_step room (drop (length (taken s)) (entered s)) (drop (length (taken s')) (entered s'))
    \<and> entered s' = taken s' @ drop (length (taken s')) (entered s')
    \<and> length (drop (length (taken s')) (entered s')) \<le> room"
proof -
  have inv: "inv s" "inv s'" using reachable_inv [OF assms(1)] valid_back [OF assms(2,3)] step_inv assms(2) by blast+
  show ?thesis
    using refines_fifo [OF inv(1) assms(2,3)] entered_split [OF inv(2) assms(3)] queued_length [OF inv(2) assms(3)] by blast
qed

end

end
