(* ===== verification/Spsc_Concurrent.thy ===== *)
theory Spsc_Concurrent
  imports Trade_Queue Concurrent_Queue
begin

text \<open>
  \<open>SPSCTradeQueue\<close> under concurrency: one thread inside \<open>try_push\<close> and one inside \<open>try_pop\<close>,
  interleaved access by access. The producer alone stores \<open>tail_\<close>, the consumer alone stores
  \<open>head_\<close>; what each has read of the other's index may be out of date, and the invariant says
  what it still guarantees. No counter is bounded here: the indices run round the ring.
\<close>

section \<open>The accesses of try_push and try_pop\<close>

datatype 'a spsc_push_pc =
    SPush_Idle
  | Load_Tail 'a
  | Check_Full 'a u64
  | Store_Element 'a u64
  | Store_Tail 'a u64
  | SPush_Returned 'a bool

fun spsc_push_step ::
  "nat \<Rightarrow> 'a spsc_push_pc \<Rightarrow> 'a spsc_queue \<Rightarrow> 'a spsc_push_pc \<times> 'a spsc_queue"
where
  "spsc_push_step K (Load_Tail trade) q = (Check_Full trade (sq_tail q), q)"
| "spsc_push_step K (Check_Full trade tail) q =
     (if (tail + 1) AND MASK K = sq_head q then SPush_Returned trade False else Store_Element trade tail, q)"
| "spsc_push_step K (Store_Element trade tail) q =
     (Store_Tail trade tail, q\<lparr>sq_buffer := (sq_buffer q)[unat tail := trade]\<rparr>)"
| "spsc_push_step K (Store_Tail trade tail) q =
     (SPush_Returned trade True, q\<lparr>sq_tail := (tail + 1) AND MASK K\<rparr>)"
| "spsc_push_step K SPush_Idle q = (SPush_Idle, q)"
| "spsc_push_step K (SPush_Returned trade ok) q = (SPush_Returned trade ok, q)"

datatype 'a spsc_pop_pc =
    SPop_Idle
  | Load_Head
  | Check_Empty u64
  | Load_Element u64
  | Store_Head u64 'a
  | SPop_Returned "'a option"

fun spsc_pop_step ::
  "nat \<Rightarrow> 'a spsc_pop_pc \<Rightarrow> 'a spsc_queue \<Rightarrow> 'a spsc_pop_pc \<times> 'a spsc_queue"
where
  "spsc_pop_step K Load_Head q = (Check_Empty (sq_head q), q)"
| "spsc_pop_step K (Check_Empty head) q =
     (if head = sq_tail q then SPop_Returned None else Load_Element head, q)"
| "spsc_pop_step K (Load_Element head) q = (Store_Head head (sq_buffer q ! unat head), q)"
| "spsc_pop_step K (Store_Head head trade) q =
     (SPop_Returned (Some trade), q\<lparr>sq_head := (head + 1) AND MASK K\<rparr>)"
| "spsc_pop_step K SPop_Idle q = (SPop_Idle, q)"
| "spsc_pop_step K (SPop_Returned r) q = (SPop_Returned r, q)"

text \<open>
  The two threads together, with the trades whose push has stored \<open>tail_\<close>, the trades whose pop
  has stored \<open>head_\<close>, and the trades \<open>try_pop\<close> returned.
\<close>

record 'a spsc_run =
  sr_producer :: "'a spsc_push_pc"
  sr_consumer :: "'a spsc_pop_pc"
  sr_queue :: "'a spsc_queue"
  sr_pushed :: "'a list"
  sr_popped :: "'a list"
  sr_received :: "'a list"

fun stores_tail :: "'a spsc_push_pc \<Rightarrow> 'a list" where
  "stores_tail (Store_Tail trade tail) = [trade]"
| "stores_tail pc = []"

fun stores_head :: "'a spsc_pop_pc \<Rightarrow> 'a list" where
  "stores_head (Store_Head head trade) = [trade]"
| "stores_head pc = []"

inductive spsc_step :: "nat \<Rightarrow> 'a spsc_run \<Rightarrow> 'a spsc_run \<Rightarrow> bool" for K where
  push_call: "sr_producer c = SPush_Idle \<Longrightarrow> spsc_step K c (c\<lparr>sr_producer := Load_Tail trade\<rparr>)"
| push_run: "spsc_push_step K (sr_producer c) (sr_queue c) = (pc, q) \<Longrightarrow>
    spsc_step K c (c\<lparr>sr_producer := pc, sr_queue := q, sr_pushed := sr_pushed c @ stores_tail (sr_producer c)\<rparr>)"
| push_return: "sr_producer c = SPush_Returned trade ok \<Longrightarrow> spsc_step K c (c\<lparr>sr_producer := SPush_Idle\<rparr>)"
| pop_call: "sr_consumer c = SPop_Idle \<Longrightarrow> spsc_step K c (c\<lparr>sr_consumer := Load_Head\<rparr>)"
| pop_run: "spsc_pop_step K (sr_consumer c) (sr_queue c) = (pc, q) \<Longrightarrow>
    spsc_step K c (c\<lparr>sr_consumer := pc, sr_queue := q, sr_popped := sr_popped c @ stores_head (sr_consumer c)\<rparr>)"
| pop_return: "sr_consumer c = SPop_Returned r \<Longrightarrow>
    spsc_step K c (c\<lparr>sr_consumer := SPop_Idle,
      sr_received := sr_received c @ (case r of None \<Rightarrow> [] | Some trade \<Rightarrow> [trade])\<rparr>)"

definition spsc_start :: "nat \<Rightarrow> 'a \<Rightarrow> 'a spsc_run" where
  "spsc_start K a =
     \<lparr>sr_producer = SPush_Idle, sr_consumer = SPop_Idle, sr_queue = spsc_new K a,
      sr_pushed = [], sr_popped = [], sr_received = []\<rparr>"

section \<open>The invariant\<close>

text \<open>
  A producer past its check still has room: the consumer can only have made more. A consumer past
  its check still has an element: the producer can only have added some.
\<close>

fun spsc_push_ok :: "nat \<Rightarrow> 'a spsc_queue \<Rightarrow> 'a spsc_push_pc \<Rightarrow> bool" where
  "spsc_push_ok K q (Check_Full trade tail) = (tail = sq_tail q)"
| "spsc_push_ok K q (Store_Element trade tail) = (tail = sq_tail q \<and> length (spsc_contents K q) < K - 1)"
| "spsc_push_ok K q (Store_Tail trade tail) =
     (tail = sq_tail q \<and> length (spsc_contents K q) < K - 1 \<and> sq_buffer q ! unat tail = trade)"
| "spsc_push_ok K q pc = True"

fun spsc_pop_ok :: "nat \<Rightarrow> 'a spsc_queue \<Rightarrow> 'a spsc_pop_pc \<Rightarrow> bool" where
  "spsc_pop_ok K q (Check_Empty head) = (head = sq_head q)"
| "spsc_pop_ok K q (Load_Element head) = (head = sq_head q \<and> spsc_contents K q \<noteq> [])"
| "spsc_pop_ok K q (Store_Head head trade) = (head = sq_head q \<and> (\<exists>xs. spsc_contents K q = trade # xs))"
| "spsc_pop_ok K q pc = True"

fun spsc_returning :: "'a spsc_pop_pc \<Rightarrow> 'a list" where
  "spsc_returning (SPop_Returned (Some trade)) = [trade]"
| "spsc_returning pc = []"

definition spsc_run_inv :: "nat \<Rightarrow> 'a spsc_run \<Rightarrow> bool" where
  "spsc_run_inv K c \<longleftrightarrow> spsc_inv K (sr_queue c) \<and>
     spsc_push_ok K (sr_queue c) (sr_producer c) \<and> spsc_pop_ok K (sr_queue c) (sr_consumer c) \<and>
     sr_pushed c = sr_popped c @ spsc_contents K (sr_queue c) \<and>
     sr_popped c = sr_received c @ spsc_returning (sr_consumer c)"

text \<open>The slot at \<open>tail_\<close> is outside the contents, so writing it changes nothing yet.\<close>

lemma spsc_contents_write:
  assumes "spsc_inv K q"
  shows "spsc_contents K (q\<lparr>sq_buffer := (sq_buffer q)[unat (sq_tail q) := x]\<rparr>) = spsc_contents K q"
proof -
  let ?h = "unat (sq_head q)" and ?t = "unat (sq_tail q)"
  have K: "?h < K" "?t < K" "length (sq_buffer q) = K" using assms by (auto simp: spsc_inv_def)
  let ?c = "ring_count K ?h ?t"
  have "ring_list ((sq_buffer q)[?t := x]) ?h (Suc ?c) = ring_list (sq_buffer q) ?h ?c @ [x]"
    using K by (intro ring_list_update) (simp_all add: ring_count_less ring_count_tail)
  moreover have "ring_list buf ?h (Suc ?c) = ring_list buf ?h ?c @ [buf ! ((?h + ?c) mod length buf)]" for buf :: "'a list"
    by (simp add: ring_list_def)
  ultimately show ?thesis by (simp add: spsc_contents_def)
qed

lemma spsc_store_tail:
  assumes inv: "spsc_inv K q" and room: "length (spsc_contents K q) < K - 1"
  shows "spsc_inv K (q\<lparr>sq_tail := (sq_tail q + 1) AND MASK K\<rparr>)"
    and "spsc_contents K (q\<lparr>sq_tail := (sq_tail q + 1) AND MASK K\<rparr>)
      = spsc_contents K q @ [sq_buffer q ! unat (sq_tail q)]"
proof -
  let ?x = "sq_buffer q ! unat (sq_tail q)"
  have "length (spsc_contents K q) \<noteq> K - 1" using room by simp
  then have "snd (spsc_try_push K ?x q) = q\<lparr>sq_tail := (sq_tail q + 1) AND MASK K\<rparr>"
    using spsc_next_tail_full [OF inv] by (simp add: spsc_try_push_def Let_def)
  then show "spsc_inv K (q\<lparr>sq_tail := (sq_tail q + 1) AND MASK K\<rparr>)"
    "spsc_contents K (q\<lparr>sq_tail := (sq_tail q + 1) AND MASK K\<rparr>) = spsc_contents K q @ [?x]"
    using spsc_push_inv [OF inv, of ?x] spsc_push_room [OF inv room, of ?x] by auto
qed

lemma spsc_store_head:
  assumes inv: "spsc_inv K q" and ne: "spsc_contents K q \<noteq> []"
  shows "spsc_inv K (q\<lparr>sq_head := (sq_head q + 1) AND MASK K\<rparr>)"
    and "spsc_contents K q = sq_buffer q ! unat (sq_head q) # spsc_contents K (q\<lparr>sq_head := (sq_head q + 1) AND MASK K\<rparr>)"
proof -
  have h: "sq_head q \<noteq> sq_tail q" using spsc_contents_nil [OF inv] ne by simp
  then show "spsc_inv K (q\<lparr>sq_head := (sq_head q + 1) AND MASK K\<rparr>)"
    using spsc_pop_inv [OF inv] by (simp add: spsc_try_pop_def Let_def)
  show "spsc_contents K q = sq_buffer q ! unat (sq_head q) # spsc_contents K (q\<lparr>sq_head := (sq_head q + 1) AND MASK K\<rparr>)"
    by (rule spsc_contents_Cons [OF inv h])
qed

lemma spsc_push_step_inv:
  assumes inv: "spsc_run_inv K c" and step: "spsc_push_step K (sr_producer c) (sr_queue c) = (pc, q)"
  shows "spsc_run_inv K (c\<lparr>sr_producer := pc, sr_queue := q, sr_pushed := sr_pushed c @ stores_tail (sr_producer c)\<rparr>)"
proof -
  have q: "spsc_inv K (sr_queue c)" using inv by (simp add: spsc_run_inv_def)
  show ?thesis
  proof (cases "sr_producer c")
    case (Check_Full x tail)
    then show ?thesis
      using inv step spsc_next_tail_full [OF q] spsc_contents_less [OF q] by (auto simp: spsc_run_inv_def)
  next
    case (Store_Element x tail)
    then have tail: "tail = sq_tail (sr_queue c)" using inv by (simp add: spsc_run_inv_def)
    let ?q = "(sr_queue c)\<lparr>sq_buffer := (sq_buffer (sr_queue c))[unat (sq_tail (sr_queue c)) := x]\<rparr>"
    have "spsc_inv K ?q" "unat (sq_tail (sr_queue c)) < length (sq_buffer (sr_queue c))"
      using q by (simp_all add: spsc_inv_def)
    moreover have "spsc_contents K ?q = spsc_contents K (sr_queue c)" by (rule spsc_contents_write [OF q])
    moreover from this have "spsc_pop_ok K ?q z = spsc_pop_ok K (sr_queue c) z" for z by (cases z) simp_all
    ultimately show ?thesis using inv step Store_Element tail by (auto simp: spsc_run_inv_def)
  next
    case (Store_Tail x tail)
    let ?q = "(sr_queue c)\<lparr>sq_tail := (sq_tail (sr_queue c) + 1) AND MASK K\<rparr>"
    have ok: "tail = sq_tail (sr_queue c)" "length (spsc_contents K (sr_queue c)) < K - 1"
        "sq_buffer (sr_queue c) ! unat tail = x"
      using inv Store_Tail by (auto simp: spsc_run_inv_def)
    note st = spsc_store_tail [OF q ok(2)]
    have "spsc_pop_ok K (sr_queue c) z \<Longrightarrow> spsc_pop_ok K ?q z" for z by (cases z) (auto simp: st(2))
    then show ?thesis using inv step Store_Tail ok st by (auto simp: spsc_run_inv_def)
  next
    case (SPush_Returned x ok)
    moreover from this have "pc = SPush_Returned x ok" "q = sr_queue c" using step by simp_all
    ultimately show ?thesis using inv by (simp add: spsc_run_inv_def)
  qed (use inv step in \<open>auto simp: spsc_run_inv_def\<close>)
qed

lemma spsc_pop_step_inv:
  assumes inv: "spsc_run_inv K c" and step: "spsc_pop_step K (sr_consumer c) (sr_queue c) = (pc, q)"
  shows "spsc_run_inv K (c\<lparr>sr_consumer := pc, sr_queue := q, sr_popped := sr_popped c @ stores_head (sr_consumer c)\<rparr>)"
proof -
  have q: "spsc_inv K (sr_queue c)" using inv by (simp add: spsc_run_inv_def)
  show ?thesis
  proof (cases "sr_consumer c")
    case (Check_Empty head)
    then show ?thesis using inv step spsc_contents_nil [OF q] by (auto simp: spsc_run_inv_def)
  next
    case (Load_Element head)
    then show ?thesis using inv step spsc_store_head(2) [OF q] by (auto simp: spsc_run_inv_def)
  next
    case (Store_Head head x)
    let ?q = "(sr_queue c)\<lparr>sq_head := (sq_head (sr_queue c) + 1) AND MASK K\<rparr>"
    obtain xs where ok: "head = sq_head (sr_queue c)" "spsc_contents K (sr_queue c) = x # xs"
      using inv Store_Head by (auto simp: spsc_run_inv_def)
    then have "spsc_contents K (sr_queue c) \<noteq> []" by simp
    note st = spsc_store_head [OF q this]
    have c: "spsc_contents K ?q = xs" using st(2) ok(2) by simp
    have "spsc_push_ok K (sr_queue c) z \<Longrightarrow> spsc_push_ok K ?q z" for z by (cases z) (auto simp: c ok(2))
    then show ?thesis using inv step Store_Head ok st(1) c by (auto simp: spsc_run_inv_def)
  next
    case (SPop_Returned r)
    moreover from this have "pc = SPop_Returned r" "q = sr_queue c" using step by simp_all
    ultimately show ?thesis using inv by (simp add: spsc_run_inv_def)
  qed (use inv step in \<open>auto simp: spsc_run_inv_def\<close>)
qed

lemma spsc_step_inv:
  assumes "spsc_step K c c'" and inv: "spsc_run_inv K c"
  shows "spsc_run_inv K c'"
  using assms(1)
proof cases
  case (pop_return r)
  then show ?thesis using inv by (cases r) (simp_all add: spsc_run_inv_def)
qed (use inv spsc_push_step_inv [OF inv] spsc_pop_step_inv [OF inv] in \<open>simp_all add: spsc_run_inv_def\<close>)

lemma spsc_start_inv: "valid_capacity K \<Longrightarrow> spsc_run_inv K (spsc_start K a)"
  by (simp add: spsc_run_inv_def spsc_start_def spsc_new_inv)

lemma stores_length: "length (stores_tail pc) \<le> Suc 0" "length (stores_head pc') \<le> Suc 0"
  by (cases pc; simp) (cases pc'; simp)

lemma spsc_step_moves:
  assumes "spsc_step K c c'"
  shows "\<exists>xs ys. sr_pushed c' = sr_pushed c @ xs \<and> sr_popped c' = sr_popped c @ ys \<and> length xs + length ys \<le> 1"
  using assms by cases (auto simp: stores_length)

interpretation spsc_run: concurrent_queue "spsc_step K" "spsc_start K a"
  "\<lambda>c. valid_capacity K" "\<lambda>c. valid_capacity K \<longrightarrow> spsc_run_inv K c" sr_pushed sr_popped "K - 1"
  for K a
proof (unfold_locales, goal_cases)
  case (4 c)
  then show ?case by (simp add: spsc_run_inv_def)
next
  case (5 c)
  then show ?case
    using spsc_contents_less [of K "sr_queue c"] by (simp add: spsc_run_inv_def)
qed (use spsc_step_moves in \<open>auto intro: spsc_start_inv dest: spsc_step_inv\<close>)

section \<open>What the two threads may rely on\<close>

text \<open>The trades between the two stores.\<close>

definition spsc_queued :: "'a spsc_run \<Rightarrow> 'a list" where
  "spsc_queued c = drop (length (sr_popped c)) (sr_pushed c)"

text \<open>The elements of the array the threads are about to access by a plain store and a plain load.\<close>

definition spsc_race :: "'a spsc_run \<Rightarrow> bool" where
  "spsc_race c =
     (case (sr_producer c, sr_consumer c) of
        (Store_Element trade tail, Load_Element head) \<Rightarrow> tail = head
      | _ \<Rightarrow> False)"

lemma spsc_run_inv_no_race: "spsc_run_inv K c \<Longrightarrow> \<not> spsc_race c"
  using spsc_contents_nil [of K "sr_queue c"]
  by (auto simp: spsc_race_def spsc_run_inv_def split: spsc_push_pc.splits spsc_pop_pc.splits)

text \<open>The producer running on for some accesses, for concrete runs.\<close>

definition producer_access :: "nat \<Rightarrow> 'a spsc_run \<Rightarrow> 'a spsc_run" where
  "producer_access K c =
     (let (pc, q) = spsc_push_step K (sr_producer c) (sr_queue c)
      in c\<lparr>sr_producer := pc, sr_queue := q, sr_pushed := sr_pushed c @ stores_tail (sr_producer c)\<rparr>)"

primrec producer_accesses :: "nat \<Rightarrow> nat \<Rightarrow> 'a spsc_run \<Rightarrow> 'a spsc_run" where
  "producer_accesses K 0 c = c"
| "producer_accesses K (Suc n) c = producer_access K (producer_accesses K n c)"

lemma producer_access_step: "spsc_step K c (producer_access K c)"
  unfolding producer_access_def split_beta by (simp add: push_run Let_def)

lemma producer_accesses_reach: "(spsc_step K)\<^sup>*\<^sup>* c (producer_accesses K n c)"
  by (induction n) (auto intro: rtranclp.rtrancl_into_rtrancl producer_access_step)

definition pushing_five :: "nat spsc_run" where
  "pushing_five = (spsc_start 4 0)\<lparr>sr_producer := Load_Tail 5\<rparr>"

text \<open>
  (C16) The single-producer ring refines a bounded first-in first-out queue under every
  interleaving of its producer and its consumer: each access appends one trade to a queue with
  room among \<open>Capacity - 1\<close> places, takes the oldest trade, or leaves the queue alone; what the
  consumer has received are the oldest pushed trades, in order and as written; and the two threads
  never access the same element of the array at the same time.
\<close>

theorem spsc_concurrent_refines_fifo:
  assumes "valid_capacity K" and "(spsc_step K)\<^sup>*\<^sup>* (spsc_start K a) c" and "spsc_step K c c'"
  shows "fifo_step (K - 1) (spsc_queued c) (spsc_queued c') \<and> length (spsc_queued c') \<le> K - 1 \<and>
    prefix (sr_received c') (sr_pushed c') \<and> \<not> spsc_race c'"
proof -
  have inv: "spsc_run_inv K c'"
    using spsc_run.reachable_inv [of K a c'] assms by (simp add: rtranclp.rtrancl_into_rtrancl)
  then have "prefix (sr_received c') (sr_pushed c')" by (auto simp: spsc_run_inv_def)
  then show ?thesis
    using spsc_run.reachable_fifo [OF assms(2,3,1)] spsc_run_inv_no_race [OF inv] by (simp add: spsc_queued_def)
qed

theorem spsc_concurrent_refines_fifo_witness:
  "fifo_step (4 - 1) (spsc_queued (producer_accesses 4 3 pushing_five)) (spsc_queued (producer_accesses 4 4 pushing_five)) \<and>
   length (spsc_queued (producer_accesses 4 4 pushing_five)) \<le> 4 - 1 \<and>
   prefix (sr_received (producer_accesses 4 4 pushing_five)) (sr_pushed (producer_accesses 4 4 pushing_five)) \<and>
   \<not> spsc_race (producer_accesses 4 4 pushing_five) \<and>
   spsc_queued (producer_accesses 4 3 pushing_five) = [] \<and> spsc_queued (producer_accesses 4 4 pushing_five) = [5]"
proof -
  have v: "valid_capacity 4" by code_simp
  have "spsc_step 4 (spsc_start 4 0) pushing_five"
    unfolding pushing_five_def by (rule spsc_step.push_call) (simp add: spsc_start_def)
  then have r: "(spsc_step 4)\<^sup>*\<^sup>* (spsc_start 4 0) (producer_accesses 4 3 pushing_five)"
    using producer_accesses_reach [of 4 pushing_five 3] by (rule converse_rtranclp_into_rtranclp)
  have "4 = Suc 3" by simp
  then have step: "spsc_step 4 (producer_accesses 4 3 pushing_five) (producer_accesses 4 4 pushing_five)"
    using producer_access_step [of 4 "producer_accesses 4 3 pushing_five"] by (metis producer_accesses.simps(2))
  have "spsc_queued (producer_accesses 4 3 pushing_five) = []" "spsc_queued (producer_accesses 4 4 pushing_five) = [5]"
    by code_simp+
  then show ?thesis using spsc_concurrent_refines_fifo [OF v r step] by simp
qed

text \<open>The definitions of the calls as a whole are the uninterrupted runs of the accesses.\<close>

lemma spsc_push_accesses:
  assumes "spsc_try_push K x q = (ok, q')"
  shows "\<exists>n \<le> 4. ((\<lambda>s. spsc_push_step K (fst s) (snd s)) ^^ n) (Load_Tail x, q) = (SPush_Returned x ok, q')"
  using assms
  by (intro exI [of _ "if ok then 4 else 2"])
    (auto simp: spsc_try_push_def Let_def eval_nat_numeral split: if_splits)

lemma spsc_pop_accesses:
  assumes "spsc_try_pop K q = (r, q')"
  shows "\<exists>n \<le> 4. ((\<lambda>s. spsc_pop_step K (fst s) (snd s)) ^^ n) (Load_Head, q) = (SPop_Returned r, q')"
  using assms
  by (intro exI [of _ "if r = None then 2 else 4"])
    (auto simp: spsc_try_pop_def Let_def eval_nat_numeral split: if_splits)

end
