(* ===== verification/Mpsc_Concurrent.thy ===== *)
theory Mpsc_Concurrent
  imports Trade_Queue Concurrent_Queue
begin

text \<open>
  \<open>MPSCTradeQueue\<close> under concurrency: any number of threads inside \<open>try_push\<close> and one thread
  inside \<open>try_pop\<close>, interleaved access by access. A program counter says which access of shared
  memory a call makes next; \<open>push_step\<close> and \<open>pop_step\<close> make it. The interleavings are
  sequentially consistent; that the plain accesses to \<open>slot.data\<close> never race, which this rests
  on, is part of what is proved.

  The invariant ties every slot's \<open>sequence\<close> to the ring position the slot stands for. From it
  follow the order of what the consumer receives, what a refused push and an empty pop mean, and
  that a thread left alone finishes its call.
\<close>

section \<open>The accesses of try_push and try_pop\<close>

text \<open>
  Where a producer is: outside the call, before the load of \<open>enqueue_pos_\<close>, before the load of
  the slot's \<open>sequence\<close>, before the \<open>compare_exchange_weak\<close>, before the store of the data,
  before the store of the \<open>sequence\<close>, or returning.
\<close>

datatype 'a push_pc =
    Push_Idle
  | Load_Pos 'a
  | Load_Seq 'a u64
  | Cas 'a u64
  | Write_Data 'a u64
  | Publish 'a u64
  | Push_Returned 'a bool

text \<open>
  One access. \<open>spurious\<close> makes the weak compare-and-exchange fail although the values agree; a
  failed one leaves the value it saw in \<open>pos\<close> and the loop starts again.
\<close>

fun push_step :: "nat \<Rightarrow> bool \<Rightarrow> 'a push_pc \<Rightarrow> 'a mpsc_queue \<Rightarrow> 'a push_pc \<times> 'a mpsc_queue" where
  "push_step K spurious (Load_Pos trade) q = (Load_Seq trade (mq_enqueue_pos q), q)"
| "push_step K spurious (Load_Seq trade pos) q =
     (let diff = seq_diff (sl_sequence (mq_buffer q ! unat (pos AND MASK K))) pos
      in (if diff = 0 then Cas trade pos
          else if diff < 0 then Push_Returned trade False
          else Load_Pos trade, q))"
| "push_step K spurious (Cas trade pos) q =
     (if mq_enqueue_pos q = pos \<and> \<not> spurious
      then (Write_Data trade pos, q\<lparr>mq_enqueue_pos := pos + 1\<rparr>)
      else (Load_Seq trade (mq_enqueue_pos q), q))"
| "push_step K spurious (Write_Data trade pos) q =
     (let i = unat (pos AND MASK K)
      in (Publish trade pos, q\<lparr>mq_buffer := (mq_buffer q)[i := (mq_buffer q ! i)\<lparr>sl_data := trade\<rparr>]\<rparr>))"
| "push_step K spurious (Publish trade pos) q =
     (let i = unat (pos AND MASK K)
      in (Push_Returned trade True,
          q\<lparr>mq_buffer := (mq_buffer q)[i := (mq_buffer q ! i)\<lparr>sl_sequence := pos + 1\<rparr>]\<rparr>))"
| "push_step K spurious Push_Idle q = (Push_Idle, q)"
| "push_step K spurious (Push_Returned trade ok) q = (Push_Returned trade ok, q)"

text \<open>The consumer; \<open>dequeue_pos_\<close> is its own and takes no access of shared memory.\<close>

datatype 'a pop_pc =
    Pop_Idle
  | Pop_Test
  | Pop_Copy
  | Pop_Release 'a
  | Pop_Advance 'a
  | Pop_Returned "'a option"

fun pop_step :: "nat \<Rightarrow> 'a pop_pc \<Rightarrow> 'a mpsc_queue \<Rightarrow> 'a pop_pc \<times> 'a mpsc_queue" where
  "pop_step K Pop_Test q =
     (let slot = mq_buffer q ! unat (mq_dequeue_pos q AND MASK K);
          diff = seq_diff (sl_sequence slot) (mq_dequeue_pos q + 1)
      in (if diff < 0 then Pop_Returned None else Pop_Copy, q))"
| "pop_step K Pop_Copy q = (Pop_Release (sl_data (mq_buffer q ! unat (mq_dequeue_pos q AND MASK K))), q)"
| "pop_step K (Pop_Release trade) q =
     (let i = unat (mq_dequeue_pos q AND MASK K)
      in (Pop_Advance trade,
          q\<lparr>mq_buffer := (mq_buffer q)[i := (mq_buffer q ! i)\<lparr>sl_sequence := mq_dequeue_pos q + of_nat K\<rparr>]\<rparr>))"
| "pop_step K (Pop_Advance trade) q =
     (Pop_Returned (Some trade), q\<lparr>mq_dequeue_pos := mq_dequeue_pos q + 1\<rparr>)"
| "pop_step K Pop_Idle q = (Pop_Idle, q)"
| "pop_step K (Pop_Returned r) q = (Pop_Returned r, q)"

text \<open>
  All threads together. Beside the queue and the program counters the state keeps what happened:
  the trades in the order the compare-and-exchange claimed a position for them, with the claiming
  thread; the trades whose slot the consumer has released; the pushes that returned \<open>true\<close>; and
  the trades \<open>try_pop\<close> returned.
\<close>

record 'a mpsc_run =
  mr_producers :: "'a push_pc list"
  mr_consumer :: "'a pop_pc"
  mr_queue :: "'a mpsc_queue"
  mr_claimed :: "(nat \<times> 'a) list"
  mr_popped :: "'a list"
  mr_accepted :: "(nat \<times> 'a) list"
  mr_received :: "'a list"

fun claims :: "'a push_pc \<Rightarrow> 'a push_pc \<Rightarrow> 'a list" where
  "claims (Cas trade pos) (Write_Data trade' pos') = [trade]"
| "claims pc pc' = []"

fun releases :: "'a pop_pc \<Rightarrow> 'a list" where
  "releases (Pop_Release trade) = [trade]"
| "releases pc = []"

inductive mpsc_step :: "nat \<Rightarrow> 'a mpsc_run \<Rightarrow> 'a mpsc_run \<Rightarrow> bool" for K where
  push_call: "t < length (mr_producers c) \<Longrightarrow> mr_producers c ! t = Push_Idle \<Longrightarrow>
    mpsc_step K c (c\<lparr>mr_producers := (mr_producers c)[t := Load_Pos trade]\<rparr>)"
| push_run: "t < length (mr_producers c) \<Longrightarrow> push_step K spurious (mr_producers c ! t) (mr_queue c) = (pc, q) \<Longrightarrow>
    mpsc_step K c (c\<lparr>mr_producers := (mr_producers c)[t := pc], mr_queue := q,
      mr_claimed := mr_claimed c @ map (Pair t) (claims (mr_producers c ! t) pc)\<rparr>)"
| push_return: "t < length (mr_producers c) \<Longrightarrow> mr_producers c ! t = Push_Returned trade ok \<Longrightarrow>
    mpsc_step K c (c\<lparr>mr_producers := (mr_producers c)[t := Push_Idle],
      mr_accepted := mr_accepted c @ (if ok then [(t, trade)] else [])\<rparr>)"
| pop_call: "mr_consumer c = Pop_Idle \<Longrightarrow> mpsc_step K c (c\<lparr>mr_consumer := Pop_Test\<rparr>)"
| pop_run: "pop_step K (mr_consumer c) (mr_queue c) = (pc, q) \<Longrightarrow>
    mpsc_step K c (c\<lparr>mr_consumer := pc, mr_queue := q, mr_popped := mr_popped c @ releases (mr_consumer c)\<rparr>)"
| pop_return: "mr_consumer c = Pop_Returned r \<Longrightarrow>
    mpsc_step K c (c\<lparr>mr_consumer := Pop_Idle, mr_received := mr_received c @ (case r of None \<Rightarrow> [] | Some trade \<Rightarrow> [trade])\<rparr>)"

definition mpsc_start :: "nat \<Rightarrow> nat \<Rightarrow> 'a \<Rightarrow> 'a mpsc_run" where
  "mpsc_start K n a =
     \<lparr>mr_producers = replicate n Push_Idle, mr_consumer = Pop_Idle, mr_queue = mpsc_new K a,
      mr_claimed = [], mr_popped = [], mr_accepted = [], mr_received = []\<rparr>"

section \<open>The invariant\<close>

text \<open>
  Positions are read as natural numbers: as long as fewer than about \<open>2 ^ 63\<close> trades have been
  claimed since the queue was made, no counter wraps and the signed differences are exact.
\<close>

definition counters_small :: "nat \<Rightarrow> 'a mpsc_run \<Rightarrow> bool" where
  "counters_small K c \<longleftrightarrow> length (mr_claimed c) + K + 1 < 2 ^ 63"

text \<open>The position a producer has claimed and not yet published.\<close>

fun held_pos :: "'a push_pc \<Rightarrow> nat option" where
  "held_pos (Write_Data trade pos) = Some (unat pos)"
| "held_pos (Publish trade pos) = Some (unat pos)"
| "held_pos pc = None"

definition pending :: "'a push_pc list \<Rightarrow> nat \<Rightarrow> bool" where
  "pending pcs p \<longleftrightarrow> (\<exists>t < length pcs. held_pos (pcs ! t) = Some p)"

abbreviation slot_of :: "nat \<Rightarrow> 'a mpsc_run \<Rightarrow> nat \<Rightarrow> 'a slot" where
  "slot_of K c p \<equiv> mq_buffer (mr_queue c) ! (p mod K)"

definition published :: "'a mpsc_run \<Rightarrow> nat \<Rightarrow> bool" where
  "published c p \<longleftrightarrow> p < length (mr_claimed c) \<and> \<not> pending (mr_producers c) p"

text \<open>
  The slot that stands for position \<open>p\<close> of the current window: \<open>p\<close> while it is free or claimed,
  \<open>p + 1\<close> and the claimed trade once it is published.
\<close>

definition slot_ok :: "nat \<Rightarrow> 'a mpsc_run \<Rightarrow> nat \<Rightarrow> bool" where
  "slot_ok K c p \<longleftrightarrow>
     unat (sl_sequence (slot_of K c p)) = (if published c p then Suc p else p) \<and>
     (published c p \<longrightarrow> sl_data (slot_of K c p) = snd (mr_claimed c ! p))"

fun push_ok :: "nat \<Rightarrow> 'a mpsc_run \<Rightarrow> 'a push_pc \<Rightarrow> bool" where
  "push_ok K c (Load_Seq trade pos) = (unat pos \<le> length (mr_claimed c))"
| "push_ok K c (Cas trade pos) =
     (unat pos \<le> length (mr_claimed c) \<and> unat pos < length (mr_popped c) + K)"
| "push_ok K c (Write_Data trade pos) =
     (length (mr_popped c) \<le> unat pos \<and> unat pos < length (mr_claimed c) \<and> snd (mr_claimed c ! unat pos) = trade)"
| "push_ok K c (Publish trade pos) =
     (length (mr_popped c) \<le> unat pos \<and> unat pos < length (mr_claimed c) \<and> snd (mr_claimed c ! unat pos) = trade
      \<and> sl_data (slot_of K c (unat pos)) = trade)"
| "push_ok K c pc = True"

fun pop_ok :: "'a mpsc_run \<Rightarrow> 'a pop_pc \<Rightarrow> bool" where
  "pop_ok c Pop_Copy = published c (length (mr_popped c))"
| "pop_ok c (Pop_Release trade) =
     (published c (length (mr_popped c)) \<and> snd (mr_claimed c ! length (mr_popped c)) = trade)"
| "pop_ok c pc = True"

definition advancing :: "'a pop_pc \<Rightarrow> nat" where
  "advancing pc = (case pc of Pop_Advance trade \<Rightarrow> 1 | _ \<Rightarrow> 0)"

definition counts_inv :: "nat \<Rightarrow> 'a mpsc_run \<Rightarrow> bool" where
  "counts_inv K c \<longleftrightarrow> mpsc_capacity_ok K \<and> length (mq_buffer (mr_queue c)) = K \<and>
     unat (mq_enqueue_pos (mr_queue c)) = length (mr_claimed c) \<and>
     unat (mq_dequeue_pos (mr_queue c)) + advancing (mr_consumer c) = length (mr_popped c) \<and>
     length (mr_popped c) \<le> length (mr_claimed c) \<and>
     length (mr_claimed c) \<le> length (mr_popped c) + K \<and>
     prefix (mr_popped c) (map snd (mr_claimed c))"

definition slots_inv :: "nat \<Rightarrow> 'a mpsc_run \<Rightarrow> bool" where
  "slots_inv K c \<longleftrightarrow> (\<forall>p. length (mr_popped c) \<le> p \<longrightarrow> p < length (mr_popped c) + K \<longrightarrow> slot_ok K c p)"

definition owners_inv :: "'a push_pc list \<Rightarrow> bool" where
  "owners_inv pcs \<longleftrightarrow> (\<forall>t u p. t < length pcs \<longrightarrow> u < length pcs \<longrightarrow>
     held_pos (pcs ! t) = Some p \<longrightarrow> held_pos (pcs ! u) = Some p \<longrightarrow> t = u)"

definition mpsc_run_inv :: "nat \<Rightarrow> 'a mpsc_run \<Rightarrow> bool" where
  "mpsc_run_inv K c \<longleftrightarrow> counts_inv K c \<and> slots_inv K c \<and> owners_inv (mr_producers c) \<and>
     (\<forall>t < length (mr_producers c). push_ok K c (mr_producers c ! t)) \<and> pop_ok c (mr_consumer c)"

section \<open>Shared facts\<close>

lemma seq_diff_unat:
  assumes "unat a < 2 ^ 63" and "unat b < 2 ^ 63"
  shows "seq_diff a b = int (unat a) - int (unat b)"
  using seq_diff_of_nat [OF assms, of 0] by simp

lemma unat_succ: "unat x + 1 < 2 ^ 64 \<Longrightarrow> unat (x + 1) = unat x + 1" for x :: u64
  by (simp add: unat_word_ariths)

lemma unat_eqD: "unat x = n \<Longrightarrow> x = of_nat n" for x :: u64
  by (drule sym) simp

lemma window_inj:
  fixes p r m K :: nat
  assumes "m \<le> p" "p < m + K" "m \<le> r" "r < m + K" and "p mod K = r mod K"
  shows "p = r"
proof -
  obtain i j where "p = i + m" "r = j + m" using assms(1,3) by (metis le_add_diff_inverse2)
  with assms show ?thesis using mod_add_cancel [of i m K j] by simp
qed

text \<open>Every position has one position of the window in its slot.\<close>

lemma window_position:
  fixes m p K :: nat
  assumes "0 < K"
  obtains r where "m \<le> r" "r < m + K" "r mod K = p mod K"
proof
  let ?r = "m + (p + (K - m mod K)) mod K"
  show "m \<le> ?r" "?r < m + K" using assms by simp_all
  have "m + (p + (K - m mod K)) = p + K * Suc (m div K)"
    using assms mod_less_divisor [of K m] by (simp add: minus_mult_div_eq_mod [symmetric] algebra_simps)
  then have "(m + (p + (K - m mod K))) mod K = p mod K" by (simp only: mod_mult_self2)
  then show "?r mod K = p mod K" by (simp add: mod_add_right_eq)
qed

lemma pending_update:
  "t < length pcs \<Longrightarrow> pending (pcs[t := pc]) p \<longleftrightarrow>
     held_pos pc = Some p \<or> (\<exists>u < length pcs. u \<noteq> t \<and> held_pos (pcs ! u) = Some p)"
  unfolding pending_def length_list_update
  by (metis nth_list_update_eq nth_list_update_neq)

lemma pending_same:
  "t < length pcs \<Longrightarrow> held_pos pc = held_pos (pcs ! t) \<Longrightarrow> pending (pcs[t := pc]) p = pending pcs p"
  unfolding pending_update by (metis pending_def)

lemma pending_dropped:
  assumes "owners_inv pcs" "t < length pcs" "held_pos (pcs ! t) = Some p" "held_pos pc = None"
  shows "pending (pcs[t := pc]) r \<longleftrightarrow> pending pcs r \<and> r \<noteq> p"
proof
  have only: "u = t" if "u < length pcs" "held_pos (pcs ! u) = Some p" for u
    using assms(1-3) that unfolding owners_inv_def by blast
  assume "pending (pcs[t := pc]) r"
  then obtain u where "u < length pcs" "u \<noteq> t" "held_pos (pcs ! u) = Some r"
    using assms(4) by (auto simp: pending_update [OF assms(2)])
  then show "pending pcs r \<and> r \<noteq> p" using only by (auto simp: pending_def)
next
  assume "pending pcs r \<and> r \<noteq> p"
  then obtain u where "u < length pcs" "held_pos (pcs ! u) = Some r" "r \<noteq> p" by (auto simp: pending_def)
  then show "pending (pcs[t := pc]) r" using assms(3) by (auto simp: pending_update [OF assms(2)])
qed

lemma owners_update:
  assumes "owners_inv pcs" and "t < length pcs"
    and "\<And>p. held_pos pc = Some p \<Longrightarrow> held_pos (pcs ! t) = Some p \<or> \<not> pending pcs p"
  shows "owners_inv (pcs[t := pc])"
  using assms unfolding owners_inv_def pending_def by (auto simp: nth_list_update)

lemma push_ok_producers [simp]: "push_ok K (c\<lparr>mr_producers := pcs\<rparr>) pc = push_ok K c pc"
  by (cases pc) simp_all

lemma push_ok_ghosts [simp]:
  "push_ok K (c\<lparr>mr_consumer := pcc\<rparr>) pc = push_ok K c pc"
  "push_ok K (c\<lparr>mr_accepted := acc\<rparr>) pc = push_ok K c pc"
  "push_ok K (c\<lparr>mr_received := rec\<rparr>) pc = push_ok K c pc"
  by (cases pc, simp_all)+

lemma mpsc_run_invD:
  assumes "mpsc_run_inv K c"
  shows "valid_capacity K" "2 \<le> K" "length (mq_buffer (mr_queue c)) = K"
    "unat (mq_enqueue_pos (mr_queue c)) = length (mr_claimed c)"
    "length (mr_popped c) \<le> length (mr_claimed c)"
    "length (mr_claimed c) \<le> length (mr_popped c) + K"
    "\<And>p. length (mr_popped c) \<le> p \<Longrightarrow> p < length (mr_popped c) + K \<Longrightarrow> slot_ok K c p"
    "\<And>t. t < length (mr_producers c) \<Longrightarrow> push_ok K c (mr_producers c ! t)"
  using assms by (auto simp: mpsc_run_inv_def counts_inv_def slots_inv_def mpsc_capacity_ok_def)

lemma push_index:
  "mpsc_run_inv K c \<Longrightarrow> unat (pos AND MASK K) = unat pos mod K"
  by (rule unat_masked) (rule mpsc_run_invD)

section \<open>Producers\<close>

text \<open>A step of a producer that changes neither the queue nor what it holds.\<close>

lemma inv_push_quiet:
  assumes inv: "mpsc_run_inv K c" and t: "t < length (mr_producers c)"
    and held: "held_pos pc = held_pos (mr_producers c ! t)" and ok: "push_ok K c pc"
  shows "mpsc_run_inv K (c\<lparr>mr_producers := (mr_producers c)[t := pc]\<rparr>)"
proof -
  let ?c = "c\<lparr>mr_producers := (mr_producers c)[t := pc]\<rparr>"
  have pub: "published ?c p = published c p" for p
    by (simp add: published_def pending_same [OF t held])
  have "counts_inv K ?c" using inv by (simp add: mpsc_run_inv_def counts_inv_def)
  moreover have "slots_inv K ?c"
    using inv by (simp add: mpsc_run_inv_def slots_inv_def slot_ok_def pub)
  moreover have "owners_inv (mr_producers ?c)"
    using inv owners_update [OF _ t, of pc] held by (simp add: mpsc_run_inv_def)
  moreover have "pop_ok ?c (mr_consumer c)"
    using inv by (cases "mr_consumer c") (simp_all add: mpsc_run_inv_def pub)
  moreover have "push_ok K ?c ((mr_producers c)[t := pc] ! u)" if "u < length (mr_producers c)" for u
    using that inv ok by (cases "u = t") (simp_all add: t mpsc_run_inv_def)
  ultimately show ?thesis by (simp add: mpsc_run_inv_def)
qed

text \<open>What a position of the window and the sequence read from its slot tell a producer.\<close>

lemma push_diff:
  assumes inv: "mpsc_run_inv K c" and small: "counters_small K c" and pos: "unat pos \<le> length (mr_claimed c)"
  obtains r where "length (mr_popped c) \<le> r" "r < length (mr_popped c) + K" "r mod K = unat pos mod K"
    "seq_diff (sl_sequence (mq_buffer (mr_queue c) ! unat (pos AND MASK K))) pos
       = int (if published c r then Suc r else r) - int (unat pos)"
proof -
  note i = mpsc_run_invD [OF inv]
  obtain r where r: "length (mr_popped c) \<le> r" "r < length (mr_popped c) + K" "r mod K = unat pos mod K"
    using window_position [of K "length (mr_popped c)" "unat pos"] i(2) by force
  have s: "unat (sl_sequence (mq_buffer (mr_queue c) ! unat (pos AND MASK K))) = (if published c r then Suc r else r)"
    using i(7) [OF r(1,2)] by (simp add: slot_ok_def push_index [OF inv] r(3))
  have "r < length (mr_claimed c) + K" using r i(5) by linarith
  then have "Suc r < 2 ^ 63" using small by (simp add: counters_small_def)
  then have "seq_diff (sl_sequence (mq_buffer (mr_queue c) ! unat (pos AND MASK K))) pos
       = int (if published c r then Suc r else r) - int (unat pos)"
    using pos small by (subst seq_diff_unat) (auto simp: s counters_small_def)
  with r show ?thesis by (rule that)
qed

lemma push_test_free:
  assumes inv: "mpsc_run_inv K c" and small: "counters_small K c" and pos: "unat pos \<le> length (mr_claimed c)"
    and diff: "seq_diff (sl_sequence (mq_buffer (mr_queue c) ! unat (pos AND MASK K))) pos = 0"
  shows "unat pos < length (mr_popped c) + K"
proof -
  obtain r where r: "length (mr_popped c) \<le> r" "r < length (mr_popped c) + K" "r mod K = unat pos mod K"
    and d: "seq_diff (sl_sequence (mq_buffer (mr_queue c) ! unat (pos AND MASK K))) pos
       = int (if published c r then Suc r else r) - int (unat pos)"
    by (rule push_diff [OF inv small pos])
  from d diff have "(if published c r then Suc r else r) = unat pos" by linarith
  moreover
  have "Suc r mod K \<noteq> r mod K" using mpsc_run_invD(2) [OF inv] by (simp add: mod_Suc)
  ultimately have "unat pos = r" using r(3) by (metis (full_types))
  with r show ?thesis by simp
qed

text \<open>The slot is behind the position only when every slot is taken.\<close>

lemma push_test_full:
  assumes inv: "mpsc_run_inv K c" and small: "counters_small K c" and pos: "unat pos \<le> length (mr_claimed c)"
    and diff: "seq_diff (sl_sequence (mq_buffer (mr_queue c) ! unat (pos AND MASK K))) pos < 0"
  shows "length (mr_claimed c) = length (mr_popped c) + K"
proof -
  note i = mpsc_run_invD [OF inv]
  obtain r where r: "length (mr_popped c) \<le> r" "r < length (mr_popped c) + K" "r mod K = unat pos mod K"
    and d: "seq_diff (sl_sequence (mq_buffer (mr_queue c) ! unat (pos AND MASK K))) pos
       = int (if published c r then Suc r else r) - int (unat pos)"
    by (rule push_diff [OF inv small pos])
  from d diff have "(if published c r then Suc r else r) < unat pos" by linarith
  then have lt: "r < unat pos" by (simp split: if_splits)
  with r(3) have "K dvd unat pos - r" by (metis mod_eq_dvd_iff_nat less_imp_le)
  then have "K \<le> unat pos - r" using lt by (intro dvd_imp_le) simp_all
  then show ?thesis using r lt pos i(6) by linarith
qed

text \<open>The compare-and-exchange succeeds: the next position is the thread's.\<close>

lemma not_pending_claimed:
  assumes inv: "mpsc_run_inv K c" and "length (mr_claimed c) \<le> p"
  shows "\<not> pending (mr_producers c) p"
proof
  assume "pending (mr_producers c) p"
  then obtain t where t: "t < length (mr_producers c)" "held_pos (mr_producers c ! t) = Some p"
    by (auto simp: pending_def)
  with mpsc_run_invD(8) [OF inv t(1)] assms(2) show False by (cases "mr_producers c ! t") auto
qed

lemma inv_push_claim:
  assumes inv: "mpsc_run_inv K c" and t: "t < length (mr_producers c)"
    and pc: "mr_producers c ! t = Cas x pos" and eq: "mq_enqueue_pos (mr_queue c) = pos"
    and small: "counters_small K c"
  shows "mpsc_run_inv K (c\<lparr>mr_producers := (mr_producers c)[t := Write_Data x pos],
      mr_queue := (mr_queue c)\<lparr>mq_enqueue_pos := pos + 1\<rparr>, mr_claimed := mr_claimed c @ [(t, x)]\<rparr>)"
    (is "mpsc_run_inv K ?c")
proof -
  note i = mpsc_run_invD [OF inv]
  let ?n = "length (mr_claimed c)" and ?pcs = "(mr_producers c)[t := Write_Data x pos]"
  have pos: "unat pos = ?n" using i(4) eq by simp
  have room: "?n < length (mr_popped c) + K" using i(8) [OF t] pos by (simp add: pc)
  have none: "held_pos (mr_producers c ! t) = None" by (simp add: pc)
  have pend: "pending ?pcs p \<longleftrightarrow> p = ?n \<or> pending (mr_producers c) p" for p
    unfolding pending_update [OF t] using pos
    by (auto simp: pending_def) (metis none option.distinct(1))
  have pub: "published ?c p = published c p" for p
    using not_pending_claimed [OF inv] by (auto simp: published_def pend)
  have ok: "push_ok K ?c z" if "push_ok K c z" for z
    using that by (cases z) (auto simp: nth_append)
  have nth: "(mr_claimed c @ [(t, x)]) ! p = mr_claimed c ! p" if "published c p" for p
    using that by (simp add: published_def nth_append)
  have "unat (pos + 1) = Suc ?n" using small pos unat_succ [of pos] by (simp add: counters_small_def)
  then have "counts_inv K ?c"
    using inv room by (simp add: mpsc_run_inv_def counts_inv_def)
  moreover have "slots_inv K ?c"
    using i(7) nth by (simp add: slots_inv_def slot_ok_def pub)
  moreover have "owners_inv ?pcs"
    using inv not_pending_claimed [OF inv] pos
    by (intro owners_update [OF _ t]) (auto simp: mpsc_run_inv_def)
  moreover have "push_ok K ?c (?pcs ! u)" if "u < length (mr_producers c)" for u
    using ok [OF i(8) [OF that]] t pos i(5) by (cases "u = t") auto
  moreover have "pop_ok ?c (mr_consumer c)"
    using inv nth by (cases "mr_consumer c") (simp_all add: mpsc_run_inv_def pub)
  ultimately show ?thesis by (simp add: mpsc_run_inv_def)
qed

text \<open>A producer changes the slot of the position it holds and of no other position of the window.\<close>

lemma held_window:
  assumes inv: "mpsc_run_inv K c" and "t < length (mr_producers c)" and "held_pos (mr_producers c ! t) = Some p"
  shows "length (mr_popped c) \<le> p" "p < length (mr_claimed c)" "p < length (mr_popped c) + K"
  using mpsc_run_invD(6,8) [OF inv] assms(2,3) by (cases "mr_producers c ! t"; force)+

lemma slot_update:
  assumes inv: "mpsc_run_inv K c" and held: "t < length (mr_producers c)" "held_pos (mr_producers c ! t) = Some p"
    and r: "length (mr_popped c) \<le> r" "r < length (mr_popped c) + K"
  shows "(mq_buffer (mr_queue c))[p mod K := s] ! (r mod K) = (if r = p then s else slot_of K c r)"
proof -
  note i = mpsc_run_invD [OF inv]
  have "p mod K < K" using i(2) by simp
  moreover have "r mod K \<noteq> p mod K" if "r \<noteq> p"
    using that window_inj [OF r held_window(1,3) [OF inv held]] by blast
  ultimately show ?thesis using i(3) by (auto simp: nth_list_update)
qed

lemma inv_push_write:
  assumes inv: "mpsc_run_inv K c" and t: "t < length (mr_producers c)"
    and pc: "mr_producers c ! t = Write_Data x pos"
  shows "mpsc_run_inv K (c\<lparr>mr_producers := (mr_producers c)[t := Publish x pos],
      mr_queue := (mr_queue c)\<lparr>mq_buffer := (mq_buffer (mr_queue c))[unat pos mod K :=
        (slot_of K c (unat pos))\<lparr>sl_data := x\<rparr>]\<rparr>\<rparr>)"
    (is "mpsc_run_inv K ?c")
proof -
  note i = mpsc_run_invD [OF inv]
  let ?pcs = "(mr_producers c)[t := Publish x pos]"
  have held: "held_pos (mr_producers c ! t) = Some (unat pos)" by (simp add: pc)
  note w = held_window [OF inv t held]
  have pub: "published ?c p = published c p" for p
    by (simp add: published_def pending_same [OF t] held)
  have np: "\<not> published c (unat pos)" using t held by (auto simp: published_def pending_def)
  note slot = slot_update [OF inv t held]
  have seq: "sl_sequence (slot_of K ?c p) = sl_sequence (slot_of K c p)"
    if "length (mr_popped c) \<le> p" "p < length (mr_popped c) + K" for p
    using slot [OF that] by simp
  have data: "sl_data (slot_of K ?c p) = sl_data (slot_of K c p)"
    if "length (mr_popped c) \<le> p" "p < length (mr_popped c) + K" "p \<noteq> unat pos" for p
    using slot [OF that(1,2)] that(3) by simp
  have own: "owners_inv (mr_producers c)" using inv by (simp add: mpsc_run_inv_def)
  have "counts_inv K ?c" using inv by (simp add: mpsc_run_inv_def counts_inv_def)
  moreover have "slots_inv K ?c"
    unfolding slots_inv_def slot_ok_def pub
  proof (intro allI impI, goal_cases)
    case (1 p)
    then have p: "length (mr_popped c) \<le> p" "p < length (mr_popped c) + K" by simp_all
    show ?case using i(7) [OF p] seq [OF p] data [OF p] np by (cases "p = unat pos") (simp_all add: slot_ok_def)
  qed
  moreover have "owners_inv ?pcs" using own held by (intro owners_update [OF _ t]) auto
  moreover have "push_ok K ?c (?pcs ! u)" if u: "u < length (mr_producers c)" for u
  proof (cases "u = t")
    case True
    then show ?thesis using i(8) [OF t] t slot [OF w(1,3)] by (simp add: pc)
  next
    case False
    then have ne: "held_pos (mr_producers c ! u) \<noteq> Some (unat pos)"
      using own t u held unfolding owners_inv_def by blast
    show ?thesis
    proof (cases "mr_producers c ! u")
      case (Publish y r)
      then have "sl_data (slot_of K ?c (unat r)) = sl_data (slot_of K c (unat r))"
        using ne i(6) i(8) [OF u] by (intro data) auto
      then show ?thesis using i(8) [OF u] False Publish by simp
    qed (use i(8) [OF u] False in simp_all)
  qed
  moreover have "pop_ok ?c (mr_consumer c)"
    using inv by (cases "mr_consumer c") (simp_all add: mpsc_run_inv_def pub)
  ultimately show ?thesis by (simp add: mpsc_run_inv_def)
qed

lemma inv_push_publish:
  assumes inv: "mpsc_run_inv K c" and t: "t < length (mr_producers c)"
    and pc: "mr_producers c ! t = Publish x pos" and small: "counters_small K c"
  shows "mpsc_run_inv K (c\<lparr>mr_producers := (mr_producers c)[t := Push_Returned x True],
      mr_queue := (mr_queue c)\<lparr>mq_buffer := (mq_buffer (mr_queue c))[unat pos mod K :=
        (slot_of K c (unat pos))\<lparr>sl_sequence := pos + 1\<rparr>]\<rparr>\<rparr>)"
    (is "mpsc_run_inv K ?c")
proof -
  note i = mpsc_run_invD [OF inv]
  let ?pcs = "(mr_producers c)[t := Push_Returned x True]"
  have held: "held_pos (mr_producers c ! t) = Some (unat pos)" by (simp add: pc)
  note w = held_window [OF inv t held]
  have own: "owners_inv (mr_producers c)" using inv by (simp add: mpsc_run_inv_def)
  have pend: "pending ?pcs p \<longleftrightarrow> pending (mr_producers c) p \<and> p \<noteq> unat pos" for p
    by (rule pending_dropped [OF own t held]) simp
  have pub: "published ?c p \<longleftrightarrow> published c p \<or> p = unat pos" for p
    using w(2) by (auto simp: published_def pend)
  have succ: "unat (pos + 1) = Suc (unat pos)"
    using small w(2) unat_succ [of pos] by (simp add: counters_small_def)
  note slot = slot_update [OF inv t held]
  have data: "sl_data (slot_of K ?c p) = sl_data (slot_of K c p)"
    if "length (mr_popped c) \<le> p" "p < length (mr_popped c) + K" for p
    using slot [OF that] by simp
  have "counts_inv K ?c" using inv by (simp add: mpsc_run_inv_def counts_inv_def)
  moreover have "slots_inv K ?c"
    unfolding slots_inv_def slot_ok_def pub
  proof (intro allI impI, goal_cases)
    case (1 p)
    then have p: "length (mr_popped c) \<le> p" "p < length (mr_popped c) + K" by simp_all
    show ?case using i(7) [OF p] i(8) [OF t] slot [OF p] succ by (cases "p = unat pos") (simp_all add: slot_ok_def pc)
  qed
  moreover have "owners_inv ?pcs" using own by (intro owners_update [OF _ t]) auto
  moreover have "push_ok K ?c (?pcs ! u)" if u: "u < length (mr_producers c)" for u
  proof (cases "u = t")
    case False
    show ?thesis
    proof (cases "mr_producers c ! u")
      case (Publish y r)
      then have "sl_data (slot_of K ?c (unat r)) = sl_data (slot_of K c (unat r))"
        using i(6) i(8) [OF u] by (intro data) auto
      then show ?thesis using i(8) [OF u] False Publish by simp
    qed (use i(8) [OF u] False in simp_all)
  qed (simp add: t)
  moreover have "pop_ok ?c (mr_consumer c)"
    using inv by (cases "mr_consumer c") (simp_all add: mpsc_run_inv_def pub)
  ultimately show ?thesis by (simp add: mpsc_run_inv_def)
qed

lemma inv_push_step:
  assumes inv: "mpsc_run_inv K c" and t: "t < length (mr_producers c)" and small: "counters_small K c"
    and step: "push_step K spurious (mr_producers c ! t) (mr_queue c) = (pc, q)"
  shows "mpsc_run_inv K (c\<lparr>mr_producers := (mr_producers c)[t := pc], mr_queue := q,
      mr_claimed := mr_claimed c @ map (Pair t) (claims (mr_producers c ! t) pc)\<rparr>)"
proof -
  note i = mpsc_run_invD [OF inv]
  have quiet: ?thesis if "held_pos pc = held_pos (mr_producers c ! t)" "push_ok K c pc" "q = mr_queue c"
    "claims (mr_producers c ! t) pc = []"
    using inv_push_quiet [OF inv t that(1,2)] that(3,4) by simp
  show ?thesis
  proof (cases "mr_producers c ! t")
    case (Load_Seq x pos)
    then show ?thesis
      using step push_test_free [OF inv small, of pos] i(8) [OF t]
      by (intro quiet) (auto simp: Let_def)
  next
    case (Cas x pos)
    show ?thesis
    proof (cases "mq_enqueue_pos (mr_queue c) = pos \<and> \<not> spurious")
      case True
      then show ?thesis using step Cas inv_push_claim [OF inv t Cas _ small] by auto
    next
      case False
      then show ?thesis using step Cas i(4) by (intro quiet) auto
    qed
  next
    case (Write_Data x pos)
    then show ?thesis
      using step inv_push_write [OF inv t Write_Data] by (auto simp: Let_def push_index [OF inv])
  next
    case (Publish x pos)
    then show ?thesis
      using step inv_push_publish [OF inv t Publish small] by (auto simp: Let_def push_index [OF inv])
  next
    case Push_Idle
    moreover from this have "pc = Push_Idle" "q = mr_queue c" using step by simp_all
    ultimately show ?thesis by (intro quiet) simp_all
  next
    case (Load_Pos x)
    moreover from this have "pc = Load_Seq x (mq_enqueue_pos (mr_queue c))" "q = mr_queue c" using step by auto
    ultimately show ?thesis using i(4) by (intro quiet) simp_all
  next
    case (Push_Returned x ok)
    moreover from this have "pc = Push_Returned x ok" "q = mr_queue c" using step by simp_all
    ultimately show ?thesis by (intro quiet) simp_all
  qed
qed

section \<open>The consumer\<close>

lemma inv_pop_quiet:
  assumes "mpsc_run_inv K c" and "advancing pc = advancing (mr_consumer c)" and "pop_ok c pc"
  shows "mpsc_run_inv K (c\<lparr>mr_consumer := pc\<rparr>)"
proof -
  have "pop_ok (c\<lparr>mr_consumer := pc\<rparr>) pc" using assms(3) by (cases pc) (simp_all add: published_def)
  then show ?thesis
    using assms(1,2) by (simp add: mpsc_run_inv_def counts_inv_def slots_inv_def slot_ok_def published_def)
qed

lemma dequeue_pos_eq:
  "mpsc_run_inv K c \<Longrightarrow> unat (mq_dequeue_pos (mr_queue c)) = length (mr_popped c) - advancing (mr_consumer c)"
  unfolding mpsc_run_inv_def counts_inv_def by linarith

text \<open>The test of \<open>try_pop\<close> says whether the oldest position is published.\<close>

lemma pop_diff:
  assumes inv: "mpsc_run_inv K c" and small: "counters_small K c" and adv: "advancing (mr_consumer c) = 0"
  shows "seq_diff (sl_sequence (mq_buffer (mr_queue c) ! unat (mq_dequeue_pos (mr_queue c) AND MASK K)))
      (mq_dequeue_pos (mr_queue c) + 1) = (if published c (length (mr_popped c)) then 0 else - 1)"
proof -
  note i = mpsc_run_invD [OF inv]
  have d: "unat (mq_dequeue_pos (mr_queue c)) = length (mr_popped c)" using dequeue_pos_eq [OF inv] adv by simp
  have lt: "Suc (length (mr_popped c)) < 2 ^ 63" using small i(5) by (simp add: counters_small_def)
  have d1: "unat (mq_dequeue_pos (mr_queue c) + 1) = Suc (length (mr_popped c))"
    using unat_succ [of "mq_dequeue_pos (mr_queue c)"] d lt by simp
  have s: "unat (sl_sequence (slot_of K c (length (mr_popped c))))
      = (if published c (length (mr_popped c)) then Suc (length (mr_popped c)) else length (mr_popped c))"
    using i(2) i(7) [of "length (mr_popped c)"] by (simp add: slot_ok_def)
  show ?thesis unfolding push_index [OF inv] d using lt s d1 by (subst seq_diff_unat) auto
qed

lemma inv_pop_release:
  assumes inv: "mpsc_run_inv K c" and pc: "mr_consumer c = Pop_Release x" and small: "counters_small K c"
  shows "mpsc_run_inv K (c\<lparr>mr_consumer := Pop_Advance x,
      mr_queue := (mr_queue c)\<lparr>mq_buffer := (mq_buffer (mr_queue c))[length (mr_popped c) mod K :=
        (slot_of K c (length (mr_popped c)))\<lparr>sl_sequence := mq_dequeue_pos (mr_queue c) + of_nat K\<rparr>]\<rparr>,
      mr_popped := mr_popped c @ [x]\<rparr>)"
    (is "mpsc_run_inv K ?c")
proof -
  note i = mpsc_run_invD [OF inv]
  let ?m = "length (mr_popped c)"
  have head: "?m < length (mr_claimed c)" "\<not> pending (mr_producers c) ?m" "snd (mr_claimed c ! ?m) = x"
    using inv by (auto simp: mpsc_run_inv_def pc published_def)
  have d: "unat (mq_dequeue_pos (mr_queue c)) = ?m" using dequeue_pos_eq [OF inv] by (simp add: pc advancing_def)
  have "?m + K < 2 ^ 63" using small i(5) by (simp add: counters_small_def)
  then have dK: "unat (mq_dequeue_pos (mr_queue c) + of_nat K) = ?m + K"
    using d unat_of_nat_u64 [OF valid_capacity_less [OF i(1)]] by (simp add: unat_word_ariths)
  have pub: "published ?c p = published c p" for p by (simp add: published_def)
  have slot: "slot_of K ?c p = (if p = ?m + K then (slot_of K c ?m)\<lparr>sl_sequence := mq_dequeue_pos (mr_queue c) + of_nat K\<rparr>
      else slot_of K c p)" if "?m < p" "p < Suc (?m + K)" for p
  proof -
    have "?m mod K < K" using i(2) by simp
    moreover have "p mod K \<noteq> ?m mod K" if "p \<noteq> ?m + K"
      using window_inj [of ?m p K ?m] \<open>?m < p\<close> \<open>p < Suc (?m + K)\<close> that by auto
    ultimately show ?thesis using i(3) by (auto simp: nth_list_update)
  qed
  have "prefix (mr_popped c @ [x]) (map snd (mr_claimed c))"
  proof -
    from inv obtain ys where ys: "map snd (mr_claimed c) = mr_popped c @ ys"
      by (auto simp: mpsc_run_inv_def counts_inv_def prefix_def)
    moreover have "ys \<noteq> []" using head(1) ys by (auto dest: arg_cong [of _ _ length])
    moreover have "map snd (mr_claimed c) ! ?m = x" using head(1,3) by simp
    ultimately show ?thesis by (cases ys) auto
  qed
  then have "counts_inv K ?c"
    using inv head(1) d by (simp add: mpsc_run_inv_def counts_inv_def advancing_def pc)
  moreover have "slots_inv K ?c"
    unfolding slots_inv_def slot_ok_def pub
  proof (intro allI impI, goal_cases)
    case (1 p)
    then have p: "?m < p" "p < Suc (?m + K)" by simp_all
    have "\<not> published c (?m + K)" using i(6) by (simp add: published_def)
    with slot [OF p] dK i(7) [of p] p show ?case by (cases "p = ?m + K") (simp_all add: slot_ok_def)
  qed
  moreover have "push_ok K ?c (mr_producers c ! u)" if u: "u < length (mr_producers c)" for u
  proof -
    have ne: "held_pos (mr_producers c ! u) \<noteq> Some ?m" using head(2) u by (auto simp: pending_def)
    show ?thesis using i(8) [OF u] ne i(6) slot
      by (cases "mr_producers c ! u") (fastforce simp: le_less)+
  qed
  ultimately show ?thesis using inv by (simp add: mpsc_run_inv_def)
qed

lemma inv_pop_advance:
  assumes inv: "mpsc_run_inv K c" and pc: "mr_consumer c = Pop_Advance x" and small: "counters_small K c"
  shows "mpsc_run_inv K (c\<lparr>mr_consumer := Pop_Returned (Some x),
      mr_queue := (mr_queue c)\<lparr>mq_dequeue_pos := mq_dequeue_pos (mr_queue c) + 1\<rparr>\<rparr>)"
    (is "mpsc_run_inv K ?c")
proof -
  note i = mpsc_run_invD [OF inv]
  have d: "unat (mq_dequeue_pos (mr_queue c)) + 1 = length (mr_popped c)"
    using inv by (simp add: mpsc_run_inv_def counts_inv_def pc advancing_def)
  then have "unat (mq_dequeue_pos (mr_queue c) + 1) = length (mr_popped c)"
    using small i(5) by (subst unat_succ) (simp_all add: counters_small_def)
  then have "counts_inv K ?c" using inv by (simp add: mpsc_run_inv_def counts_inv_def advancing_def)
  moreover have "push_ok K ?c z = push_ok K c z" for z by (cases z) simp_all
  moreover have "slots_inv K ?c" using i(7) by (simp add: slots_inv_def slot_ok_def published_def)
  ultimately show ?thesis using inv by (simp add: mpsc_run_inv_def)
qed

lemma inv_pop_step:
  assumes inv: "mpsc_run_inv K c" and small: "counters_small K c"
    and step: "pop_step K (mr_consumer c) (mr_queue c) = (pc, q)"
  shows "mpsc_run_inv K (c\<lparr>mr_consumer := pc, mr_queue := q, mr_popped := mr_popped c @ releases (mr_consumer c)\<rparr>)"
proof -
  note i = mpsc_run_invD [OF inv]
  have d: "unat (mq_dequeue_pos (mr_queue c)) = length (mr_popped c)" if "advancing (mr_consumer c) = 0"
    using dequeue_pos_eq [OF inv] that by simp
  have quiet: ?thesis if "advancing pc = advancing (mr_consumer c)" "pop_ok c pc" "q = mr_queue c"
    "releases (mr_consumer c) = []"
    using inv_pop_quiet [OF inv that(1,2)] that(3,4) by simp
  show ?thesis
  proof (cases "mr_consumer c")
    case Pop_Test
    then show ?thesis
      using step pop_diff [OF inv small] by (intro quiet) (auto simp: Let_def advancing_def split: if_splits)
  next
    case Pop_Copy
    then have "published c (length (mr_popped c))" using inv by (simp add: mpsc_run_inv_def)
    moreover from this have "sl_data (slot_of K c (length (mr_popped c))) = snd (mr_claimed c ! length (mr_popped c))"
      using i(7) [of "length (mr_popped c)"] i(2) by (simp add: slot_ok_def)
    ultimately show ?thesis
      using step Pop_Copy d by (intro quiet) (auto simp: advancing_def push_index [OF inv])
  next
    case (Pop_Release x)
    then show ?thesis
      using step d inv_pop_release [OF inv Pop_Release small] by (auto simp: Let_def advancing_def push_index [OF inv])
  next
    case (Pop_Advance x)
    then show ?thesis using step inv_pop_advance [OF inv Pop_Advance small] by auto
  next
    case Pop_Idle
    moreover from this have "pc = Pop_Idle" "q = mr_queue c" using step by simp_all
    ultimately show ?thesis by (intro quiet) simp_all
  next
    case (Pop_Returned r)
    moreover from this have "pc = Pop_Returned r" "q = mr_queue c" using step by simp_all
    ultimately show ?thesis by (intro quiet) simp_all
  qed
qed

section \<open>All interleavings\<close>

lemma inv_history:
  "mpsc_run_inv K c \<Longrightarrow> mpsc_run_inv K (c\<lparr>mr_accepted := acc\<rparr>)"
  "mpsc_run_inv K c \<Longrightarrow> mpsc_run_inv K (c\<lparr>mr_received := rec\<rparr>)"
proof -
  have "pop_ok (c\<lparr>mr_accepted := acc\<rparr>) z = pop_ok c z" "pop_ok (c\<lparr>mr_received := rec\<rparr>) z = pop_ok c z" for z
    by (cases z; simp add: published_def)+
  then show "mpsc_run_inv K c \<Longrightarrow> mpsc_run_inv K (c\<lparr>mr_accepted := acc\<rparr>)"
    "mpsc_run_inv K c \<Longrightarrow> mpsc_run_inv K (c\<lparr>mr_received := rec\<rparr>)"
    by (simp_all add: mpsc_run_inv_def counts_inv_def slots_inv_def slot_ok_def published_def)
qed

lemma mpsc_step_inv:
  assumes "mpsc_step K c c'" and "mpsc_run_inv K c" and "counters_small K c"
  shows "mpsc_run_inv K c'"
  using assms(1)
proof cases
  case (push_call t x)
  then show ?thesis using inv_push_quiet [OF assms(2), of t "Load_Pos x"] by simp
next
  case (push_run t spurious pc q)
  then show ?thesis using inv_push_step [OF assms(2) _ assms(3)] by simp
next
  case (push_return t x ok)
  then show ?thesis
    using inv_history(1) [OF inv_push_quiet [OF assms(2), of t Push_Idle]] by simp
next
  case pop_call
  then show ?thesis using inv_pop_quiet [OF assms(2), of Pop_Test] by (simp add: advancing_def)
next
  case (pop_run pc q)
  then show ?thesis using inv_pop_step [OF assms(2,3)] by simp
next
  case (pop_return r)
  then show ?thesis
    using inv_history(2) [OF inv_pop_quiet [OF assms(2), of Pop_Idle]] by (simp add: advancing_def)
qed

lemma mpsc_step_claimed: "mpsc_step K c c' \<Longrightarrow> prefix (mr_claimed c) (mr_claimed c')"
  by (erule mpsc_step.cases) auto

lemma mpsc_step_producers: "mpsc_step K c c' \<Longrightarrow> length (mr_producers c') = length (mr_producers c)"
  by (erule mpsc_step.cases) auto

lemma counters_small_back: "mpsc_step K c c' \<Longrightarrow> counters_small K c' \<Longrightarrow> counters_small K c"
  using prefix_length_le [OF mpsc_step_claimed [of K c c']] by (simp add: counters_small_def)

lemma mpsc_start_inv: "mpsc_capacity_ok K \<Longrightarrow> mpsc_run_inv K (mpsc_start K n a)"
proof -
  assume ok: "mpsc_capacity_ok K"
  then have "K < 2 ^ 64" by (simp add: mpsc_capacity_ok_def)
  then have "unat (of_nat p :: u64) = p" if "p < K" for p using that by (intro unat_of_nat_u64) linarith
  then have "slots_inv K (mpsc_start K n a)"
    by (simp add: slots_inv_def slot_ok_def mpsc_start_def mpsc_new_def published_def)
  then show ?thesis using ok
    by (auto simp: mpsc_run_inv_def counts_inv_def mpsc_start_def mpsc_new_def advancing_def owners_inv_def)
qed

lemma claims_length: "length (claims pc pc') \<le> Suc 0"
  by (cases "(pc, pc')" rule: claims.cases) simp_all

lemma releases_length: "length (releases pc) \<le> Suc 0"
  by (cases pc) simp_all

lemma mpsc_step_moves:
  assumes "mpsc_step K c c'"
  shows "\<exists>xs ys. map snd (mr_claimed c') = map snd (mr_claimed c) @ xs \<and>
    mr_popped c' = mr_popped c @ ys \<and> length xs + length ys \<le> 1"
  using assms by cases (auto simp: claims_length releases_length comp_def)

interpretation mpsc_run: concurrent_queue "mpsc_step K" "mpsc_start K n a"
  "\<lambda>c. mpsc_capacity_ok K \<and> counters_small K c" "\<lambda>c. mpsc_capacity_ok K \<longrightarrow> mpsc_run_inv K c"
  "\<lambda>c. map snd (mr_claimed c)" mr_popped K
  for K n a
proof (unfold_locales, goal_cases)
  case (4 c)
  then show ?case by (simp add: mpsc_run_inv_def counts_inv_def)
next
  case (5 c)
  then show ?case by (simp add: mpsc_run_inv_def counts_inv_def)
qed (use mpsc_step_moves in \<open>auto intro: mpsc_start_inv mpsc_step_inv counters_small_back\<close>)

lemma mpsc_reachable_inv:
  "(mpsc_step K)\<^sup>*\<^sup>* (mpsc_start K n a) c \<Longrightarrow> mpsc_capacity_ok K \<Longrightarrow> counters_small K c \<Longrightarrow> mpsc_run_inv K c"
  using mpsc_run.reachable_inv [of K n a c] by blast

lemma mpsc_reachable_producers:
  "(mpsc_step K)\<^sup>*\<^sup>* (mpsc_start K n a) c \<Longrightarrow> length (mr_producers c) = n"
  by (induction rule: rtranclp_induct) (simp_all add: mpsc_start_def mpsc_step_producers)

text \<open>What each thread pushed, in order, and the trade it has claimed and not yet returned for.\<close>

definition of_thread :: "nat \<Rightarrow> (nat \<times> 'a) list \<Rightarrow> 'a list" where
  "of_thread t xs = map snd (filter (\<lambda>e. fst e = t) xs)"

lemma of_thread_append [simp]: "of_thread t (xs @ ys) = of_thread t xs @ of_thread t ys"
  by (simp add: of_thread_def)

lemma of_thread_simps [simp]:
  "of_thread t [] = []"
  "of_thread t ((u, x) # xs) = (if u = t then x # of_thread t xs else of_thread t xs)"
  by (simp_all add: of_thread_def)

fun in_hand :: "'a push_pc \<Rightarrow> 'a list" where
  "in_hand (Write_Data trade pos) = [trade]"
| "in_hand (Publish trade pos) = [trade]"
| "in_hand (Push_Returned trade True) = [trade]"
| "in_hand pc = []"

text \<open>A released trade on its way to the caller.\<close>

fun returning :: "'a pop_pc \<Rightarrow> 'a list" where
  "returning (Pop_Advance trade) = [trade]"
| "returning (Pop_Returned (Some trade)) = [trade]"
| "returning pc = []"

definition order_inv :: "'a mpsc_run \<Rightarrow> bool" where
  "order_inv c \<longleftrightarrow> mr_popped c = mr_received c @ returning (mr_consumer c) \<and>
     (\<forall>t < length (mr_producers c).
        of_thread t (mr_claimed c) = of_thread t (mr_accepted c) @ in_hand (mr_producers c ! t))"

lemma in_hand_step:
  "push_step K spurious pc q = (pc', q') \<Longrightarrow> in_hand pc' = in_hand pc @ claims pc pc'"
  by (cases pc) (auto simp: Let_def split: if_splits)

lemma returning_step:
  "pop_step K pc q = (pc', q') \<Longrightarrow> returning pc' = returning pc @ releases pc"
  by (cases pc) (auto simp: Let_def split: if_splits)

lemma of_thread_claims: "of_thread u (map (Pair t) xs) = (if u = t then xs else [])"
  by (induction xs) auto

lemma mpsc_step_order:
  assumes "mpsc_step K c c'" and inv: "order_inv c"
  shows "order_inv c'"
  using assms(1)
proof cases
  case (push_run t spurious pc q)
  then show ?thesis
    using inv in_hand_step [OF push_run(3)]
    by (auto simp: order_inv_def nth_list_update of_thread_claims)
next
  case (push_return t x ok)
  then show ?thesis using inv by (cases ok) (auto simp: order_inv_def nth_list_update)
next
  case (pop_run pc q)
  then show ?thesis using inv returning_step [OF pop_run(2)] by (simp add: order_inv_def)
next
  case (pop_return r)
  then show ?thesis using inv by (cases r) (simp_all add: order_inv_def)
qed (use inv in \<open>auto simp: order_inv_def nth_list_update\<close>)

lemma mpsc_reachable_order: "(mpsc_step K)\<^sup>*\<^sup>* (mpsc_start K n a) c \<Longrightarrow> order_inv c"
proof (induction rule: rtranclp_induct)
  case base
  show ?case by (simp add: order_inv_def mpsc_start_def)
next
  case (step c c')
  then show ?case using mpsc_step_order by blast
qed

text \<open>A schedule, step by step, for concrete runs.\<close>

datatype 'a mpsc_act = Push_Call nat 'a | Push_Run nat bool | Push_Return nat | Pop_Call | Pop_Run | Pop_Return

fun mpsc_exec :: "nat \<Rightarrow> 'a mpsc_act \<Rightarrow> 'a mpsc_run \<Rightarrow> 'a mpsc_run option" where
  "mpsc_exec K (Push_Call t x) c =
     (if t < length (mr_producers c)
      then (case mr_producers c ! t of
              Push_Idle \<Rightarrow> Some (c\<lparr>mr_producers := (mr_producers c)[t := Load_Pos x]\<rparr>)
            | _ \<Rightarrow> None)
      else None)"
| "mpsc_exec K (Push_Run t spurious) c =
     (if t < length (mr_producers c)
      then (let (pc, q) = push_step K spurious (mr_producers c ! t) (mr_queue c)
            in Some (c\<lparr>mr_producers := (mr_producers c)[t := pc], mr_queue := q,
                 mr_claimed := mr_claimed c @ map (Pair t) (claims (mr_producers c ! t) pc)\<rparr>))
      else None)"
| "mpsc_exec K (Push_Return t) c =
     (if t < length (mr_producers c)
      then (case mr_producers c ! t of
              Push_Returned x ok \<Rightarrow> Some (c\<lparr>mr_producers := (mr_producers c)[t := Push_Idle],
                mr_accepted := mr_accepted c @ (if ok then [(t, x)] else [])\<rparr>)
            | _ \<Rightarrow> None)
      else None)"
| "mpsc_exec K Pop_Call c =
     (case mr_consumer c of Pop_Idle \<Rightarrow> Some (c\<lparr>mr_consumer := Pop_Test\<rparr>) | _ \<Rightarrow> None)"
| "mpsc_exec K Pop_Run c =
     (let (pc, q) = pop_step K (mr_consumer c) (mr_queue c)
      in Some (c\<lparr>mr_consumer := pc, mr_queue := q, mr_popped := mr_popped c @ releases (mr_consumer c)\<rparr>))"
| "mpsc_exec K Pop_Return c =
     (case mr_consumer c of
        Pop_Returned r \<Rightarrow> Some (c\<lparr>mr_consumer := Pop_Idle,
          mr_received := mr_received c @ (case r of None \<Rightarrow> [] | Some x \<Rightarrow> [x])\<rparr>)
      | _ \<Rightarrow> None)"

fun mpsc_execs :: "nat \<Rightarrow> 'a mpsc_act list \<Rightarrow> 'a mpsc_run \<Rightarrow> 'a mpsc_run option" where
  "mpsc_execs K [] c = Some c"
| "mpsc_execs K (a # as) c = (case mpsc_exec K a c of None \<Rightarrow> None | Some c' \<Rightarrow> mpsc_execs K as c')"

lemma mpsc_exec_step:
  assumes "mpsc_exec K a c = Some c'"
  shows "mpsc_step K c c'"
proof (cases a)
  case (Push_Return t)
  then obtain x ok where "t < length (mr_producers c)" "mr_producers c ! t = Push_Returned x ok"
    using assms by (simp split: if_splits push_pc.splits)
  then show ?thesis using assms Push_Return mpsc_step.push_return [of t c x ok K] by simp
qed (use assms in \<open>auto simp: split_beta split: if_splits push_pc.splits pop_pc.splits
  intro: mpsc_step.intros push_run [OF _ prod.collapse [symmetric]] pop_run [OF prod.collapse [symmetric]]\<close>)

lemma mpsc_execs_reach: "mpsc_execs K as c = Some c' \<Longrightarrow> (mpsc_step K)\<^sup>*\<^sup>* c c'"
proof (induction as arbitrary: c)
  case (Cons a as)
  then show ?case
    by (auto split: option.splits dest!: mpsc_exec_step intro: converse_rtranclp_into_rtranclp)
qed simp

section \<open>What the threads may rely on\<close>

text \<open>The claimed trades whose slot has not been released.\<close>

definition in_queue :: "'a mpsc_run \<Rightarrow> 'a list" where
  "in_queue c = map snd (drop (length (mr_popped c)) (mr_claimed c))"

lemma claimed_split:
  assumes "mpsc_run_inv K c"
  shows "map snd (mr_claimed c) = mr_popped c @ in_queue c"
  using assms by (auto simp: mpsc_run_inv_def counts_inv_def prefix_def in_queue_def simp flip: drop_map)

lemma length_in_queue: "length (in_queue c) = length (mr_claimed c) - length (mr_popped c)"
  by (simp add: in_queue_def)

text \<open>
  A concrete schedule of two producers on a queue of two slots: thread 0 claims the first position
  and stops before it writes its trade; thread 1 pushes another trade and returns.
\<close>

definition overtaken :: "nat mpsc_act list" where
  "overtaken =
     Push_Call 0 7 # replicate 3 (Push_Run 0 False) @ Push_Call 1 8 # replicate 5 (Push_Run 1 False) @ [Push_Return 1]"

definition overtaken_run :: "nat mpsc_run" where
  "overtaken_run = the (mpsc_execs 2 overtaken (mpsc_start 2 2 0))"

lemma overtaken_reach: "(mpsc_step 2)\<^sup>*\<^sup>* (mpsc_start 2 2 0) overtaken_run"
proof -
  have "mpsc_execs 2 overtaken (mpsc_start 2 2 0) \<noteq> None" by code_simp
  then show ?thesis unfolding overtaken_run_def by (intro mpsc_execs_reach) auto
qed

lemma overtaken_claimed: "mr_claimed overtaken_run = [(0, 7), (1, 8)]" "mr_accepted overtaken_run = [(1, 8)]"
  by code_simp+

lemma overtaken_small: "counters_small 2 overtaken_run"
  by (simp add: counters_small_def overtaken_claimed)

lemma capacity_two: "mpsc_capacity_ok 2"
proof -
  have "valid_capacity 2" by code_simp
  then show ?thesis by (simp add: mpsc_capacity_ok_def)
qed

text \<open>
  (C12) Concurrent pushes and pops refine a bounded first-in first-out queue. Under every
  interleaving of the accesses of any number of producers and the consumer, each single access
  appends one trade to a queue that has room, takes the oldest trade off it, or leaves it alone;
  the queue never holds more than \<open>Capacity\<close> trades. The accesses that count are the successful
  \<open>compare_exchange_weak\<close> of \<open>try_push\<close> and the store of the sequence in \<open>try_pop\<close>.
\<close>

theorem mpsc_concurrent_refines_fifo:
  assumes "mpsc_capacity_ok K" and "(mpsc_step K)\<^sup>*\<^sup>* (mpsc_start K n a) c"
    and "mpsc_step K c c'" and "counters_small K c'"
  shows "fifo_step K (in_queue c) (in_queue c') \<and> map snd (mr_claimed c') = mr_popped c' @ in_queue c'
    \<and> length (in_queue c') \<le> K"
  using mpsc_run.reachable_fifo [OF assms(2,3)] assms(1,4) by (simp add: in_queue_def drop_map)

theorem mpsc_concurrent_refines_fifo_witness:
  "\<exists>c. mpsc_step 2 overtaken_run c \<and> fifo_step 2 (in_queue overtaken_run) (in_queue c)
     \<and> map snd (mr_claimed c) = mr_popped c @ in_queue c \<and> length (in_queue c) \<le> 2"
proof -
  let ?c = "overtaken_run\<lparr>mr_consumer := Pop_Test\<rparr>"
  have "mr_consumer overtaken_run = Pop_Idle" by code_simp
  then have step: "mpsc_step 2 overtaken_run ?c" by (rule mpsc_step.pop_call)
  have "counters_small 2 ?c" using overtaken_small by (simp add: counters_small_def)
  from mpsc_concurrent_refines_fifo [OF capacity_two overtaken_reach step this] step show ?thesis by blast
qed

text \<open>
  (C13) The consumer receives every trade at most once and in the order the positions were
  claimed, with the data its producer wrote; and each producer's accepted trades appear in that
  order as it pushed them, followed by at most the one it is still pushing. Nothing an
  interleaving does can lose, duplicate, tear or reorder a trade.
\<close>

theorem mpsc_concurrent_order:
  assumes "mpsc_capacity_ok K" and "(mpsc_step K)\<^sup>*\<^sup>* (mpsc_start K n a) c" and "counters_small K c"
  shows "prefix (mr_received c) (map snd (mr_claimed c)) \<and>
    (\<forall>t < n. \<exists>rest. of_thread t (mr_claimed c) = of_thread t (mr_accepted c) @ rest \<and> length rest \<le> 1)"
proof -
  have inv: "mpsc_run_inv K c" by (rule mpsc_reachable_inv [OF assms(2,1,3)])
  have ord: "order_inv c" by (rule mpsc_reachable_order [OF assms(2)])
  have "prefix (mr_received c) (map snd (mr_claimed c))"
    using claimed_split [OF inv] ord by (auto simp: order_inv_def)
  moreover have "length (in_hand pc) \<le> 1" for pc :: "'a push_pc" by (cases pc rule: in_hand.cases) simp_all
  ultimately show ?thesis using ord mpsc_reachable_producers [OF assms(2)] by (auto simp: order_inv_def)
qed

theorem mpsc_concurrent_order_witness:
  "prefix (mr_received overtaken_run) (map snd (mr_claimed overtaken_run)) \<and>
   (\<exists>rest. of_thread 1 (mr_claimed overtaken_run) = of_thread 1 (mr_accepted overtaken_run) @ rest
      \<and> length rest \<le> 1) \<and> mr_accepted overtaken_run = [(1, 8)]"
proof -
  have "1 < (2::nat)" by simp
  then show ?thesis
    using mpsc_concurrent_order [OF capacity_two overtaken_reach overtaken_small] overtaken_claimed(2) by blast
qed

text \<open>The slot whose data a thread accesses next, by a plain store or load.\<close>

fun writes_slot :: "nat \<Rightarrow> 'a push_pc \<Rightarrow> nat option" where
  "writes_slot K (Write_Data trade pos) = Some (unat (pos AND MASK K))"
| "writes_slot K pc = None"

definition reads_slot :: "nat \<Rightarrow> 'a mpsc_run \<Rightarrow> nat option" where
  "reads_slot K c =
     (case mr_consumer c of Pop_Copy \<Rightarrow> Some (unat (mq_dequeue_pos (mr_queue c) AND MASK K)) | _ \<Rightarrow> None)"

lemma writes_slotD:
  assumes inv: "mpsc_run_inv K c" and t: "t < length (mr_producers c)" and w: "writes_slot K (mr_producers c ! t) = Some i"
  obtains p where "held_pos (mr_producers c ! t) = Some p" "i = p mod K"
    "length (mr_popped c) \<le> p" "p < length (mr_popped c) + K"
proof (cases "mr_producers c ! t")
  case (Write_Data x pos)
  then have "held_pos (mr_producers c ! t) = Some (unat pos)" "i = unat pos mod K"
    using w push_index [OF inv] by simp_all
  with held_window [OF inv t] that show ?thesis by blast
qed (use w in simp_all)

text \<open>
  (C14) The plain accesses to \<open>slot.data\<close> do not race: under every interleaving, no two
  producers are about to write the data of the same slot, and no producer is about to write the
  data of the slot the consumer is about to copy.
\<close>

theorem mpsc_no_data_race:
  assumes "mpsc_capacity_ok K" and "(mpsc_step K)\<^sup>*\<^sup>* (mpsc_start K n a) c" and "counters_small K c"
    and "t < n" and "writes_slot K (mr_producers c ! t) = Some i"
  shows "reads_slot K c \<noteq> Some i \<and>
    (\<forall>u < n. u \<noteq> t \<longrightarrow> writes_slot K (mr_producers c ! u) \<noteq> Some i)"
proof -
  have inv: "mpsc_run_inv K c" by (rule mpsc_reachable_inv [OF assms(2,1,3)])
  have n: "length (mr_producers c) = n" by (rule mpsc_reachable_producers [OF assms(2)])
  obtain p where p: "held_pos (mr_producers c ! t) = Some p" "i = p mod K"
      "length (mr_popped c) \<le> p" "p < length (mr_popped c) + K"
    using writes_slotD [OF inv _ assms(5)] assms(4) n by blast
  have "writes_slot K (mr_producers c ! u) \<noteq> Some i" if u: "u < n" "u \<noteq> t" for u
  proof
    assume "writes_slot K (mr_producers c ! u) = Some i"
    then obtain r where r: "held_pos (mr_producers c ! u) = Some r" "i = r mod K"
        "length (mr_popped c) \<le> r" "r < length (mr_popped c) + K"
      using writes_slotD [OF inv, of u i] u n by blast
    then have "p = r" using window_inj [OF p(3,4) r(3,4)] p(2) by simp
    then show False
      using inv p(1) r(1) u assms(4) n unfolding mpsc_run_inv_def owners_inv_def by blast
  qed
  moreover have "reads_slot K c \<noteq> Some i"
  proof (cases "mr_consumer c")
    case Pop_Copy
    let ?m = "length (mr_popped c)"
    have "\<not> pending (mr_producers c) ?m" using inv Pop_Copy by (simp add: mpsc_run_inv_def published_def)
    then have "p \<noteq> ?m" using p(1) assms(4) n by (auto simp: pending_def)
    then have "?m mod K \<noteq> i" using window_inj [OF p(3,4), of ?m] p(2) mpsc_run_invD(2) [OF inv] by auto
    then show ?thesis
      using dequeue_pos_eq [OF inv] by (simp add: reads_slot_def Pop_Copy push_index [OF inv] advancing_def)
  qed (simp_all add: reads_slot_def)
  ultimately show ?thesis by simp
qed

theorem mpsc_no_data_race_witness:
  "writes_slot 2 (mr_producers overtaken_run ! 0) = Some 0 \<and> reads_slot 2 overtaken_run \<noteq> Some 0 \<and>
   writes_slot 2 (mr_producers overtaken_run ! 1) \<noteq> Some 0"
proof -
  have "writes_slot 2 (mr_producers overtaken_run ! 0) = Some 0" by code_simp
  with mpsc_no_data_race [OF capacity_two overtaken_reach overtaken_small _ this] show ?thesis by force
qed

text \<open>
  A push is refused only at a moment when \<open>Capacity\<close> claimed trades await release, and a
  pop comes back empty only at a moment when no trade is queued or the oldest one has been claimed
  and its producer is still on the way to publishing it.
\<close>

theorem mpsc_answers_justified:
  assumes "mpsc_capacity_ok K" and "(mpsc_step K)\<^sup>*\<^sup>* (mpsc_start K n a) c" and "counters_small K c"
  shows "(\<forall>t < n. \<forall>x pos spurious. mr_producers c ! t = Load_Seq x pos \<longrightarrow>
      fst (push_step K spurious (Load_Seq x pos) (mr_queue c)) = Push_Returned x False \<longrightarrow>
      length (in_queue c) = K) \<and>
    (mr_consumer c = Pop_Test \<longrightarrow> fst (pop_step K Pop_Test (mr_queue c)) = Pop_Returned None \<longrightarrow>
      in_queue c = [] \<or> (\<exists>t < n. held_pos (mr_producers c ! t) = Some (length (mr_popped c))))"
proof -
  have inv: "mpsc_run_inv K c" by (rule mpsc_reachable_inv [OF assms(2,1,3)])
  have n: "length (mr_producers c) = n" by (rule mpsc_reachable_producers [OF assms(2)])
  have "length (in_queue c) = K" if "t < n" "mr_producers c ! t = Load_Seq x pos"
    "fst (push_step K spurious (Load_Seq x pos) (mr_queue c)) = Push_Returned x False" for t x pos spurious
  proof -
    have "unat pos \<le> length (mr_claimed c)" using mpsc_run_invD(8) [OF inv, of t] that n by simp
    from push_test_full [OF inv assms(3) this] show ?thesis
      using that(3) by (simp add: Let_def length_in_queue split: if_splits)
  qed
  moreover have "in_queue c = [] \<or> pending (mr_producers c) (length (mr_popped c))"
    if "mr_consumer c = Pop_Test" "fst (pop_step K Pop_Test (mr_queue c)) = Pop_Returned None"
  proof -
    have "\<not> published c (length (mr_popped c))"
      using pop_diff [OF inv assms(3)] that by (auto simp: Let_def advancing_def)
    then show ?thesis by (auto simp: published_def in_queue_def)
  qed
  ultimately show ?thesis unfolding pending_def n by blast
qed

text \<open>
  Between calls the shared state is again a queue of the sequential kind: when no thread is
  inside \<open>try_push\<close> or \<open>try_pop\<close>, the invariant of uninterrupted use holds, every claimed trade
  was accepted, and what the queue contains is what was claimed and has not been received.
\<close>

theorem mpsc_at_rest:
  assumes "mpsc_capacity_ok K" and "(mpsc_step K)\<^sup>*\<^sup>* (mpsc_start K n a) c" and "counters_small K c"
    and "list_all (\<lambda>pc. pc = Push_Idle) (mr_producers c)" and "mr_consumer c = Pop_Idle"
  shows "mpsc_inv K (mr_queue c) \<and>
    map snd (mr_claimed c) = mr_received c @ mpsc_contents K (mr_queue c) \<and>
    (\<forall>t < n. of_thread t (mr_claimed c) = of_thread t (mr_accepted c))"
proof -
  have inv: "mpsc_run_inv K c" by (rule mpsc_reachable_inv [OF assms(2,1,3)])
  note i = mpsc_run_invD [OF inv]
  have ord: "order_inv c" by (rule mpsc_reachable_order [OF assms(2)])
  have idle: "mr_producers c ! t = Push_Idle" if "t < length (mr_producers c)" for t
    using assms(4) that by (simp add: list_all_length)
  let ?q = "mr_queue c" and ?m = "length (mr_popped c)" and ?n = "length (mr_claimed c)"
  have np: "\<not> pending (mr_producers c) p" for p by (auto simp: pending_def idle)
  have d: "unat (mq_dequeue_pos ?q) = ?m" using dequeue_pos_eq [OF inv] assms(5) by (simp add: advancing_def)
  then have dw: "mq_dequeue_pos ?q = of_nat ?m" by (rule unat_eqD)
  have ew: "mq_enqueue_pos ?q = of_nat ?n" using i(4) by (rule unat_eqD)
  have "?n - ?m < 2 ^ 64" using assms(3) by (simp add: counters_small_def)
  then have cnt: "mpsc_count ?q = ?n - ?m"
    unfolding mpsc_count_def dw ew using i(5) by (simp add: unat_of_nat_u64 flip: of_nat_diff)
  have slot: "slot_ok K c (?m + j)" if "j < K" for j using that by (intro i(7)) simp_all
  have ix: "mpsc_index K ?q j = (?m + j) mod K" for j by (simp add: mpsc_index_def d)
  have seq: "sl_sequence (slot_of K c (?m + j)) = of_nat (if ?m + j < ?n then Suc (?m + j) else ?m + j)" if "j < K" for j
    using slot [OF that] by (intro unat_eqD) (simp add: slot_ok_def published_def np)
  have "mpsc_inv K ?q"
    using assms(1) i(3,6) seq by (auto simp: mpsc_inv_def cnt ix dw)
  moreover have "mpsc_contents K ?q = in_queue c"
    using slot i(6) by (intro nth_equalityI)
      (auto simp: mpsc_contents_def cnt ix length_in_queue in_queue_def slot_ok_def published_def np)
  ultimately show ?thesis
    using claimed_split [OF inv] ord idle mpsc_reachable_producers [OF assms(2)] by (simp add: order_inv_def assms(5))
qed

text \<open>A thread that runs alone from where it is.\<close>

primrec push_alone :: "nat \<Rightarrow> nat \<Rightarrow> 'a push_pc \<times> 'a mpsc_queue \<Rightarrow> 'a push_pc \<times> 'a mpsc_queue" where
  "push_alone K 0 s = s"
| "push_alone K (Suc n) s = push_alone K n (push_step K False (fst s) (snd s))"

primrec pop_alone :: "nat \<Rightarrow> nat \<Rightarrow> 'a pop_pc \<times> 'a mpsc_queue \<Rightarrow> 'a pop_pc \<times> 'a mpsc_queue" where
  "pop_alone K 0 s = s"
| "pop_alone K (Suc n) s = pop_alone K n (pop_step K (fst s) (snd s))"

fun call_of :: "'a push_pc \<Rightarrow> 'a option" where
  "call_of Push_Idle = None"
| "call_of (Load_Pos trade) = Some trade"
| "call_of (Load_Seq trade pos) = Some trade"
| "call_of (Cas trade pos) = Some trade"
| "call_of (Write_Data trade pos) = Some trade"
| "call_of (Publish trade pos) = Some trade"
| "call_of (Push_Returned trade ok) = Some trade"

lemma push_alone_add: "push_alone K (m + n) s = push_alone K n (push_alone K m s)"
  by (induction m arbitrary: s) simp_all

lemma push_alone_returned [simp]: "push_alone K n (Push_Returned x ok, q) = (Push_Returned x ok, q)"
  by (induction n) simp_all

text \<open>A freshly loaded position is never behind its slot.\<close>

lemma fresh_diff:
  assumes inv: "mpsc_run_inv K c" and small: "counters_small K c"
  shows "seq_diff (sl_sequence (mq_buffer (mr_queue c) ! unat (mq_enqueue_pos (mr_queue c) AND MASK K)))
    (mq_enqueue_pos (mr_queue c)) \<le> 0"
proof -
  note i = mpsc_run_invD [OF inv]
  let ?n = "length (mr_claimed c)" and ?m = "length (mr_popped c)"
  have "unat (mq_enqueue_pos (mr_queue c)) \<le> ?n" using i(4) by simp
  then obtain r where r: "?m \<le> r" "r < ?m + K" "r mod K = unat (mq_enqueue_pos (mr_queue c)) mod K"
    and d: "seq_diff (sl_sequence (mq_buffer (mr_queue c) ! unat (mq_enqueue_pos (mr_queue c) AND MASK K)))
      (mq_enqueue_pos (mr_queue c))
        = int (if published c r then Suc r else r) - int (unat (mq_enqueue_pos (mr_queue c)))"
    by (rule push_diff [OF inv small])
  note r = r [unfolded i(4)] and d = d [unfolded i(4)]
  have "r = ?n" if "?n < ?m + K" using window_inj [OF r(1,2) i(5) that r(3)] .
  moreover have "r = ?m" if "?n = ?m + K" using window_inj [OF r(1,2), of ?m] r(3) i(2) that by simp
  moreover have "\<not> published c ?n" by (simp add: published_def)
  ultimately have "(if published c r then Suc r else r) \<le> ?n" using i(2,6) by (cases "?n < ?m + K") auto
  then show ?thesis unfolding d by linarith
qed

definition finishes :: "nat \<Rightarrow> nat \<Rightarrow> 'a \<Rightarrow> 'a push_pc \<Rightarrow> 'a mpsc_queue \<Rightarrow> bool" where
  "finishes K n x pc q \<longleftrightarrow> (\<exists>ok q'. push_alone K n (pc, q) = (Push_Returned x ok, q'))"

lemma finishes_mono: "finishes K m x pc q \<Longrightarrow> m \<le> n \<Longrightarrow> finishes K n x pc q"
  using push_alone_add [of K m "n - m" "(pc, q)"] by (auto simp: finishes_def)

lemma finishes_step:
  "push_step K False pc q = (pc', q') \<Longrightarrow> finishes K n x pc' q' \<Longrightarrow> finishes K (Suc n) x pc q"
  by (simp add: finishes_def)

lemma finishes_write: "finishes K 2 x (Write_Data x pos) q" "finishes K 1 x (Publish x pos) q"
  by (simp_all add: finishes_def numeral_2_eq_2 Let_def ex_bool_eq)

lemma finishes_fresh:
  assumes "mpsc_run_inv K c" and "counters_small K c"
  shows "finishes K 4 x (Load_Seq x (mq_enqueue_pos (mr_queue c))) (mr_queue c)"
  using fresh_diff [OF assms] by (simp add: finishes_def eval_nat_numeral Let_def ex_bool_eq)

lemma finishes_cas:
  assumes inv: "mpsc_run_inv K c" and small: "counters_small K c"
  shows "finishes K 5 x (Cas x pos) (mr_queue c)"
proof (cases "mq_enqueue_pos (mr_queue c) = pos")
  case True
  then have "finishes K (Suc 2) x (Cas x pos) (mr_queue c)"
    by (intro finishes_step [OF _ finishes_write(1)]) simp
  then show ?thesis by (rule finishes_mono) simp
next
  case False
  then have "finishes K (Suc 4) x (Cas x pos) (mr_queue c)"
    by (intro finishes_step [OF _ finishes_fresh [OF inv small]]) simp
  then show ?thesis by simp
qed

lemma finishes_load:
  assumes inv: "mpsc_run_inv K c" and small: "counters_small K c"
  shows "finishes K 5 x (Load_Pos x) (mr_queue c)"
proof -
  have "finishes K (Suc 4) x (Load_Pos x) (mr_queue c)"
    by (intro finishes_step [OF _ finishes_fresh [OF inv small]]) simp
  then show ?thesis by simp
qed

lemma finishes_test:
  assumes inv: "mpsc_run_inv K c" and small: "counters_small K c"
  shows "finishes K 6 x (Load_Seq x pos) (mr_queue c)"
proof -
  obtain pc where pc: "push_step K False (Load_Seq x pos) (mr_queue c) = (pc, mr_queue c)"
      "pc = Cas x pos \<or> pc = Push_Returned x False \<or> pc = Load_Pos x"
    by (simp add: Let_def)
  moreover have "finishes K 5 x (Push_Returned x False) (mr_queue c)" by (simp add: finishes_def ex_bool_eq)
  ultimately have "finishes K 5 x pc (mr_queue c)" using finishes_cas [OF inv small] finishes_load [OF inv small] by auto
  then have "finishes K (Suc 5) x (Load_Seq x pos) (mr_queue c)" by (rule finishes_step [OF pc(1)])
  then show ?thesis by simp
qed

text \<open>
  (C15) \<open>try_push\<close> cannot be stuck: from any point of any interleaving, a producer that is left
  to run alone and whose compare-and-exchange does not fail spuriously returns within six
  accesses, whatever the others were in the middle of.
\<close>

theorem mpsc_push_obstruction_free:
  assumes "mpsc_capacity_ok K" and "(mpsc_step K)\<^sup>*\<^sup>* (mpsc_start K n a) c" and "counters_small K c"
    and "t < n" and "call_of (mr_producers c ! t) = Some x"
  shows "\<exists>ok q. push_alone K 6 (mr_producers c ! t, mr_queue c) = (Push_Returned x ok, q)"
proof -
  have inv: "mpsc_run_inv K c" by (rule mpsc_reachable_inv [OF assms(2,1,3)])
  have "finishes K 6 x (mr_producers c ! t) (mr_queue c)"
  proof (cases "mr_producers c ! t")
    case (Push_Returned y ok)
    then show ?thesis using assms(5) by (cases ok) (simp_all add: finishes_def ex_bool_eq)
  qed (use assms(5) finishes_mono [OF finishes_load [OF inv assms(3)], of 6 x]
      finishes_mono [OF finishes_cas [OF inv assms(3)], of 6 x] finishes_test [OF inv assms(3), of x]
      finishes_mono [OF finishes_write(1), of 6 K x] finishes_mono [OF finishes_write(2), of 6 K x] in auto)
  then show ?thesis by (simp add: finishes_def)
qed

theorem mpsc_push_obstruction_free_witness:
  "call_of (mr_producers overtaken_run ! 0) = Some 7 \<and>
   (\<exists>ok q. push_alone 2 6 (mr_producers overtaken_run ! 0, mr_queue overtaken_run) = (Push_Returned 7 ok, q))"
proof -
  have "call_of (mr_producers overtaken_run ! 0) = Some 7" by code_simp
  with mpsc_push_obstruction_free [OF capacity_two overtaken_reach overtaken_small _ this] show ?thesis by simp
qed

text \<open>A call without interference.\<close>

lemma slot_overwritten: "s\<lparr>sl_data := x, sl_sequence := n\<rparr> = \<lparr>sl_sequence = n, sl_data = x\<rparr>" for s :: "'a slot"
  by (cases s) simp

lemma push_alone_sequential:
  assumes "\<And>pos. unat (pos AND MASK K) < length (mq_buffer q)" and "mpsc_try_push K x q = Some (ok, q')"
  shows "push_alone K 5 (Load_Pos x, q) = (Push_Returned x ok, q')"
  using assms(2)
  by (auto simp: mpsc_try_push_def Let_def eval_nat_numeral slot_overwritten assms(1) split: if_splits)

lemma pop_alone_sequential:
  assumes "\<And>pos. unat (pos AND MASK K) < length (mq_buffer q)" and "mpsc_try_pop K q = (r, q')"
  shows "pop_alone K 4 (Pop_Test, q) = (Pop_Returned r, q')"
  using assms(2)
  by (auto simp: mpsc_try_pop_def Let_def eval_nat_numeral split: if_splits)

text \<open>
  The sequential definitions are the uninterrupted runs of the accesses: a \<open>try_push\<close> that
  is alone makes at most five accesses and ends with the answer and the queue of
  \<open>mpsc_try_push\<close>, a \<open>try_pop\<close> makes at most four and ends with those of \<open>mpsc_try_pop\<close>.
\<close>

theorem mpsc_alone_sequential:
  assumes "valid_capacity K" and "length (mq_buffer q) = K"
  shows "(mpsc_try_push K x q = Some (ok, q') \<longrightarrow> push_alone K 5 (Load_Pos x, q) = (Push_Returned x ok, q')) \<and>
    (mpsc_try_pop K q = (r, q'') \<longrightarrow> pop_alone K 4 (Pop_Test, q) = (Pop_Returned r, q''))"
proof -
  have "unat (pos AND MASK K) < length (mq_buffer q)" for pos
    using assms by (simp add: unat_masked)
  then show ?thesis using push_alone_sequential [of K q x ok q'] pop_alone_sequential [of K q r q''] by blast
qed

text \<open>
  (C32) An empty answer does not mean an empty queue: after a push has returned \<open>true\<close> a pop that
  begins afterwards can still return nothing, because an earlier position has been claimed and not
  yet published. Nothing is lost: once that producer publishes, pops return both trades in order.
\<close>

theorem mpsc_pop_misses_completed_push:
  "\<exists>c c'. (mpsc_step 2)\<^sup>*\<^sup>* (mpsc_start 2 2 (0::nat)) c \<and> mr_accepted c = [(1, 8)] \<and> mr_consumer c = Pop_Idle \<and>
     mpsc_execs 2 [Pop_Call, Pop_Run] c = Some c' \<and> mr_consumer c' = Pop_Returned None \<and>
     map_option mr_received (mpsc_execs 2 ([Pop_Return, Push_Run 0 False, Push_Run 0 False]
       @ concat (replicate 2 (Pop_Call # replicate 4 Pop_Run @ [Pop_Return]))) c') = Some [7, 8]"
proof -
  let ?c = "the (mpsc_execs 2 [Pop_Call, Pop_Run] overtaken_run)"
  have "mr_consumer overtaken_run = Pop_Idle" by code_simp
  moreover have "mpsc_execs 2 [Pop_Call, Pop_Run] overtaken_run \<noteq> None" by code_simp
  then have "mpsc_execs 2 [Pop_Call, Pop_Run] overtaken_run = Some ?c" by auto
  moreover have "mr_consumer ?c = Pop_Returned None" by code_simp
  moreover have "map_option mr_received (mpsc_execs 2 ([Pop_Return, Push_Run 0 False, Push_Run 0 False]
       @ concat (replicate 2 (Pop_Call # replicate 4 Pop_Run @ [Pop_Return]))) ?c) = Some [7, 8]" by code_simp
  ultimately show ?thesis using overtaken_reach overtaken_claimed(2) by blast
qed

end
