(* ===== verification/Std_Map.thy ===== *)
theory Std_Map
  imports Prelude
begin

text \<open>
  \<open>std::map\<close> of the C++ library: the elements in the order of the comparator, here an
  association list. \<open>map_assign\<close> is \<open>m[k] = v\<close>, \<open>map_erase\<close> is \<open>m.erase(k)\<close> and \<open>map_find\<close> is
  \<open>m.find(k)\<close>; two keys are the same key when neither is less than the other. The locale
  \<open>key_order\<close> is the requirement the library puts on a comparator (a strict order, total on the
  keys in use); under it the list is a finite map whose first element has the first key.
\<close>

section \<open>Operations\<close>

fun map_assign :: "('k \<Rightarrow> 'k \<Rightarrow> bool) \<Rightarrow> 'k \<Rightarrow> 'v \<Rightarrow> ('k \<times> 'v) list \<Rightarrow> ('k \<times> 'v) list" where
  "map_assign before k v [] = [(k, v)]"
| "map_assign before k v ((k', v') # m) =
     (if before k k' then (k, v) # (k', v') # m
      else if before k' k then (k', v') # map_assign before k v m
      else (k', v) # m)"

fun map_erase :: "('k \<Rightarrow> 'k \<Rightarrow> bool) \<Rightarrow> 'k \<Rightarrow> ('k \<times> 'v) list \<Rightarrow> ('k \<times> 'v) list" where
  "map_erase before k [] = []"
| "map_erase before k ((k', v') # m) =
     (if before k k' then (k', v') # m
      else if before k' k then (k', v') # map_erase before k m
      else m)"

fun map_find :: "('k \<Rightarrow> 'k \<Rightarrow> bool) \<Rightarrow> 'k \<Rightarrow> ('k \<times> 'v) list \<Rightarrow> 'v option" where
  "map_find before k [] = None"
| "map_find before k ((k', v') # m) =
     (if before k k' then None else if before k' k then map_find before k m else Some v')"

definition map_keys_ok :: "('k \<Rightarrow> 'k \<Rightarrow> bool) \<Rightarrow> ('k \<Rightarrow> bool) \<Rightarrow> ('k \<times> 'v) list \<Rightarrow> bool" where
  "map_keys_ok before ok m \<longleftrightarrow> sorted_wrt before (map fst m) \<and> list_all ok (map fst m)"

section \<open>The comparator contract\<close>

locale key_order =
  fixes before :: "'k \<Rightarrow> 'k \<Rightarrow> bool"
    and ok :: "'k \<Rightarrow> bool"
  assumes irrefl: "\<not> before k k"
    and trans: "\<lbrakk> before a b; before b c \<rbrakk> \<Longrightarrow> before a c"
    and total: "\<lbrakk> ok a; ok b; \<not> before a b; \<not> before b a \<rbrakk> \<Longrightarrow> a = b"
begin

abbreviation keys_ok :: "('k \<times> 'v) list \<Rightarrow> bool" where
  "keys_ok \<equiv> map_keys_ok before ok"

lemmas keys_ok_def = map_keys_ok_def [of before ok]

lemma keys_ok_Nil [simp]: "keys_ok []"
  by (simp add: keys_ok_def)

lemma keys_ok_Cons:
  "keys_ok ((k, v) # m) \<longleftrightarrow> ok k \<and> (\<forall>x \<in> set m. before k (fst x)) \<and> keys_ok m"
  by (auto simp: keys_ok_def list_all_iff)

lemma set_assign: "x \<in> set (map_assign before k v m) \<Longrightarrow> fst x = k \<or> (\<exists>y \<in> set m. fst x = fst y)"
  by (induction m) (auto split: if_splits)

lemma set_erase: "x \<in> set (map_erase before k m) \<Longrightarrow> x \<in> set m"
  by (induction m) (auto split: if_splits)

lemma keys_ok_assign: "keys_ok m \<Longrightarrow> ok k \<Longrightarrow> keys_ok (map_assign before k v m)"
proof (induction m)
  case (Cons e m)
  obtain k' v' where e [simp]: "e = (k', v')" by (cases e)
  have "before k' (fst x)" if "before k' k" "x \<in> set (map_assign before k v m)" for x
    using set_assign [OF that(2)] that(1) Cons.prems by (auto simp: keys_ok_Cons)
  moreover have "before k (fst x)" if "before k k'" "x \<in> set m" for x
    using that Cons.prems trans [of k k'] by (auto simp: keys_ok_Cons)
  ultimately show ?case using Cons by (simp add: keys_ok_Cons)
qed (simp add: keys_ok_Cons)

lemma keys_ok_erase: "keys_ok m \<Longrightarrow> keys_ok (map_erase before k m)"
proof (induction m)
  case (Cons e m)
  then show ?case using set_erase [of _ k m] by (cases e) (simp add: keys_ok_Cons)
qed simp

lemma lookup_before: "keys_ok ((k', v') # m) \<Longrightarrow> before k k' \<Longrightarrow> map_of ((k', v') # m) k = None"
proof -
  assume ok: "keys_ok ((k', v') # m)" and k: "before k k'"
  have "before k (fst x)" if "x \<in> set m" for x
    using that ok trans [OF k] by (simp add: keys_ok_Cons)
  then have "k \<notin> fst ` set m" using irrefl by blast
  moreover have "k \<noteq> k'" using k irrefl by blast
  ultimately show ?thesis by (simp add: map_of_eq_None_iff)
qed

lemma lookup_head: "keys_ok ((k', v') # m) \<Longrightarrow> map_of m k' = None"
  using irrefl by (auto simp: keys_ok_Cons map_of_eq_None_iff)

lemma assign_lookup: "keys_ok m \<Longrightarrow> ok k \<Longrightarrow> map_of (map_assign before k v m) = (map_of m)(k \<mapsto> v)"
proof (induction m)
  case (Cons e m)
  obtain k' v' where [simp]: "e = (k', v')" by (cases e)
  have "k' = k" if "\<not> before k k'" "\<not> before k' k" using Cons.prems that total by (auto simp: keys_ok_Cons)
  then show ?case using Cons irrefl by (auto simp: keys_ok_Cons fun_eq_iff)
qed simp

lemma erase_lookup: "keys_ok m \<Longrightarrow> ok k \<Longrightarrow> map_of (map_erase before k m) = (map_of m)(k := None)"
proof (induction m)
  case (Cons e m)
  obtain k' v' where [simp]: "e = (k', v')" by (cases e)
  have "k' = k" if "\<not> before k k'" "\<not> before k' k" using Cons.prems that total by (auto simp: keys_ok_Cons)
  then show ?case
    using Cons irrefl lookup_before [of k' v' m k] lookup_head [of k' v' m]
    by (auto simp: keys_ok_Cons fun_eq_iff)
qed simp

lemma find_lookup: "keys_ok m \<Longrightarrow> ok k \<Longrightarrow> map_find before k m = map_of m k"
proof (induction m)
  case (Cons e m)
  obtain k' v' where [simp]: "e = (k', v')" by (cases e)
  have "k' = k" if "\<not> before k k'" "\<not> before k' k" using Cons.prems that total by (auto simp: keys_ok_Cons)
  then show ?case
    using Cons irrefl lookup_before [of k' v' m k] by (auto simp: keys_ok_Cons)
qed simp

lemma keys_ok_eqI: "keys_ok m \<Longrightarrow> keys_ok m' \<Longrightarrow> map_of m = map_of m' \<Longrightarrow> m = m'"
proof (induction m arbitrary: m')
  case Nil
  then show ?case by (cases m') (auto simp: fun_eq_iff split: if_splits prod.splits)
next
  case (Cons e m)
  obtain k v where [simp]: "e = (k, v)" by (cases e)
  have "map_of m' k = Some v" using Cons.prems(3) by (metis \<open>e = (k, v)\<close> map_of_Cons_code(2))
  then obtain k' v' m'' where m' [simp]: "m' = (k', v') # m''" by (cases m') auto
  have "k = k'"
  proof (rule total)
    show "\<not> before k k'" using lookup_before [of k' v' m'' k] Cons.prems \<open>map_of m' k = Some v\<close> by auto
    show "\<not> before k' k"
    proof
      assume "before k' k"
      from lookup_before [OF _ this, of v m] Cons.prems(1) have "map_of ((k, v) # m) k' = None" by simp
      then show False using fun_cong [OF Cons.prems(3), of k'] by simp
    qed
  qed (use Cons.prems in \<open>auto simp: keys_ok_Cons\<close>)
  moreover from this have "v = v'" using \<open>map_of m' k = Some v\<close> by simp
  moreover have "map_of m = map_of m''"
  proof
    fix x
    show "map_of m x = map_of m'' x"
      using Cons.prems fun_cong [OF Cons.prems(3), of x] lookup_head [of k v m] lookup_head [of k' v' m'']
        \<open>k = k'\<close> by (cases "x = k") auto
  qed
  ultimately show ?case using Cons.IH [of m''] Cons.prems by (simp add: keys_ok_Cons)
qed

lemma keys_distinct: "keys_ok m \<Longrightarrow> distinct (map fst m)"
proof (induction m)
  case (Cons e m)
  then show ?case using irrefl by (cases e) (auto simp: keys_ok_Cons)
qed simp

lemma keys_ok_take: "keys_ok m \<Longrightarrow> keys_ok (take n m)"
  using sorted_wrt_take [of before "map fst m" n]
  by (auto simp: keys_ok_def list_all_iff take_map dest: in_set_takeD)

end

end
