(* ===== verification/Order_Book.thy ===== *)
theory Order_Book
  imports Std_Map Trade
begin

text \<open>
  \<open>include/orderbook/order_book.hpp\<close>: the price-level book of one instrument and the
  consolidation of the books of several exchanges. Each side is a \<open>std::map\<close> from price to
  quantity, bids under \<open>std::greater\<close> and asks under \<open>std::less\<close>, so that \<open>begin()\<close> is the best
  price. The locks make every member function one step. A NaN price breaks the comparator
  contract of \<open>std::map\<close>; the theorems assume that none is passed.
\<close>

section \<open>One book\<close>

record BookLevel =
  lv_price :: double
  lv_quantity :: double

record BookSnapshot =
  bs_ticker :: string
  bs_bids :: "BookLevel list"
  bs_asks :: "BookLevel list"
  bs_timestamp_ns :: i64
  bs_sequence :: u64

type_synonym price_map = "(double \<times> double) list"

record OrderBook =
  ob_ticker :: string
  ob_bids :: price_map
  ob_asks :: price_map
  ob_timestamp_ns :: i64
  ob_sequence :: u64

definition new_OrderBook :: "string \<Rightarrow> OrderBook" where
  "new_OrderBook ticker =
     \<lparr>ob_ticker = ticker, ob_bids = [], ob_asks = [], ob_timestamp_ns = 0, ob_sequence = 0\<rparr>"

abbreviation (input) std_greater :: "double \<Rightarrow> double \<Rightarrow> bool" where
  "std_greater a b \<equiv> b < a"

abbreviation (input) std_less :: "double \<Rightarrow> double \<Rightarrow> bool" where
  "std_less a b \<equiv> a < b"

definition upsert_bid :: "double \<Rightarrow> double \<Rightarrow> OrderBook \<Rightarrow> OrderBook" where
  "upsert_bid price quantity b =
     (if price \<le> 0 then b
      else if quantity \<le> 0 then b\<lparr>ob_bids := map_erase std_greater price (ob_bids b)\<rparr>
      else b\<lparr>ob_bids := map_assign std_greater price quantity (ob_bids b)\<rparr>)"

definition upsert_ask :: "double \<Rightarrow> double \<Rightarrow> OrderBook \<Rightarrow> OrderBook" where
  "upsert_ask price quantity b =
     (if price \<le> 0 then b
      else if quantity \<le> 0 then b\<lparr>ob_asks := map_erase std_less price (ob_asks b)\<rparr>
      else b\<lparr>ob_asks := map_assign std_less price quantity (ob_asks b)\<rparr>)"

definition apply_delta ::
  "BookLevel list \<Rightarrow> BookLevel list \<Rightarrow> i64 \<Rightarrow> u64 \<Rightarrow> OrderBook \<Rightarrow> OrderBook" where
  "apply_delta bids asks timestamp_ns sequence b =
     (let b = fold (\<lambda>l. upsert_bid (lv_price l) (lv_quantity l)) bids b;
          b = fold (\<lambda>l. upsert_ask (lv_price l) (lv_quantity l)) asks b
      in b\<lparr>ob_timestamp_ns := timestamp_ns, ob_sequence := sequence\<rparr>)"

definition apply_snapshot ::
  "BookLevel list \<Rightarrow> BookLevel list \<Rightarrow> i64 \<Rightarrow> u64 \<Rightarrow> OrderBook \<Rightarrow> OrderBook" where
  "apply_snapshot bids asks timestamp_ns sequence b =
     (let b = b\<lparr>ob_bids := [], ob_asks := []\<rparr>;
          b = fold (\<lambda>l. upsert_bid (lv_price l) (lv_quantity l)) bids b;
          b = fold (\<lambda>l. upsert_ask (lv_price l) (lv_quantity l)) asks b
      in b\<lparr>ob_timestamp_ns := timestamp_ns, ob_sequence := sequence\<rparr>)"

definition best_quote :: "OrderBook \<Rightarrow> QuoteUpdate option" where
  "best_quote b =
     (case (ob_bids b, ob_asks b) of
        ((bp, bs) # _, (ap, az) # _) \<Rightarrow>
          Some \<lparr>q_ticker = copy_string 16 (ob_ticker b), q_bid_price = bp, q_bid_size = bs,
                q_ask_price = ap, q_ask_size = az, q_timestamp_ns = ob_timestamp_ns b\<rparr>
      | _ \<Rightarrow> None)"

text \<open>The copy loop of \<open>snapshot\<close>: it stops when \<open>count++ >= depth\<close>.\<close>

fun copy_levels :: "nat \<Rightarrow> nat \<Rightarrow> price_map \<Rightarrow> BookLevel list" where
  "copy_levels n depth [] = []"
| "copy_levels n depth ((price, quantity) # m) =
     (if depth \<le> n then []
      else \<lparr>lv_price = price, lv_quantity = quantity\<rparr> # copy_levels (n + 1) depth m)"

definition snapshot :: "nat \<Rightarrow> OrderBook \<Rightarrow> BookSnapshot" where
  "snapshot depth b =
     (let bid_depth = (if depth = 0 then length (ob_bids b) else min depth (length (ob_bids b)));
          ask_depth = (if depth = 0 then length (ob_asks b) else min depth (length (ob_asks b)))
      in \<lparr>bs_ticker = ob_ticker b, bs_bids = copy_levels 0 bid_depth (ob_bids b),
          bs_asks = copy_levels 0 ask_depth (ob_asks b), bs_timestamp_ns = ob_timestamp_ns b,
          bs_sequence = ob_sequence b\<rparr>)"

section \<open>Several exchanges\<close>

text \<open>
  A \<open>BookRef\<close> holds a pointer into \<open>books_\<close>; entries of \<open>books_\<close> are never erased, so the key
  of the entry stands for the pointer.
\<close>

record ConsolidatedQuote =
  cq_quote :: QuoteUpdate
  cq_bid_exchange :: string
  cq_ask_exchange :: string

record BookRef =
  ref_exchange :: string
  ref_book :: string

record MultiExchangeOrderBook =
  mx_books :: "string \<rightharpoonup> OrderBook"
  mx_book_index :: "string \<rightharpoonup> BookRef list"

definition new_MultiExchangeOrderBook :: MultiExchangeOrderBook where
  "new_MultiExchangeOrderBook = \<lparr>mx_books = Map.empty, mx_book_index = Map.empty\<rparr>"

definition book_key :: "string \<Rightarrow> string \<Rightarrow> string" where
  "book_key exchange ticker = exchange @ '':'' @ ticker"

definition book_for ::
  "string \<Rightarrow> string \<Rightarrow> MultiExchangeOrderBook \<Rightarrow> string \<times> MultiExchangeOrderBook" where
  "book_for exchange ticker m =
     (let key = book_key exchange ticker
      in case mx_books m key of
           Some _ \<Rightarrow> (key, m)
         | None \<Rightarrow>
             (key, m\<lparr>mx_books := (mx_books m)(key \<mapsto> new_OrderBook ticker),
                     mx_book_index := (mx_book_index m)(ticker \<mapsto>
                       (case mx_book_index m ticker of None \<Rightarrow> [] | Some refs \<Rightarrow> refs)
                       @ [\<lparr>ref_exchange = exchange, ref_book = key\<rparr>])\<rparr>))"

text \<open>A call on the returned reference changes the book of that entry.\<close>

definition update_book ::
  "string \<Rightarrow> string \<Rightarrow> (OrderBook \<Rightarrow> OrderBook) \<Rightarrow> MultiExchangeOrderBook \<Rightarrow> MultiExchangeOrderBook" where
  "update_book exchange ticker f m =
     (let (key, m) = book_for exchange ticker m
      in m\<lparr>mx_books := (mx_books m)(key := map_option f (mx_books m key))\<rparr>)"

definition merge_quote ::
  "string \<Rightarrow> QuoteUpdate \<Rightarrow> ConsolidatedQuote option \<Rightarrow> ConsolidatedQuote" where
  "merge_quote exchange quote best =
     (case best of
        None \<Rightarrow> \<lparr>cq_quote = quote, cq_bid_exchange = exchange, cq_ask_exchange = exchange\<rparr>
      | Some best \<Rightarrow>
          let best = (if q_bid_price (cq_quote best) < q_bid_price quote
                      then best\<lparr>cq_quote := (cq_quote best)\<lparr>q_bid_price := q_bid_price quote,
                                                         q_bid_size := q_bid_size quote\<rparr>,
                                cq_bid_exchange := exchange\<rparr>
                      else best);
              best = (if q_ask_price quote < q_ask_price (cq_quote best)
                      then best\<lparr>cq_quote := (cq_quote best)\<lparr>q_ask_price := q_ask_price quote,
                                                         q_ask_size := q_ask_size quote\<rparr>,
                                cq_ask_exchange := exchange\<rparr>
                      else best)
          in best\<lparr>cq_quote := (cq_quote best)\<lparr>q_timestamp_ns :=
                    max (q_timestamp_ns (cq_quote best)) (q_timestamp_ns quote)\<rparr>\<rparr>)"

fun scan_books ::
  "(string \<rightharpoonup> OrderBook) \<Rightarrow> BookRef list \<Rightarrow> ConsolidatedQuote option \<Rightarrow> ConsolidatedQuote option" where
  "scan_books books [] best = best"
| "scan_books books (ref # refs) best =
     (case Option.bind (books (ref_book ref)) best_quote of
        None \<Rightarrow> scan_books books refs best
      | Some quote \<Rightarrow> scan_books books refs (Some (merge_quote (ref_exchange ref) quote best)))"

definition multi_best_quote :: "string \<Rightarrow> MultiExchangeOrderBook \<Rightarrow> ConsolidatedQuote option" where
  "multi_best_quote ticker m =
     (case mx_book_index m ticker of
        None \<Rightarrow> None
      | Some refs \<Rightarrow> scan_books (mx_books m) refs None)"

section \<open>The book as a pair of finite maps\<close>

text \<open>
  What one level of an update means: a price that is not positive is ignored, a quantity that is
  not positive removes the price, any other sets it.
\<close>

definition side_update :: "BookLevel \<Rightarrow> (double \<rightharpoonup> double) \<Rightarrow> (double \<rightharpoonup> double)" where
  "side_update l m =
     (if lv_price l \<le> 0 then m
      else if lv_quantity l \<le> 0 then m(lv_price l := None)
      else m(lv_price l \<mapsto> lv_quantity l))"

definition side_upsert :: "(double \<Rightarrow> double \<Rightarrow> bool) \<Rightarrow> BookLevel \<Rightarrow> price_map \<Rightarrow> price_map" where
  "side_upsert before l m =
     (if lv_price l \<le> 0 then m
      else if lv_quantity l \<le> 0 then map_erase before (lv_price l) m
      else map_assign before (lv_price l) (lv_quantity l) m)"

definition side_ok :: "(double \<Rightarrow> double \<Rightarrow> bool) \<Rightarrow> price_map \<Rightarrow> bool" where
  "side_ok before m \<longleftrightarrow> map_keys_ok before (\<lambda>p. p \<noteq> NaN) m
     \<and> list_all (\<lambda>(p, q). 0 < p \<and> \<not> q \<le> 0) m"

definition levels_ok :: "BookLevel list \<Rightarrow> bool" where
  "levels_ok ls \<longleftrightarrow> list_all (\<lambda>l. lv_price l \<noteq> NaN) ls"

locale price_order = key_order before "\<lambda>p. p \<noteq> NaN" for before :: "double \<Rightarrow> double \<Rightarrow> bool"
begin

lemma set_upsert:
  "x \<in> set (map_assign before k v m) \<Longrightarrow> x \<in> set m \<or> (snd x = v \<and> (fst x = k \<or> fst x \<in> fst ` set m))"
  by (induction m) (auto split: if_splits)

lemma side_ok_upsert: "side_ok before m \<Longrightarrow> lv_price l \<noteq> NaN \<Longrightarrow> side_ok before (side_upsert before l m)"
  using keys_ok_assign [of m "lv_price l" "lv_quantity l"] keys_ok_erase [of m "lv_price l"]
    set_upsert [of _ "lv_price l" "lv_quantity l" m] set_erase [of _ "lv_price l" m]
    double_not_le [of "lv_price l" 0]
  by (fastforce simp: side_ok_def side_upsert_def list_all_iff zero_double_def)

lemma side_upsert_lookup:
  "side_ok before m \<Longrightarrow> lv_price l \<noteq> NaN \<Longrightarrow> map_of (side_upsert before l m) = side_update l (map_of m)"
  by (simp add: side_ok_def side_upsert_def side_update_def assign_lookup erase_lookup)

lemma side_upserts:
  "side_ok before m \<Longrightarrow> levels_ok ls \<Longrightarrow>
   side_ok before (fold (side_upsert before) ls m) \<and>
   map_of (fold (side_upsert before) ls m) = fold side_update ls (map_of m)"
proof (induction ls arbitrary: m)
  case (Cons l ls)
  then have "side_ok before (side_upsert before l m)" "levels_ok ls" "lv_price l \<noteq> NaN"
    by (simp_all add: side_ok_upsert levels_ok_def)
  with Cons.IH [of "side_upsert before l m"] Cons.prems show ?case
    by (simp add: side_upsert_lookup)
qed simp

lemma side_ok_Nil [simp]: "side_ok before []"
  by (simp add: side_ok_def)

lemma side_best:
  "side_ok before ((p, q) # m) \<Longrightarrow> p' \<in> dom (map_of ((p, q) # m)) \<Longrightarrow> p' = p \<or> before p p'"
  by (fastforce simp: side_ok_def keys_ok_Cons dest: map_of_SomeD)

text \<open>Replaying the levels of a well-formed side, best first, rebuilds that side.\<close>

lemma side_rebuild:
  "side_ok before m \<Longrightarrow>
   fold side_update (map (\<lambda>(p, q). \<lparr>lv_price = p, lv_quantity = q\<rparr>) m) M = M ++ map_of m"
proof (induction m arbitrary: M)
  case (Cons e m)
  obtain p q where [simp]: "e = (p, q)" by (cases e)
  have ok: "side_ok before m" "0 < p" "\<not> q \<le> 0" "map_of m p = None"
    using Cons.prems lookup_head [of p q m] by (auto simp: side_ok_def keys_ok_Cons)
  then have "side_update \<lparr>lv_price = p, lv_quantity = q\<rparr> M = M(p \<mapsto> q)"
    by (simp add: side_update_def double_less_le)
  then have "fold side_update (map (\<lambda>(p, q). \<lparr>lv_price = p, lv_quantity = q\<rparr>) (e # m)) M
      = fold side_update (map (\<lambda>(p, q). \<lparr>lv_price = p, lv_quantity = q\<rparr>) m) (M(p \<mapsto> q))"
    by simp
  also have "\<dots> = M(p \<mapsto> q) ++ map_of m" by (rule Cons.IH [OF ok(1)])
  also have "\<dots> = M ++ map_of (e # m)"
    using ok by (auto simp: fun_eq_iff map_add_def split: option.splits)
  finally show ?case .
qed simp

lemma side_eqI: "side_ok before m \<Longrightarrow> side_ok before m' \<Longrightarrow> map_of m = map_of m' \<Longrightarrow> m = m'"
  by (simp add: side_ok_def keys_ok_eqI)

end

interpretation bids: price_order std_greater
  by unfold_locales (auto intro: double_less_trans elim: double_cases3)

interpretation asks: price_order std_less
  by unfold_locales (auto intro: double_less_trans elim: double_cases3)

definition book_inv :: "OrderBook \<Rightarrow> bool" where
  "book_inv b \<longleftrightarrow> side_ok std_greater (ob_bids b) \<and> side_ok std_less (ob_asks b)"

lemma fold_upsert_bid:
  "fold (\<lambda>l. upsert_bid (lv_price l) (lv_quantity l)) ls b
   = b\<lparr>ob_bids := fold (side_upsert std_greater) ls (ob_bids b)\<rparr>"
  by (induction ls arbitrary: b) (simp_all add: upsert_bid_def side_upsert_def)

lemma fold_upsert_ask:
  "fold (\<lambda>l. upsert_ask (lv_price l) (lv_quantity l)) ls b
   = b\<lparr>ob_asks := fold (side_upsert std_less) ls (ob_asks b)\<rparr>"
  by (induction ls arbitrary: b) (simp_all add: upsert_ask_def side_upsert_def)

lemmas book_updates = apply_delta_def apply_snapshot_def Let_def fold_upsert_bid fold_upsert_ask

lemma new_book_inv [inv_intros]: "book_inv (new_OrderBook t)"
  by (simp add: book_inv_def new_OrderBook_def)

lemma apply_delta_inv [inv_intros]:
  "book_inv b \<Longrightarrow> levels_ok bs \<Longrightarrow> levels_ok as \<Longrightarrow> book_inv (apply_delta bs as ts s b)"
  by (simp add: book_inv_def book_updates bids.side_upserts asks.side_upserts)

lemma apply_snapshot_inv [inv_intros]:
  "levels_ok bs \<Longrightarrow> levels_ok as \<Longrightarrow> book_inv (apply_snapshot bs as ts s b)"
  by (simp add: book_inv_def book_updates bids.side_upserts asks.side_upserts)

text \<open>Every sequence of updates, as the market data client applies them.\<close>

datatype book_op =
    Snapshot "BookLevel list" "BookLevel list" i64 u64
  | Delta "BookLevel list" "BookLevel list" i64 u64

fun run_op :: "book_op \<Rightarrow> OrderBook \<Rightarrow> OrderBook" where
  "run_op (Snapshot bs as ts s) = apply_snapshot bs as ts s"
| "run_op (Delta bs as ts s) = apply_delta bs as ts s"

fun op_ok :: "book_op \<Rightarrow> bool" where
  "op_ok (Snapshot bs as ts s) \<longleftrightarrow> levels_ok bs \<and> levels_ok as"
| "op_ok (Delta bs as ts s) \<longleftrightarrow> levels_ok bs \<and> levels_ok as"

definition run_book :: "book_op list \<Rightarrow> OrderBook \<Rightarrow> OrderBook" where
  "run_book = fold run_op"

fun side_run :: "bool \<Rightarrow> book_op \<Rightarrow> (double \<rightharpoonup> double) \<Rightarrow> (double \<rightharpoonup> double)" where
  "side_run bid (Snapshot bs as ts s) m = fold side_update (if bid then bs else as) Map.empty"
| "side_run bid (Delta bs as ts s) m = fold side_update (if bid then bs else as) m"

lemma run_op_inv [inv_intros]: "book_inv b \<Longrightarrow> op_ok x \<Longrightarrow> book_inv (run_op x b)"
  by (cases x) (simp_all add: inv_intros)

lemma run_op_refines:
  "book_inv b \<Longrightarrow> op_ok x \<Longrightarrow>
   map_of (ob_bids (run_op x b)) = side_run True x (map_of (ob_bids b)) \<and>
   map_of (ob_asks (run_op x b)) = side_run False x (map_of (ob_asks b))"
  by (cases x) (simp_all add: book_inv_def book_updates bids.side_upserts asks.side_upserts)

lemma run_book_inv [inv_intros]: "book_inv b \<Longrightarrow> list_all op_ok ops \<Longrightarrow> book_inv (run_book ops b)"
  unfolding run_book_def by (induction ops arbitrary: b) (simp_all add: inv_intros)

lemma run_book_refines:
  "book_inv b \<Longrightarrow> list_all op_ok ops \<Longrightarrow>
   map_of (ob_bids (run_book ops b)) = fold (side_run True) ops (map_of (ob_bids b)) \<and>
   map_of (ob_asks (run_book ops b)) = fold (side_run False) ops (map_of (ob_asks b))"
  unfolding run_book_def
proof (induction ops arbitrary: b)
  case (Cons x ops)
  then show ?case using run_op_refines [of b x] by (simp add: inv_intros)
qed simp

lemma best_quote_None: "best_quote b = None \<longleftrightarrow> ob_bids b = [] \<or> ob_asks b = []"
  by (simp add: best_quote_def split: list.splits prod.splits)

lemma best_quote_Some:
  assumes "book_inv b" and "best_quote b = Some q"
  shows "map_of (ob_bids b) (q_bid_price q) = Some (q_bid_size q)"
    and "map_of (ob_asks b) (q_ask_price q) = Some (q_ask_size q)"
    and "p \<in> dom (map_of (ob_bids b)) \<Longrightarrow> p \<le> q_bid_price q"
    and "p \<in> dom (map_of (ob_asks b)) \<Longrightarrow> q_ask_price q \<le> p"
    and "0 < q_bid_price q" and "0 < q_ask_price q"
proof -
  from assms(2) obtain bp bs ms ap az ns where b: "ob_bids b = (bp, bs) # ms" "ob_asks b = (ap, az) # ns"
    and q: "q_bid_price q = bp" "q_bid_size q = bs" "q_ask_price q = ap" "q_ask_size q = az"
    by (auto simp: best_quote_def split: list.splits)
  have ok: "side_ok std_greater ((bp, bs) # ms)" "side_ok std_less ((ap, az) # ns)"
    using assms(1) b by (simp_all add: book_inv_def)
  then have pos: "0 < bp" "0 < ap" by (simp_all add: side_ok_def)
  then have nan: "bp \<noteq> NaN" "ap \<noteq> NaN" by auto
  show "map_of (ob_bids b) (q_bid_price q) = Some (q_bid_size q)"
    "map_of (ob_asks b) (q_ask_price q) = Some (q_ask_size q)"
    "0 < q_bid_price q" "0 < q_ask_price q" using b q pos by simp_all
  show "p \<in> dom (map_of (ob_bids b)) \<Longrightarrow> p \<le> q_bid_price q"
    using bids.side_best [OF ok(1), of p] nan b q by (auto simp: double_less_le)
  show "p \<in> dom (map_of (ob_asks b)) \<Longrightarrow> q_ask_price q \<le> p"
    using asks.side_best [OF ok(2), of p] nan b q by (auto simp: double_less_le)
qed

text \<open>
  (C22) After any sequence of snapshots and deltas the two sides are the finite maps the updates
  describe, and \<open>best_quote\<close> is the highest bid and the lowest ask with their quantities;
  it is absent only when a side is empty.
\<close>

theorem order_book_best_quote:
  fixes ticker :: string
  assumes "list_all op_ok ops"
  defines "b \<equiv> run_book ops (new_OrderBook ticker)"
    and "bids \<equiv> fold (side_run True) ops Map.empty"
    and "asks \<equiv> fold (side_run False) ops Map.empty"
  shows "case best_quote b of
      None \<Rightarrow> bids = Map.empty \<or> asks = Map.empty
    | Some q \<Rightarrow> bids (q_bid_price q) = Some (q_bid_size q) \<and> (\<forall>p \<in> dom bids. p \<le> q_bid_price q)
        \<and> asks (q_ask_price q) = Some (q_ask_size q) \<and> (\<forall>p \<in> dom asks. q_ask_price q \<le> p)
        \<and> 0 < q_bid_price q \<and> 0 < q_ask_price q"
proof -
  have inv: "book_inv b" using assms by (simp add: inv_intros)
  have m: "map_of (ob_bids b) = bids" "map_of (ob_asks b) = asks"
    using run_book_refines [OF new_book_inv assms(1), of ticker] assms by (simp_all add: new_OrderBook_def)
  show ?thesis
  proof (cases "best_quote b")
    case None
    then have "bids = Map.empty \<or> asks = Map.empty" using m by (auto simp: best_quote_None)
    with None show ?thesis by simp
  next
    case (Some q)
    then show ?thesis using best_quote_Some [OF inv Some] m by simp
  qed
qed

theorem order_book_best_quote_witness:
  "let b = \<lambda>l. (case l of (p, q) \<Rightarrow> \<lparr>lv_price = Fin p, lv_quantity = Fin q\<rparr>);
       ops = [Snapshot [b (100, 2), b (101, 1)] [b (103, 4), b (102, 3)] 7 1,
              Delta [b (101, 0), b (99, 5)] [b (104, 1)] 8 2]
   in list_all op_ok ops
      \<and> best_quote (run_book ops (new_OrderBook ''BTC_USDT''))
        = Some \<lparr>q_ticker = ''BTC_USDT'', q_bid_price = Fin 100, q_bid_size = Fin 2,
                q_ask_price = Fin 102, q_ask_size = Fin 3, q_timestamp_ns = 8\<rparr>
      \<and> (\<forall>p \<in> dom (fold (side_run True) ops Map.empty). p \<le> Fin 100)"
proof -
  define b :: "rat \<times> rat \<Rightarrow> BookLevel" where "b = (\<lambda>(p, q). \<lparr>lv_price = Fin p, lv_quantity = Fin q\<rparr>)"
  define ops where "ops = [Snapshot [b (100, 2), b (101, 1)] [b (103, 4), b (102, 3)] 7 1,
    Delta [b (101, 0), b (99, 5)] [b (104, 1)] 8 2]"
  have ok: "list_all op_ok ops" unfolding ops_def b_def by code_simp
  have best: "best_quote (run_book ops (new_OrderBook ''BTC_USDT''))
      = Some \<lparr>q_ticker = ''BTC_USDT'', q_bid_price = Fin 100, q_bid_size = Fin 2,
              q_ask_price = Fin 102, q_ask_size = Fin 3, q_timestamp_ns = 8\<rparr>"
    unfolding ops_def b_def by code_simp
  show ?thesis
    using order_book_best_quote [OF ok, of "''BTC_USDT''"] ok best
    unfolding Let_def ops_def b_def by simp
qed

section \<open>Snapshots\<close>

lemma copy_levels_take:
  "copy_levels n depth m = map (\<lambda>(p, q). \<lparr>lv_price = p, lv_quantity = q\<rparr>) (take (depth - n) m)"
proof (induction n depth m rule: copy_levels.induct)
  case (2 n depth price quantity m)
  then show ?case by (cases "depth \<le> n") (simp_all add: Suc_diff_Suc [symmetric])
qed simp

abbreviation levels_of :: "price_map \<Rightarrow> BookLevel list" where
  "levels_of m \<equiv> map (\<lambda>(p, q). \<lparr>lv_price = p, lv_quantity = q\<rparr>) m"

lemma levels_of_ok: "side_ok before m \<Longrightarrow> levels_ok (levels_of m)"
  by (auto simp: levels_ok_def side_ok_def map_keys_ok_def list_all_iff)

lemma rebuild_bids:
  "side_ok std_greater m \<Longrightarrow> fold (side_upsert std_greater) (levels_of m) [] = m"
  using bids.side_upserts [of "[]" "levels_of m"] bids.side_rebuild [of m Map.empty]
  by (simp add: bids.side_eqI levels_of_ok)

lemma rebuild_asks:
  "side_ok std_less m \<Longrightarrow> fold (side_upsert std_less) (levels_of m) [] = m"
  using asks.side_upserts [of "[]" "levels_of m"] asks.side_rebuild [of m Map.empty]
  by (simp add: asks.side_eqI levels_of_ok)

text \<open>
  A full snapshot determines the book: applied to any book of the same instrument it yields
  the book it was taken from; and a snapshot of limited depth lists the best levels only, each
  level it leaves out being worse than every level it has.
\<close>

theorem snapshot_roundtrip:
  fixes ticker :: string and b' :: OrderBook
  assumes "list_all op_ok ops" and "ob_ticker b' = ticker"
  defines "b \<equiv> run_book ops (new_OrderBook ticker)"
  shows "(let s = snapshot 0 b
          in apply_snapshot (bs_bids s) (bs_asks s) (bs_timestamp_ns s) (bs_sequence s) b' = b) \<and>
         (0 < depth \<longrightarrow>
            (\<forall>l \<in> set (bs_bids (snapshot depth b)).
               \<forall>p \<in> dom (map_of (ob_bids b)) - lv_price ` set (bs_bids (snapshot depth b)). p < lv_price l) \<and>
            length (bs_bids (snapshot depth b)) = min depth (length (ob_bids b)))"
proof -
  have inv: "book_inv b" using assms by (simp add: inv_intros)
  have t: "ob_ticker b = ticker"
    unfolding b_def run_book_def
  proof (induction ops rule: rev_induct)
    case (snoc x xs)
    then show ?case by (cases x) (simp_all add: book_updates)
  qed (simp add: new_OrderBook_def)
  have ok: "side_ok std_greater (ob_bids b)" "side_ok std_less (ob_asks b)"
    using inv by (simp_all add: book_inv_def)
  have "p < lv_price l" if "0 < depth" "l \<in> set (bs_bids (snapshot depth b))"
    "p \<in> dom (map_of (ob_bids b)) - lv_price ` set (bs_bids (snapshot depth b))" for p l
  proof -
    let ?m = "ob_bids b"
    have s: "bs_bids (snapshot depth b) = levels_of (take depth ?m)"
      using that(1) by (simp add: snapshot_def copy_levels_take Let_def min_def)
    from that(2) have l: "lv_price l \<in> set (map fst (take depth ?m))" by (force simp: s)
    from that(3) have "p \<in> fst ` set ?m" by (auto simp: dom_map_of_conv_image_fst)
    moreover have "p \<notin> fst ` set (take depth ?m)" using that(3) by (force simp: s)
    ultimately have p: "p \<in> set (map fst (drop depth ?m))"
      using set_append [of "take depth ?m" "drop depth ?m"] by (auto simp: image_iff)
    have "sorted_wrt std_greater (map fst (take depth ?m) @ map fst (drop depth ?m))"
      using ok(1) by (simp add: side_ok_def map_keys_ok_def flip: map_append)
    with l p show ?thesis unfolding sorted_wrt_append by blast
  qed
  moreover have "(let s = snapshot 0 b
      in apply_snapshot (bs_bids s) (bs_asks s) (bs_timestamp_ns s) (bs_sequence s) b' = b)"
    using ok t assms(2)
    by (simp add: snapshot_def copy_levels_take book_updates rebuild_bids rebuild_asks)
  ultimately show ?thesis by (auto simp: snapshot_def copy_levels_take Let_def)
qed

theorem snapshot_roundtrip_witness:
  "let b = \<lambda>l. (case l of (p, q) \<Rightarrow> \<lparr>lv_price = Fin p, lv_quantity = Fin q\<rparr>);
       ops = [Delta [b (100, 2), b (101, 1), b (99, 1)] [b (103, 4)] 7 1];
       bk = run_book ops (new_OrderBook ''X'');
       s = snapshot 0 bk
   in list_all op_ok ops \<and> bs_bids (snapshot 2 bk) = [b (101, 1), b (100, 2)]
      \<and> apply_snapshot (bs_bids s) (bs_asks s) (bs_timestamp_ns s) (bs_sequence s) (new_OrderBook ''X'') = bk"
proof -
  define b :: "rat \<times> rat \<Rightarrow> BookLevel" where "b = (\<lambda>(p, q). \<lparr>lv_price = Fin p, lv_quantity = Fin q\<rparr>)"
  define ops where "ops = [Delta [b (100, 2), b (101, 1), b (99, 1)] [b (103, 4)] 7 1]"
  have ok: "list_all op_ok ops" unfolding ops_def b_def by code_simp
  have two: "bs_bids (snapshot 2 (run_book ops (new_OrderBook ''X''))) = [b (101, 1), b (100, 2)]"
    unfolding ops_def b_def by code_simp
  have t: "ob_ticker (new_OrderBook ''X'') = ''X''" by (simp add: new_OrderBook_def)
  show ?thesis
    using conjunct1 [OF snapshot_roundtrip [OF ok t, of 2]] ok two
    unfolding Let_def ops_def b_def by (intro conjI)
qed

section \<open>Consolidation\<close>

text \<open>
  The specification keeps one book per exchange and instrument, each built from the updates for
  that pair alone.
\<close>

type_synonym venue_op = "string \<times> string \<times> book_op"

definition run_multi :: "venue_op list \<Rightarrow> MultiExchangeOrderBook" where
  "run_multi ops = fold (\<lambda>(e, t, x). update_book e t (run_op x)) ops new_MultiExchangeOrderBook"

definition venue_ops :: "venue_op list \<Rightarrow> string \<Rightarrow> string \<Rightarrow> book_op list" where
  "venue_ops ops e t = map (snd \<circ> snd) (filter (\<lambda>(e', t', _). e' = e \<and> t' = t) ops)"

definition venue_book :: "venue_op list \<Rightarrow> string \<Rightarrow> string \<Rightarrow> OrderBook" where
  "venue_book ops e t = run_book (venue_ops ops e t) (new_OrderBook t)"

definition venue_op_ok :: "venue_op \<Rightarrow> bool" where
  "venue_op_ok v \<longleftrightarrow> CHR '':'' \<notin> set (fst v) \<and> op_ok (snd (snd v))"

definition refs_for :: "MultiExchangeOrderBook \<Rightarrow> string \<Rightarrow> BookRef list" where
  "refs_for m t = (case mx_book_index m t of None \<Rightarrow> [] | Some refs \<Rightarrow> refs)"

lemma book_key_inject:
  assumes "CHR '':'' \<notin> set e" and "CHR '':'' \<notin> set e'"
  shows "book_key e t = book_key e' t' \<longleftrightarrow> e = e' \<and> t = t'"
proof
  assume "book_key e t = book_key e' t'"
  then have eq: "e @ CHR '':'' # t = e' @ CHR '':'' # t'" by (simp add: book_key_def)
  have tw: "takeWhile (\<lambda>c. c \<noteq> CHR '':'') (x @ CHR '':'' # y) = x" if "CHR '':'' \<notin> set x" for x y
    using that by (induction x) auto
  from tw [OF assms(1), of t] tw [OF assms(2), of t'] eq have "e = e'" by metis
  with eq show "e = e' \<and> t = t'" by simp
qed (simp add: book_key_def)

lemma run_multi_snoc:
  "run_multi (ops @ [(e, t, x)]) = update_book e t (run_op x) (run_multi ops)"
  by (simp add: run_multi_def)

lemma venue_ops_snoc:
  "venue_ops (ops @ [(e', t', x)]) e t = venue_ops ops e t @ (if e' = e \<and> t' = t then [x] else [])"
  by (simp add: venue_ops_def)

lemma update_book_books:
  "mx_books (update_book e t f m) k =
     (if k = book_key e t
      then Some (f (case mx_books m k of Some b \<Rightarrow> b | None \<Rightarrow> new_OrderBook t))
      else mx_books m k)"
  by (simp add: update_book_def book_for_def Let_def split: option.splits)

lemma update_book_refs:
  "refs_for (update_book e t f m) t' =
     refs_for m t' @ (if t' = t \<and> mx_books m (book_key e t) = None
                      then [\<lparr>ref_exchange = e, ref_book = book_key e t\<rparr>] else [])"
  by (simp add: refs_for_def update_book_def book_for_def Let_def split: option.splits)

lemma run_multi_books:
  assumes "list_all venue_op_ok ops" and "CHR '':'' \<notin> set e"
  shows "mx_books (run_multi ops) (book_key e t)
    = (if venue_ops ops e t = [] then None else Some (venue_book ops e t))"
  using assms(1)
proof (induction ops rule: rev_induct)
  case Nil
  then show ?case by (simp add: run_multi_def new_MultiExchangeOrderBook_def venue_ops_def)
next
  case (snoc v ops)
  obtain e' t' x where v: "v = (e', t', x)" by (cases v)
  have "book_key e t = book_key e' t' \<longleftrightarrow> e' = e \<and> t' = t"
    using snoc.prems assms(2) v book_key_inject [of e e' t t'] by (auto simp: venue_op_ok_def)
  moreover have "run_book [] b = b" for b by (simp add: run_book_def)
  ultimately show ?case
    using snoc by (auto simp: v run_multi_snoc update_book_books venue_ops_snoc venue_book_def run_book_def)
qed

lemma run_multi_refs:
  assumes "list_all venue_op_ok ops"
  shows "ref \<in> set (refs_for (run_multi ops) t)
    \<longleftrightarrow> venue_ops ops (ref_exchange ref) t \<noteq> []
        \<and> ref = \<lparr>ref_exchange = ref_exchange ref, ref_book = book_key (ref_exchange ref) t\<rparr>"
  using assms
proof (induction ops rule: rev_induct)
  case Nil
  then show ?case by (simp add: run_multi_def new_MultiExchangeOrderBook_def venue_ops_def refs_for_def)
next
  case (snoc v ops)
  obtain e' t' x where v: "v = (e', t', x)" by (cases v)
  have "mx_books (run_multi ops) (book_key e' t') = None \<longleftrightarrow> venue_ops ops e' t' = []"
  proof -
    have "list_all venue_op_ok ops" "CHR '':'' \<notin> set e'"
      using snoc.prems by (simp_all add: v venue_op_ok_def [of "(e', t', x)"])
    then show ?thesis by (simp add: run_multi_books)
  qed
  then show ?case
    using snoc by (cases ref) (auto simp: v run_multi_snoc update_book_refs venue_ops_snoc)
qed

text \<open>What a consolidated quote says of a set of quotes, each with its exchange.\<close>

definition consolidates :: "(string \<times> QuoteUpdate) set \<Rightarrow> ConsolidatedQuote \<Rightarrow> bool" where
  "consolidates Q c \<longleftrightarrow>
     (\<exists>q. (cq_bid_exchange c, q) \<in> Q \<and> q_bid_price q = q_bid_price (cq_quote c)
          \<and> q_bid_size q = q_bid_size (cq_quote c)) \<and>
     (\<exists>q. (cq_ask_exchange c, q) \<in> Q \<and> q_ask_price q = q_ask_price (cq_quote c)
          \<and> q_ask_size q = q_ask_size (cq_quote c)) \<and>
     (\<exists>e q. (e, q) \<in> Q \<and> q_timestamp_ns q = q_timestamp_ns (cq_quote c)) \<and>
     (\<forall>e q. (e, q) \<in> Q \<longrightarrow> q_bid_price q \<le> q_bid_price (cq_quote c)
          \<and> q_ask_price (cq_quote c) \<le> q_ask_price q
          \<and> q_timestamp_ns q \<le> q_timestamp_ns (cq_quote c))"

lemma consolidates_single:
  "q_bid_price q \<noteq> NaN \<Longrightarrow> q_ask_price q \<noteq> NaN \<Longrightarrow> consolidates {(e, q)} (merge_quote e q None)"
  by (simp add: consolidates_def merge_quote_def)

lemma consolidates_merge:
  assumes "consolidates Q c" and q: "q_bid_price q \<noteq> NaN" "q_ask_price q \<noteq> NaN"
    and c: "q_bid_price (cq_quote c) \<noteq> NaN" "q_ask_price (cq_quote c) \<noteq> NaN"
  shows "consolidates (insert (e, q) Q) (merge_quote e q (Some c))"
proof -
  let ?m = "merge_quote e q (Some c)"
  let ?b = "q_bid_price (cq_quote c)" and ?a = "q_ask_price (cq_quote c)"
  have bid: "q_bid_price (cq_quote ?m) = (if ?b < q_bid_price q then q_bid_price q else ?b)"
    "q_bid_size (cq_quote ?m) = (if ?b < q_bid_price q then q_bid_size q else q_bid_size (cq_quote c))"
    "cq_bid_exchange ?m = (if ?b < q_bid_price q then e else cq_bid_exchange c)"
    by (simp_all add: merge_quote_def Let_def)
  have ask: "q_ask_price (cq_quote ?m) = (if q_ask_price q < ?a then q_ask_price q else ?a)"
    "q_ask_size (cq_quote ?m) = (if q_ask_price q < ?a then q_ask_size q else q_ask_size (cq_quote c))"
    "cq_ask_exchange ?m = (if q_ask_price q < ?a then e else cq_ask_exchange c)"
    by (simp_all add: merge_quote_def Let_def)
  have ts: "q_timestamp_ns (cq_quote ?m) = max (q_timestamp_ns (cq_quote c)) (q_timestamp_ns q)"
    by (simp add: merge_quote_def Let_def)
  have le: "?b \<le> q_bid_price (cq_quote ?m)" "q_bid_price q \<le> q_bid_price (cq_quote ?m)"
    "q_ask_price (cq_quote ?m) \<le> ?a" "q_ask_price (cq_quote ?m) \<le> q_ask_price q"
    using q c double_not_less [of ?b "q_bid_price q"] double_not_less [of "q_ask_price q" ?a]
    by (auto simp: bid ask intro: double_less_imp_le)
  from assms(1) obtain q1 q2 e3 q3 where
    ex: "(cq_bid_exchange c, q1) \<in> Q" "q_bid_price q1 = ?b" "q_bid_size q1 = q_bid_size (cq_quote c)"
      "(cq_ask_exchange c, q2) \<in> Q" "q_ask_price q2 = ?a" "q_ask_size q2 = q_ask_size (cq_quote c)"
      "(e3, q3) \<in> Q" "q_timestamp_ns q3 = q_timestamp_ns (cq_quote c)"
    and all: "\<And>e q. (e, q) \<in> Q \<Longrightarrow> q_bid_price q \<le> ?b \<and> ?a \<le> q_ask_price q
        \<and> q_timestamp_ns q \<le> q_timestamp_ns (cq_quote c)"
    by (auto simp: consolidates_def)
  have "\<exists>q'. (cq_bid_exchange ?m, q') \<in> insert (e, q) Q \<and> q_bid_price q' = q_bid_price (cq_quote ?m)
      \<and> q_bid_size q' = q_bid_size (cq_quote ?m)"
    using ex by (auto simp: bid)
  moreover have "\<exists>q'. (cq_ask_exchange ?m, q') \<in> insert (e, q) Q \<and> q_ask_price q' = q_ask_price (cq_quote ?m)
      \<and> q_ask_size q' = q_ask_size (cq_quote ?m)"
    using ex by (auto simp: ask)
  moreover have "\<exists>e' q'. (e', q') \<in> insert (e, q) Q \<and> q_timestamp_ns q' = q_timestamp_ns (cq_quote ?m)"
    using ex by (auto simp: ts max_def)
  moreover have "q_bid_price q' \<le> q_bid_price (cq_quote ?m) \<and> q_ask_price (cq_quote ?m) \<le> q_ask_price q'
      \<and> q_timestamp_ns q' \<le> q_timestamp_ns (cq_quote ?m)" if "(e', q') \<in> insert (e, q) Q" for e' q'
    using that all [of e' q'] le ts by (auto intro: double_le_trans)
  ultimately show ?thesis unfolding consolidates_def by blast
qed

lemma consolidates_no_nan:
  "consolidates Q c \<Longrightarrow> (\<And>e q. (e, q) \<in> Q \<Longrightarrow> q_bid_price q \<noteq> NaN \<and> q_ask_price q \<noteq> NaN) \<Longrightarrow>
   q_bid_price (cq_quote c) \<noteq> NaN \<and> q_ask_price (cq_quote c) \<noteq> NaN"
  unfolding consolidates_def by metis

definition ref_quotes :: "(string \<rightharpoonup> OrderBook) \<Rightarrow> BookRef list \<Rightarrow> (string \<times> QuoteUpdate) set" where
  "ref_quotes books refs =
     {(ref_exchange r, q) | r q. r \<in> set refs \<and> Option.bind (books (ref_book r)) best_quote = Some q}"

lemma ref_quotes_Cons:
  "ref_quotes books (r # refs) =
     (case Option.bind (books (ref_book r)) best_quote of
        None \<Rightarrow> {} | Some q \<Rightarrow> {(ref_exchange r, q)}) \<union> ref_quotes books refs"
  by (auto simp: ref_quotes_def split: option.splits)

lemma scan_books_Some:
  assumes "consolidates Q c" and "\<forall>(e, q) \<in> Q \<union> ref_quotes books refs. q_bid_price q \<noteq> NaN \<and> q_ask_price q \<noteq> NaN"
  shows "\<exists>c'. scan_books books refs (Some c) = Some c' \<and> consolidates (Q \<union> ref_quotes books refs) c'"
  using assms
proof (induction refs arbitrary: Q c)
  case Nil
  then show ?case by (simp add: ref_quotes_def)
next
  case (Cons r refs)
  show ?case
  proof (cases "Option.bind (books (ref_book r)) best_quote")
    case None
    with Cons.IH [of Q c] Cons.prems show ?thesis by (simp add: ref_quotes_Cons)
  next
    case (Some q)
    let ?Q = "insert (ref_exchange r, q) Q"
    have "consolidates ?Q (merge_quote (ref_exchange r) q (Some c))"
      using Cons.prems Some consolidates_no_nan [OF Cons.prems(1)]
      by (intro consolidates_merge) (auto simp: ref_quotes_Cons)
    from Cons.IH [OF this] Cons.prems Some show ?thesis by (simp add: ref_quotes_Cons)
  qed
qed

lemma scan_books_None:
  assumes "\<forall>(e, q) \<in> ref_quotes books refs. q_bid_price q \<noteq> NaN \<and> q_ask_price q \<noteq> NaN"
  shows "case scan_books books refs None of
      None \<Rightarrow> ref_quotes books refs = {} | Some c \<Rightarrow> consolidates (ref_quotes books refs) c"
  using assms
proof (induction refs)
  case Nil
  then show ?case by (simp add: ref_quotes_def)
next
  case (Cons r refs)
  show ?case
  proof (cases "Option.bind (books (ref_book r)) best_quote")
    case None
    then have "ref_quotes books (r # refs) = ref_quotes books refs" by (simp add: ref_quotes_Cons)
    with Cons None show ?thesis by (simp split: option.splits)
  next
    case (Some q)
    then have "consolidates {(ref_exchange r, q)} (merge_quote (ref_exchange r) q None)"
      using Cons.prems by (intro consolidates_single) (auto simp: ref_quotes_Cons)
    from scan_books_Some [OF this, of books refs] Cons.prems Some show ?thesis
      by (auto simp: ref_quotes_Cons)
  qed
qed



text \<open>
  The condition on exchange names is needed: keys join the two names with a colon, so an exchange
  with a colon in its name can be handed the book of another exchange and instrument.
\<close>

lemma book_key_collision:
  "fst (book_for ''a'' ''b:c'' m) = fst (book_for ''a:b'' ''c'' m)"
  by (simp add: book_for_def book_key_def Let_def split: option.splits)

end
