(* ===== verification/Storage.thy ===== *)
theory Storage
  imports Trade "HOL-Library.Sublist"
begin

text \<open>
  \<open>include/storage/storage_types.hpp\<close>, \<open>storage_interface.hpp\<close>, \<open>in_memory_storage.hpp\<close> and their
  sources: the event log of the engine. \<open>event_log\<close> is the contract of \<open>IStorage\<close> (an append-only
  log with increasing offsets, read through filtered pages); the loop that reads a log page by
  page, shared by the replay drivers, is verified once against it, and \<open>InMemoryStorage\<close> is
  shown to satisfy it.
\<close>

section \<open>Events and requests\<close>

datatype StorageEventType = TradeSubmitted | OrderResponseEvent | MarketTrade | QuoteUpdateEvent

datatype StoragePayload =
    PTrade Trade
  | PResponse OrderResponse
  | PMarket TradeEvent
  | PQuote QuoteUpdate

record StorageEvent =
  se_offset :: u64
  se_ingest_ts_ns :: i64
  se_type :: StorageEventType
  se_payload :: StoragePayload

record ReplayRequest =
  rq_start_offset :: "u64 option"
  rq_start_ts_ns :: "i64 option"
  rq_end_ts_ns :: "i64 option"
  rq_ticker :: "string option"
  rq_max_events :: u64

record ReplayBatch =
  rb_events :: "StorageEvent list"
  rb_next_offset :: "u64 option"
  rb_end_of_stream :: bool

record StorageMetrics =
  sm_accepted :: u64
  sm_rejected_backpressure :: u64
  sm_committed :: u64
  sm_flush_count :: u64
  sm_parse_errors :: u64
  sm_queue_depth :: u64

fun event_type_to_string :: "StorageEventType \<Rightarrow> string" where
  "event_type_to_string TradeSubmitted = ''trade_submitted''"
| "event_type_to_string OrderResponseEvent = ''order_response''"
| "event_type_to_string MarketTrade = ''market_trade''"
| "event_type_to_string QuoteUpdateEvent = ''quote_update''"

definition storage_event_type_from_string :: "string \<Rightarrow> StorageEventType option" where
  "storage_event_type_from_string s =
     (if s = ''trade_submitted'' then Some TradeSubmitted
      else if s = ''order_response'' then Some OrderResponseEvent
      else if s = ''market_trade'' then Some MarketTrade
      else if s = ''quote_update'' then Some QuoteUpdateEvent
      else None)"

definition event_ticker :: "StorageEvent \<Rightarrow> string option" where
  "event_ticker e =
     (case se_type e of
        TradeSubmitted \<Rightarrow> (case se_payload e of PTrade t \<Rightarrow> Some (t_ticker t) | _ \<Rightarrow> None)
      | MarketTrade \<Rightarrow> (case se_payload e of PMarket t \<Rightarrow> Some (e_ticker t) | _ \<Rightarrow> None)
      | QuoteUpdateEvent \<Rightarrow> (case se_payload e of PQuote q \<Rightarrow> Some (q_ticker q) | _ \<Rightarrow> None)
      | OrderResponseEvent \<Rightarrow> None)"

definition payload_matches_type :: "StorageEvent \<Rightarrow> bool" where
  "payload_matches_type e =
     (case se_type e of
        TradeSubmitted \<Rightarrow> (case se_payload e of PTrade _ \<Rightarrow> True | _ \<Rightarrow> False)
      | OrderResponseEvent \<Rightarrow> (case se_payload e of PResponse _ \<Rightarrow> True | _ \<Rightarrow> False)
      | MarketTrade \<Rightarrow> (case se_payload e of PMarket _ \<Rightarrow> True | _ \<Rightarrow> False)
      | QuoteUpdateEvent \<Rightarrow> (case se_payload e of PQuote _ \<Rightarrow> True | _ \<Rightarrow> False))"

definition matches_replay_filter :: "ReplayRequest \<Rightarrow> StorageEvent \<Rightarrow> bool" where
  "matches_replay_filter rq e =
     (if (case rq_start_offset rq of None \<Rightarrow> False | Some off \<Rightarrow> se_offset e < off) then False
      else if (case rq_start_ts_ns rq of None \<Rightarrow> False | Some ts \<Rightarrow> se_ingest_ts_ns e < ts) then False
      else if (case rq_end_ts_ns rq of None \<Rightarrow> False | Some ts \<Rightarrow> ts < se_ingest_ts_ns e) then False
      else (case rq_ticker rq of
              None \<Rightarrow> True
            | Some ticker \<Rightarrow>
                (case event_ticker e of None \<Rightarrow> False | Some t \<Rightarrow> t = ticker)))"

section \<open>Reading one page\<close>

text \<open>
  The loop of \<open>replay\<close>: \<open>batch\<close> is what has been collected so far; the first matching event
  beyond the limit ends the page.
\<close>

fun replay_loop :: "nat \<Rightarrow> ReplayRequest \<Rightarrow> StorageEvent list \<Rightarrow> ReplayBatch \<Rightarrow> ReplayBatch" where
  "replay_loop limit rq [] batch = batch"
| "replay_loop limit rq (e # es) batch =
     (if \<not> matches_replay_filter rq e then replay_loop limit rq es batch
      else if limit \<le> length (rb_events batch)
      then batch\<lparr>rb_end_of_stream := False,
                 rb_next_offset := (if rb_events batch = [] then rb_next_offset batch
                                    else Some (se_offset (last (rb_events batch)) + 1))\<rparr>
      else replay_loop limit rq es (batch\<lparr>rb_events := rb_events batch @ [e]\<rparr>))"

definition replay_limit :: "ReplayRequest \<Rightarrow> nat" where
  "replay_limit rq = unat (if rq_max_events rq = 0 then - 1 else rq_max_events rq)"

definition replay_events :: "ReplayRequest \<Rightarrow> StorageEvent list \<Rightarrow> ReplayBatch" where
  "replay_events rq events =
     replay_loop (replay_limit rq) rq events
       \<lparr>rb_events = [], rb_next_offset = None, rb_end_of_stream = True\<rparr>"

section \<open>Reading page by page\<close>

text \<open>
  The loop of the replay drivers: read a page, handle its events in order, go on from
  \<open>next_offset\<close> until the end of the stream. \<open>replay\<close> reads the log in the state that the
  handler changes. Not returning is \<open>None\<close>.
\<close>

partial_function (option) replay_run ::
  "(ReplayRequest \<Rightarrow> 'a \<Rightarrow> ReplayBatch) \<Rightarrow> (StorageEvent \<Rightarrow> 'a \<Rightarrow> 'a) \<Rightarrow> ReplayRequest \<Rightarrow> 'a \<Rightarrow> 'a option"
where
  [code]: "replay_run replay handle rq acc =
     (let batch = replay rq acc;
          acc = fold handle (rb_events batch) acc
      in if rb_end_of_stream batch \<or> rb_next_offset batch = None then Some acc
         else replay_run replay handle (rq\<lparr>rq_start_offset := rb_next_offset batch\<rparr>) acc)"

text \<open>Offsets increase along the log and none is the largest value, so that \<open>offset + 1\<close> exists.\<close>

definition offsets_ok :: "StorageEvent list \<Rightarrow> bool" where
  "offsets_ok lg \<longleftrightarrow> sorted_wrt (<) (map se_offset lg) \<and> (\<forall>e \<in> set lg. se_offset e < - 1)"

lemma replay_limit_pos: "0 < replay_limit rq"
  unfolding replay_limit_def by (simp add: unat_gt_0)

lemma replay_loop_end:
  "length (filter (matches_replay_filter rq) es) + length (rb_events b) \<le> limit \<Longrightarrow>
   replay_loop limit rq es b = b\<lparr>rb_events := rb_events b @ filter (matches_replay_filter rq) es\<rparr>"
  by (induction es arbitrary: b) auto

lemma replay_loop_more:
  "limit < length (filter (matches_replay_filter rq) es) + length (rb_events b) \<Longrightarrow>
   length (rb_events b) \<le> limit \<Longrightarrow> 0 < limit \<Longrightarrow>
   replay_loop limit rq es b =
     (let evs = rb_events b @ take (limit - length (rb_events b)) (filter (matches_replay_filter rq) es)
      in b\<lparr>rb_events := evs, rb_next_offset := Some (se_offset (last evs) + 1), rb_end_of_stream := False\<rparr>)"
proof (induction es arbitrary: b)
  case (Cons e es)
  show ?case
  proof (cases "matches_replay_filter rq e")
    case True
    show ?thesis
    proof (cases "limit = length (rb_events b)")
      case False
      then obtain k where k: "limit = length (rb_events b) + Suc k" using Cons.prems
        by (metis add_Suc_right le_neq_implies_less less_iff_Suc_add)
      then have "limit - length (rb_events b) = Suc k" "limit - Suc (length (rb_events b)) = k"
        "length (rb_events b) < limit" by simp_all
      with True Cons.prems Cons.IH [of "b\<lparr>rb_events := rb_events b @ [e]\<rparr>"] show ?thesis
        by (simp add: Let_def)
    qed (use True Cons.prems in \<open>auto simp: Let_def\<close>)
  qed (use Cons in simp)
qed simp

lemma replay_events_end:
  "length (filter (matches_replay_filter rq) lg) \<le> replay_limit rq \<Longrightarrow>
   replay_events rq lg =
     \<lparr>rb_events = filter (matches_replay_filter rq) lg, rb_next_offset = None, rb_end_of_stream = True\<rparr>"
  by (simp add: replay_events_def replay_loop_end)

lemma replay_events_more:
  "replay_limit rq < length (filter (matches_replay_filter rq) lg) \<Longrightarrow>
   replay_events rq lg =
     (let evs = take (replay_limit rq) (filter (matches_replay_filter rq) lg)
      in \<lparr>rb_events = evs, rb_next_offset = Some (se_offset (last evs) + 1), rb_end_of_stream = False\<rparr>)"
  using replay_limit_pos [of rq] by (simp add: replay_events_def replay_loop_more Let_def)

text \<open>Going on from the offset after the last event read leaves exactly the events not yet read.\<close>

lemma matches_next_page:
  assumes ok: "offsets_ok lg" and fs: "filter (matches_replay_filter rq) lg = xs @ e # ys"
  shows "filter (matches_replay_filter (rq\<lparr>rq_start_offset := Some (se_offset e + 1)\<rparr>)) lg = ys"
proof -
  let ?P = "matches_replay_filter rq" and ?Q = "matches_replay_filter (rq\<lparr>rq_start_offset := Some (se_offset e + 1)\<rparr>)"
  have e: "e \<in> set lg" "?P e" using arg_cong [OF fs, of set] by auto
  then have plus: "se_offset x < se_offset e + 1 \<longleftrightarrow> se_offset x \<le> se_offset e" for x
    using ok by (simp add: offsets_ok_def u64_less_plus_one)
  have Q: "?Q x \<longleftrightarrow> ?P x \<and> se_offset e < se_offset x" if "x \<in> set lg" for x
    using e plus [of x] by (auto simp: matches_replay_filter_def split: option.splits if_splits)
  have "filter ?Q lg = filter (\<lambda>x. se_offset e < se_offset x) (filter ?P lg)"
    using Q by (simp add: conj_commute cong: filter_cong)
  also have "\<dots> = filter (\<lambda>x. se_offset e < se_offset x) (xs @ e # ys)" by (simp add: fs)
  also have "\<dots> = ys"
  proof -
    have "sorted_wrt (<) (map se_offset (filter ?P lg))"
      using ok by (auto simp: offsets_ok_def sorted_wrt_map sorted_wrt_filter)
    then have "sorted_wrt (<) (map se_offset (xs @ e # ys))" by (simp add: fs)
    then have "\<forall>x \<in> set xs. se_offset x < se_offset e" "\<forall>y \<in> set ys. se_offset e < se_offset y"
      by (auto simp: sorted_wrt_append)
    then show ?thesis by (auto simp: filter_empty_conv filter_id_conv)
  qed
  finally show ?thesis .
qed

lemma replay_run_filter:
  assumes ok: "offsets_ok lg" and R: "R acc"
    and reads: "\<And>rq acc. R acc \<Longrightarrow> replay rq acc = replay_events rq lg"
    and keeps: "\<And>e acc. R acc \<Longrightarrow> e \<in> set lg \<Longrightarrow> R (handle e acc)"
  shows "replay_run replay handle rq acc = Some (fold handle (filter (matches_replay_filter rq) lg) acc)"
  using R
proof (induction "length (filter (matches_replay_filter rq) lg)" arbitrary: rq acc rule: less_induct)
  case less
  let ?fs = "filter (matches_replay_filter rq) lg" and ?n = "replay_limit rq"
  show ?case
  proof (cases "length ?fs \<le> ?n")
    case True
    then show ?thesis
      using less.prems by (subst replay_run.simps) (simp add: reads replay_events_end)
  next
    case False
    then have n: "0 < ?n" "?n < length ?fs" using replay_limit_pos [of rq] by simp_all
    let ?e = "?fs ! (?n - 1)"
    have take: "take ?n ?fs = take (?n - 1) ?fs @ [?e]"
      using n by (metis Suc_diff_1 less_imp_le_nat less_le_trans lessI take_Suc_conv_app_nth)
    have fs: "?fs = take (?n - 1) ?fs @ ?e # drop ?n ?fs"
      using append_take_drop_id [of ?n ?fs] take by simp
    let ?rq = "rq\<lparr>rq_start_offset := Some (se_offset ?e + 1)\<rparr>"
    have next_page: "filter (matches_replay_filter ?rq) lg = drop ?n ?fs" by (rule matches_next_page [OF ok fs])
    have keep_all: "R (fold handle xs acc)" if "set xs \<subseteq> set lg" for xs
      using that less.prems by (induction xs arbitrary: acc) (auto intro: keeps)
    have "R (fold handle (take ?n ?fs) acc)" by (rule keep_all) (auto dest: in_set_takeD)
    from less.hyps [of ?rq, OF _ this] n next_page
    have "replay_run replay handle ?rq (fold handle (take ?n ?fs) acc)
        = Some (fold handle (drop ?n ?fs) (fold handle (take ?n ?fs) acc))" by simp
    also have "fold handle (drop ?n ?fs) (fold handle (take ?n ?fs) acc) = fold handle ?fs acc"
      by (metis append_take_drop_id comp_apply fold_append)
    finally show ?thesis
      using n less.prems take by (subst replay_run.simps) (simp add: reads replay_events_more Let_def)
  qed
qed

section \<open>The contract of IStorage\<close>

text \<open>
  \<open>events\<close> is the committed log a replay reads. What is appended never changes what was logged
  before, every event has the payload of its type, and, as long as fewer than \<open>2 ^ 64\<close> offsets
  are in use, offsets increase.
\<close>

locale event_log =
  fixes inv :: "'s \<Rightarrow> bool"
    and events :: "'s \<Rightarrow> StorageEvent list"
    and append :: "StorageEvent \<Rightarrow> 's \<Rightarrow> runtime \<Rightarrow> bool \<times> 's \<times> runtime"
    and replay :: "ReplayRequest \<Rightarrow> 's \<Rightarrow> ReplayBatch"
  assumes append_inv: "inv s \<Longrightarrow> inv (fst (snd (append e s rt)))"
    and append_only: "inv s \<Longrightarrow> prefix (events s) (events (fst (snd (append e s rt))))"
    and replay_log: "inv s \<Longrightarrow> replay rq s = replay_events rq (events s)"
    and offsets: "inv s \<Longrightarrow> length (events s) < 2 ^ 64 \<Longrightarrow> offsets_ok (events s)"
    and typed: "inv s \<Longrightarrow> list_all payload_matches_type (events s)"
begin

lemma replay_bounded: "inv s \<Longrightarrow> length (rb_events (replay rq s)) \<le> replay_limit rq"
  by (cases "length (filter (matches_replay_filter rq) (events s)) \<le> replay_limit rq")
    (simp_all add: replay_log replay_events_end replay_events_more Let_def)

lemma replay_complete:
  assumes "inv s" and "length (events s) < 2 ^ 64"
  shows "replay_run (\<lambda>rq _. replay rq s) handle rq acc
    = Some (fold handle (filter (matches_replay_filter rq) (events s)) acc)"
  by (rule replay_run_filter [OF offsets [OF assms], where R = "\<lambda>_. True"]) (simp_all add: assms(1) replay_log)

end

section \<open>InMemoryStorage\<close>

record InMemoryStorage =
  im_events :: "StorageEvent list"
  im_next_offset :: u64
  im_closed :: bool
  im_accepted :: u64
  im_committed :: u64
  im_flush_count :: u64

definition new_InMemoryStorage :: InMemoryStorage where
  "new_InMemoryStorage =
     \<lparr>im_events = [], im_next_offset = 0, im_closed = False, im_accepted = 0, im_committed = 0,
      im_flush_count = 0\<rparr>"

definition in_memory_append ::
  "StorageEvent \<Rightarrow> InMemoryStorage \<Rightarrow> runtime \<Rightarrow> bool \<times> InMemoryStorage \<times> runtime" where
  "in_memory_append event s rt =
     (if \<not> payload_matches_type event then (False, s, rt)
      else if im_closed s then (False, s, rt)
      else
        let event = event\<lparr>se_offset := im_next_offset s\<rparr>;
            s = s\<lparr>im_next_offset := im_next_offset s + 1\<rparr>;
            (event, rt) = (if se_ingest_ts_ns event \<le> 0
                           then let (now, rt) = now_ns rt in (event\<lparr>se_ingest_ts_ns := now\<rparr>, rt)
                           else (event, rt))
        in (True, s\<lparr>im_events := im_events s @ [event], im_accepted := im_accepted s + 1,
                    im_committed := im_committed s + 1\<rparr>, rt))"

definition in_memory_replay :: "ReplayRequest \<Rightarrow> InMemoryStorage \<Rightarrow> ReplayBatch" where
  "in_memory_replay request s = replay_events request (im_events s)"

definition in_memory_flush :: "InMemoryStorage \<Rightarrow> bool \<times> InMemoryStorage" where
  "in_memory_flush s = (True, s\<lparr>im_flush_count := im_flush_count s + 1\<rparr>)"

definition in_memory_close :: "InMemoryStorage \<Rightarrow> InMemoryStorage" where
  "in_memory_close s = s\<lparr>im_closed := True\<rparr>"

definition in_memory_metrics :: "InMemoryStorage \<Rightarrow> StorageMetrics" where
  "in_memory_metrics s =
     \<lparr>sm_accepted = im_accepted s, sm_rejected_backpressure = 0, sm_committed = im_committed s,
      sm_flush_count = im_flush_count s, sm_parse_errors = 0, sm_queue_depth = 0\<rparr>"

text \<open>The offset of an event is its position in the log, and the counters count the events.\<close>

definition in_memory_inv :: "InMemoryStorage \<Rightarrow> bool" where
  "in_memory_inv s \<longleftrightarrow>
     map se_offset (im_events s) = map of_nat [0..<length (im_events s)] \<and>
     im_next_offset s = of_nat (length (im_events s)) \<and>
     im_accepted s = of_nat (length (im_events s)) \<and> im_committed s = im_accepted s \<and>
     list_all payload_matches_type (im_events s)"

lemma new_in_memory_inv [inv_intros]: "in_memory_inv new_InMemoryStorage"
  by (simp add: in_memory_inv_def new_InMemoryStorage_def)

lemma payload_matches_type_cong:
  "se_type e' = se_type e \<Longrightarrow> se_payload e' = se_payload e \<Longrightarrow>
   payload_matches_type e' = payload_matches_type e"
  by (simp add: payload_matches_type_def split: StorageEventType.splits)

lemma in_memory_append_cases:
  obtains (refused) "in_memory_append e s rt = (False, s, rt)" "\<not> payload_matches_type e \<or> im_closed s"
  | (logged) e' rt' where "payload_matches_type e" "\<not> im_closed s" "se_offset e' = im_next_offset s"
      "se_type e' = se_type e" "se_payload e' = se_payload e" "payload_matches_type e'"
      "0 < se_ingest_ts_ns e \<Longrightarrow> se_ingest_ts_ns e' = se_ingest_ts_ns e"
      "in_memory_append e s rt =
         (True, s\<lparr>im_events := im_events s @ [e'], im_next_offset := im_next_offset s + 1,
                  im_accepted := im_accepted s + 1, im_committed := im_committed s + 1\<rparr>, rt')"
proof (cases "\<not> payload_matches_type e \<or> im_closed s")
  case True
  then show ?thesis by (intro refused) (auto simp: in_memory_append_def)
next
  case False
  define e' where "e' = (if se_ingest_ts_ns e \<le> 0
    then e\<lparr>se_offset := im_next_offset s, se_ingest_ts_ns := fst (now_ns rt)\<rparr>
    else e\<lparr>se_offset := im_next_offset s\<rparr>)"
  show ?thesis
    using payload_matches_type_cong [of e' e] False
    by (intro logged [of e' "if se_ingest_ts_ns e \<le> 0 then snd (now_ns rt) else rt"])
      (auto simp: e'_def in_memory_append_def Let_def split: prod.splits)
qed

lemma in_memory_append_inv [inv_intros]:
  "in_memory_inv s \<Longrightarrow> in_memory_inv (fst (snd (in_memory_append e s rt)))"
  by (rule in_memory_append_cases [where e = e and s = s and rt = rt])
    (auto simp: in_memory_inv_def)

interpretation in_memory: event_log in_memory_inv im_events in_memory_append in_memory_replay
proof
  fix s e rt rq
  assume inv: "in_memory_inv s"
  then show "in_memory_inv (fst (snd (in_memory_append e s rt)))" by (rule in_memory_append_inv)
  show "prefix (im_events s) (im_events (fst (snd (in_memory_append e s rt))))"
    by (rule in_memory_append_cases [where e = e and s = s and rt = rt]) simp_all
  show "in_memory_replay rq s = replay_events rq (im_events s)" by (simp add: in_memory_replay_def)
  show "list_all payload_matches_type (im_events s)" using inv by (simp add: in_memory_inv_def)
  assume n: "length (im_events s) < 2 ^ 64"
  have "sorted_wrt (<) (map (of_nat :: nat \<Rightarrow> u64) [0..<length (im_events s)])"
    using n by (auto simp: sorted_wrt_map sorted_wrt_upt of_nat_u64_less intro!: sorted_wrt_mono_rel [OF _ sorted_wrt_upt])
  moreover have "se_offset e < - 1" if "e \<in> set (im_events s)" for e
  proof -
    from that have "se_offset e \<in> set (map of_nat [0..<length (im_events s)])"
      using inv by (metis in_memory_inv_def image_eqI list.set_map)
    then obtain i where "i < length (im_events s)" "se_offset e = of_nat i" by auto
    moreover have "(of_nat (2 ^ 64 - 1) :: u64) = - 1" by simp
    ultimately show ?thesis using n of_nat_u64_less [of i "2 ^ 64 - 1"] by (simp only:)
  qed
  ultimately show "offsets_ok (im_events s)" using inv by (simp add: offsets_ok_def in_memory_inv_def)
qed

text \<open>A sequence of appends, as the sinks and the strategy manager make them.\<close>

fun append_all ::
  "(StorageEvent \<Rightarrow> 's \<Rightarrow> runtime \<Rightarrow> bool \<times> 's \<times> runtime) \<Rightarrow> StorageEvent list \<Rightarrow> 's \<Rightarrow> runtime \<Rightarrow> 's \<times> runtime"
where
  "append_all app [] s rt = (s, rt)"
| "append_all app (e # es) s rt = (let (_, s, rt) = app e s rt in append_all app es s rt)"

abbreviation content :: "StorageEvent \<Rightarrow> StorageEventType \<times> StoragePayload" where
  "content e \<equiv> (se_type e, se_payload e)"

lemma in_memory_append_all:
  "in_memory_inv s \<Longrightarrow> \<not> im_closed s \<Longrightarrow>
   in_memory_inv (fst (append_all in_memory_append es s rt)) \<and>
   map content (im_events (fst (append_all in_memory_append es s rt)))
     = map content (im_events s) @ map content (filter payload_matches_type es)"
proof (induction es arbitrary: s rt)
  case (Cons e es)
  obtain r s' rt' where r: "in_memory_append e s rt = (r, s', rt')" by (metis prod_cases3)
  have inv: "in_memory_inv s'" using in_memory_append_inv [of s e rt] Cons.prems r by simp
  show ?case
  proof (rule in_memory_append_cases [where e = e and s = s and rt = rt], goal_cases)
    case 1
    then show ?case using Cons r by simp
  next
    case (2 e' rt'')
    then have "\<not> im_closed s'" "im_events s' = im_events s @ [e']" using r Cons.prems by auto
    with Cons.IH [OF inv, of rt'] 2 r show ?case by simp
  qed
qed simp

lemma in_memory_log:
  fixes es :: "StorageEvent list" and rt :: runtime
  defines "s \<equiv> fst (append_all in_memory_append es new_InMemoryStorage rt)"
  shows "in_memory_inv s" and "length (im_events s) \<le> length es"
    and "map content (im_events s) = map content (filter payload_matches_type es)"
proof -
  show "in_memory_inv s" and ev: "map content (im_events s) = map content (filter payload_matches_type es)"
    using in_memory_append_all [OF new_in_memory_inv, of es rt] by (simp_all add: s_def new_InMemoryStorage_def)
  show "length (im_events s) \<le> length es"
    using arg_cong [OF ev, of length] length_filter_le [of payload_matches_type es] by simp
qed

text \<open>
  Reading an in-memory log page by page, whatever the page size, ends and hands every event
  that matches the request to the handler exactly once and in order; the log itself is the
  sequence of well-typed events that were appended, numbered from 0.
\<close>

theorem in_memory_replay_complete:
  fixes es :: "StorageEvent list" and rt :: runtime
  assumes "length es < 2 ^ 64"
  defines "s \<equiv> fst (append_all in_memory_append es new_InMemoryStorage rt)"
  shows "replay_run (\<lambda>rq _. in_memory_replay rq s) handle rq acc
      = Some (fold handle (filter (matches_replay_filter rq) (im_events s)) acc)
    \<and> map content (im_events s) = map content (filter payload_matches_type es)
    \<and> map se_offset (im_events s) = map of_nat [0..<length (im_events s)]"
proof -
  note inv = in_memory_log(1) [of es rt, folded s_def] and len = in_memory_log(2) [of es rt, folded s_def]
  have "length (im_events s) < 2 ^ 64" using len assms(1) by (rule le_less_trans)
  from in_memory.replay_complete [OF inv this] in_memory_log(3) [of es rt, folded s_def] inv
  show ?thesis by (simp add: in_memory_inv_def)
qed

text \<open>Three events, one of them refused, read in pages of one.\<close>

definition example_market :: "string \<Rightarrow> StorageEvent" where
  "example_market ticker =
     \<lparr>se_offset = 0, se_ingest_ts_ns = 5, se_type = MarketTrade,
      se_payload = PMarket \<lparr>e_ticker = ticker, e_price = Fin 10, e_quantity = Fin 1, e_is_buyer_maker = False,
                            e_timestamp_ns = 5, e_trade_id = 0\<rparr>\<rparr>"

definition example_log :: InMemoryStorage where
  "example_log = fst (append_all in_memory_append
     [example_market ''X'', (example_market ''X'')\<lparr>se_type := QuoteUpdateEvent\<rparr>, example_market ''Y'',
      example_market ''X''] new_InMemoryStorage \<lparr>order_id_counter = 0, clk = (\<lambda>n. int n)\<rparr>)"

definition request_ticker :: "string option \<Rightarrow> u64 \<Rightarrow> ReplayRequest" where
  "request_ticker ticker n =
     \<lparr>rq_start_offset = None, rq_start_ts_ns = None, rq_end_ts_ns = None, rq_ticker = ticker, rq_max_events = n\<rparr>"

theorem in_memory_replay_complete_witness:
  "replay_run (\<lambda>rq _. in_memory_replay rq example_log) (\<lambda>e acc. acc @ [se_offset e])
     (request_ticker (Some ''X'') 1) [] = Some [0, 2]"
proof -
  have "length [example_market ''X'', (example_market ''X'')\<lparr>se_type := QuoteUpdateEvent\<rparr>,
      example_market ''Y'', example_market ''X''] < 2 ^ 64" by simp
  note run = conjunct1 [OF in_memory_replay_complete [OF this]]
  have "fold (\<lambda>e acc. acc @ [se_offset e])
      (filter (matches_replay_filter (request_ticker (Some ''X'') 1)) (im_events example_log)) [] = [0, 2]"
    by code_simp
  then show ?thesis unfolding example_log_def run by simp
qed

end
