(* ===== verification/Execution_Sink.thy ===== *)
theory Execution_Sink
  imports Storage
begin

text \<open>
  \<open>include/strategy/execution_sink.hpp\<close>: the interface between strategies and whatever executes
  their orders. A callback (\<open>std::function\<close>) is a value that names it; an operation returns, in
  call order, the callbacks it invokes with their arguments. An empty \<open>std::function\<close> is \<open>None\<close>.
  The environment an operation shares with the rest of the process (the storage it was given, if
  any, and the clock and order counter) is the record \<open>env\<close>; the storage's \<open>append\<close> is a
  parameter, as \<open>IStorage\<close> is an abstract class.
\<close>

datatype ('cb, 'f) effect = Respond 'cb OrderResponse | StorageFailed 'f

record 's env =
  env_storage :: "'s option"
  env_rt :: runtime

type_synonym 's append_fn = "StorageEvent \<Rightarrow> 's \<Rightarrow> runtime \<Rightarrow> bool \<times> 's \<times> runtime"

definition env_now :: "'s env \<Rightarrow> i64 \<times> 's env" where
  "env_now env = (let (now, rt) = now_ns (env_rt env) in (now, env\<lparr>env_rt := rt\<rparr>))"

text \<open>\<open>storage_->append(event)\<close> when a storage is attached; \<open>true\<close> otherwise.\<close>

definition env_append :: "'s append_fn \<Rightarrow> StorageEvent \<Rightarrow> 's env \<Rightarrow> bool \<times> 's env" where
  "env_append append_op event env =
     (case env_storage env of
        None \<Rightarrow> (True, env)
      | Some s \<Rightarrow> (let (appended, s, rt) = append_op event s (env_rt env)
                  in (appended, \<lparr>env_storage = Some s, env_rt = rt\<rparr>)))"

fun invoke :: "'cb option \<Rightarrow> OrderResponse \<Rightarrow> ('cb, 'f) effect list" where
  "invoke None r = []"
| "invoke (Some cb) r = [Respond cb r]"

fun invoke_failure :: "'f option \<Rightarrow> ('cb, 'f) effect list" where
  "invoke_failure None = []"
| "invoke_failure (Some f) = [StorageFailed f]"

fun responses :: "('cb, 'f) effect list \<Rightarrow> ('cb \<times> OrderResponse) list" where
  "responses [] = []"
| "responses (Respond cb r # es) = (cb, r) # responses es"
| "responses (StorageFailed f # es) = responses es"

fun failures :: "('cb, 'f) effect list \<Rightarrow> 'f list" where
  "failures [] = []"
| "failures (Respond cb r # es) = failures es"
| "failures (StorageFailed f # es) = f # failures es"

definition terminal :: "OrderStatus \<Rightarrow> bool" where
  "terminal s \<longleftrightarrow> s = FILLED \<or> s = CANCELED \<or> s = REJECTED \<or> s = EXPIRED"

lemma responses_append [simp]: "responses (xs @ ys) = responses xs @ responses ys"
  by (induction xs rule: responses.induct) simp_all

lemma failures_append [simp]: "failures (xs @ ys) = failures xs @ failures ys"
  by (induction xs rule: failures.induct) simp_all

lemma responses_invoke [simp]:
  "responses (invoke c r) = (case c of None \<Rightarrow> [] | Some cb \<Rightarrow> [(cb, r)])" "failures (invoke c r) = []"
  by (cases c; simp)+

lemma responses_invoke_failure [simp]:
  "responses (invoke_failure f) = []" "failures (invoke_failure f) = (case f of None \<Rightarrow> [] | Some x \<Rightarrow> [x])"
  by (cases f; simp)+

section \<open>The order ledger\<close>

text \<open>
  What a final response says of the order it answers: it is addressed to that order, a fill is a
  complete fill and never worse than the limit, a cancel leaves the whole quantity and a rejection
  reports no fill.
\<close>

definition answers :: "Trade \<Rightarrow> OrderResponse \<Rightarrow> bool" where
  "answers t r \<longleftrightarrow>
     r_client_order_id r = t_client_order_id t \<and>
     (r_status r = FILLED \<and> r_filled_quantity r = t_quantity t \<and> r_remaining_quantity r = 0 \<and>
        (t_type t = LIMIT \<longrightarrow>
           (if t_side t = BUY then r_avg_price r \<le> t_price t else t_price t \<le> r_avg_price r))
      \<or> r_status r = CANCELED \<and> r_filled_quantity r = 0 \<and> r_remaining_quantity r = t_quantity t
      \<or> r_status r = REJECTED \<and> r_filled_quantity r = 0)"

lemma answers_exchange_order_id [simp]: "answers t (r\<lparr>r_exchange_order_id := x\<rparr>) = answers t r"
  by (simp add: answers_def)

text \<open>Each order answered with its callback and the response, and what the callbacks then see.\<close>

type_synonym 'cb answered = "(Trade \<times> 'cb option) \<times> OrderResponse"

definition seen :: "'cb answered list \<Rightarrow> ('cb \<times> OrderResponse) list" where
  "seen as = concat (map (\<lambda>((t, c), r). case c of None \<Rightarrow> [] | Some cb \<Rightarrow> [(cb, r)]) as)"

lemma seen_simps [simp]:
  "seen [] = []" "seen ((q, r) # as) = (case snd q of None \<Rightarrow> [] | Some cb \<Rightarrow> [(cb, r)]) @ seen as"
  "seen (as @ bs) = seen as @ seen bs"
  by (auto simp: seen_def case_prod_beta split: option.splits)

text \<open>
  The contract of an execution sink that answers every order: a step that takes new orders and
  invokes callbacks leaves each order either open or answered, once and by its own callback.
  \<open>open_orders\<close> are the orders still waiting and \<open>fresh\<close> those a step submits.
\<close>

definition accounts ::
  "(Trade \<times> 'cb option) list \<Rightarrow> (Trade \<times> 'cb option) list \<Rightarrow> ('cb, 'f) effect list
   \<Rightarrow> (Trade \<times> 'cb option) list \<Rightarrow> bool"
where
  "accounts opened new_orders eff opened' \<longleftrightarrow>
     (\<exists>as. responses eff = seen as \<and> list_all (\<lambda>((t, c), r). answers t r) as \<and>
        mset opened + mset new_orders = mset (map fst as) + mset opened')"

lemma accounts_refl [simp]: "accounts os [] [] os"
  unfolding accounts_def by (rule exI [of _ "[]"]) simp

lemma accounts_trans:
  assumes "accounts os ns es os'" and "accounts os' ns' es' os''"
  shows "accounts os (ns @ ns') (es @ es') os''"
proof -
  from assms obtain as bs where
    resp: "responses es = seen as" "list_all (\<lambda>((t, c), r). answers t r) as"
      "responses es' = seen bs" "list_all (\<lambda>((t, c), r). answers t r) bs"
    and m: "mset os + mset ns = mset (map fst as) + mset os'"
      "mset os' + mset ns' = mset (map fst bs) + mset os''"
    unfolding accounts_def by blast
  have "mset os + mset (ns @ ns') = (mset os + mset ns) + mset ns'" by (simp only: mset_append add.assoc)
  also have "\<dots> = mset (map fst as) + (mset os' + mset ns')" by (simp only: m(1) add.assoc)
  also have "\<dots> = mset (map fst (as @ bs)) + mset os''" by (simp only: m(2) map_append mset_append add.assoc)
  finally show ?thesis unfolding accounts_def using resp by (intro exI [of _ "as @ bs"]) simp
qed

fun run_steps ::
  "('op \<Rightarrow> 'd \<Rightarrow> 'd \<times> ('cb, 'f) effect list) \<Rightarrow> 'op list \<Rightarrow> 'd \<Rightarrow> 'd \<times> ('cb, 'f) effect list" where
  "run_steps step [] d = (d, [])"
| "run_steps step (x # xs) d = (let (d, eff) = step x d; (d, effs) = run_steps step xs d in (d, eff @ effs))"

locale order_ledger =
  fixes step :: "'op \<Rightarrow> 'd \<Rightarrow> 'd \<times> ('cb, 'f) effect list"
    and fresh :: "'op \<Rightarrow> (Trade \<times> 'cb option) list"
    and open_orders :: "'d \<Rightarrow> (Trade \<times> 'cb option) list"
  assumes step_accounts: "accounts (open_orders d) (fresh x) (snd (step x d)) (open_orders (fst (step x d)))"
begin

lemma run_accounts:
  "accounts (open_orders d) (concat (map fresh xs)) (snd (run_steps step xs d))
     (open_orders (fst (run_steps step xs d)))"
proof (induction xs arbitrary: d)
  case (Cons x xs)
  show ?case
    using accounts_trans [OF step_accounts [of d x] Cons.IH] by (simp add: case_prod_beta Let_def)
qed simp

end

end
