(* ===== verification/Simulated_Execution.thy ===== *)
theory Simulated_Execution
  imports Execution_Sink
begin

text \<open>
  \<open>include/backtest/simulated_execution_sink.hpp\<close>: the simulated exchange of the backtester.
  Orders fill at the best quote or rest until a quote, a market trade or a cancel reaches them.
  Each member function is one step on the sink and its environment; the callbacks it invokes are
  returned in call order.
\<close>

section \<open>State\<close>

record SimulatedExecutionConfig =
  sc_maker_fee_bps :: double
  sc_taker_fee_bps :: double
  sc_reject_without_market :: bool

record SimulatedExecutionStats =
  ss_submitted :: u64
  ss_resting :: u64
  ss_filled :: u64
  ss_canceled :: u64
  ss_rejected :: u64
  ss_storage_append_failures :: u64
  ss_gross_notional :: double
  ss_fees :: double

record Fill =
  fl_price :: double
  fl_timestamp_ns :: i64

record ('cb, 'f) PendingOrder =
  po_trade :: Trade
  po_exchange_order_id :: u64
  po_response_callback :: "'cb option"
  po_storage_failure_callback :: "'f option"

record ('cb, 'f) SimulatedExecutionSink =
  sx_config :: SimulatedExecutionConfig
  sx_quotes :: "string \<rightharpoonup> QuoteUpdate"
  sx_resting_orders :: "('cb, 'f) PendingOrder list"
  sx_next_exchange_order_id :: u64
  sx_gross_notional :: double
  sx_fees :: double
  sx_submitted :: u64
  sx_filled :: u64
  sx_canceled :: u64
  sx_rejected :: u64
  sx_storage_append_failures :: u64

definition new_SimulatedExecutionSink :: "SimulatedExecutionConfig \<Rightarrow> ('cb, 'f) SimulatedExecutionSink" where
  "new_SimulatedExecutionSink config =
     \<lparr>sx_config = config, sx_quotes = Map.empty, sx_resting_orders = [], sx_next_exchange_order_id = 1,
      sx_gross_notional = 0, sx_fees = 0, sx_submitted = 0, sx_filled = 0, sx_canceled = 0,
      sx_rejected = 0, sx_storage_append_failures = 0\<rparr>"

type_synonym ('cb, 'f, 's) sim = "('cb, 'f) SimulatedExecutionSink \<times> 's env"

section \<open>Private members\<close>

definition validate_order :: "Trade \<Rightarrow> ('cb, 'f) SimulatedExecutionSink \<Rightarrow> string option" where
  "validate_order trade sx =
     (if t_ticker trade = [] then Some ''missing ticker''
      else if t_quantity trade \<le> 0 then Some ''quantity must be positive''
      else if t_type trade = LIMIT \<and> t_price trade \<le> 0 then Some ''limit price must be positive''
      else if t_type trade \<noteq> MARKET \<and> t_type trade \<noteq> LIMIT
      then Some ''simulator supports market and limit orders''
      else if t_type trade = MARKET \<and> sc_reject_without_market (sx_config sx)
              \<and> sx_quotes sx (t_ticker trade) = None
      then Some ''no quote available for market order''
      else None)"

definition immediate_fill :: "Trade \<Rightarrow> ('cb, 'f) SimulatedExecutionSink \<Rightarrow> Fill option" where
  "immediate_fill trade sx =
     (case sx_quotes sx (t_ticker trade) of
        None \<Rightarrow> None
      | Some quote \<Rightarrow>
          if t_side trade = BUY
          then if t_type trade = MARKET \<or> q_ask_price quote \<le> t_price trade
               then Some \<lparr>fl_price = q_ask_price quote, fl_timestamp_ns = q_timestamp_ns quote\<rparr>
               else None
          else if t_type trade = MARKET \<or> t_price trade \<le> q_bid_price quote
          then Some \<lparr>fl_price = q_bid_price quote, fl_timestamp_ns = q_timestamp_ns quote\<rparr>
          else None)"

definition trade_crosses_limit :: "TradeEvent \<Rightarrow> Trade \<Rightarrow> bool" where
  "trade_crosses_limit ev order =
     (if t_side order = BUY then e_price ev \<le> t_price order else t_price order \<le> e_price ev)"

text \<open>
  The error messages are literals shorter than the buffer, so \<open>strncpy\<close> terminates them.
\<close>

definition make_response ::
  "Trade \<Rightarrow> OrderStatus \<Rightarrow> double \<Rightarrow> i64 \<Rightarrow> string \<Rightarrow> ('cb, 'f, 's) sim \<Rightarrow> OrderResponse \<times> ('cb, 'f, 's) sim"
where
  "make_response trade status fill_price timestamp_ns error_message sim =
     (let (sx, env) = sim;
          r = new_OrderResponse\<lparr>r_client_order_id := t_client_order_id trade,
                r_exchange_order_id := sx_next_exchange_order_id sx, r_status := status,
                r_filled_quantity := (if status = FILLED then t_quantity trade else 0),
                r_remaining_quantity := (if status = FILLED then 0 else t_quantity trade),
                r_avg_price := fill_price\<rparr>;
          sx = sx\<lparr>sx_next_exchange_order_id := sx_next_exchange_order_id sx + 1\<rparr>;
          (ts, env) = (if 0 < timestamp_ns then (timestamp_ns, env) else env_now env);
          r = r\<lparr>r_exchange_timestamp_ns := ts\<rparr>
      in if status = FILLED
         then let notional = fill_price * t_quantity trade;
                  fee_rate = (if t_type trade = MARKET then sc_taker_fee_bps (sx_config sx)
                              else sc_maker_fee_bps (sx_config sx));
                  fee = notional * fee_rate / Fin 10000
              in (r\<lparr>r_fee := fee, r_fee_currency := copy_string 8 ''QUOTE''\<rparr>,
                  (sx\<lparr>sx_gross_notional := sx_gross_notional sx + notional, sx_fees := sx_fees sx + fee\<rparr>, env))
         else if status = REJECTED
         then (r\<lparr>r_error_code := - 1, r_error_message := copy_string 128 error_message\<rparr>, (sx, env))
         else (r, (sx, env)))"

definition append_storage_event ::
  "'s append_fn \<Rightarrow> StorageEvent \<Rightarrow> 'f option \<Rightarrow> ('cb, 'f, 's) sim \<Rightarrow> ('cb, 'f, 's) sim \<times> ('cb, 'f) effect list"
where
  "append_storage_event append_op event failure_callback sim =
     (let (sx, env) = sim; (appended, env) = env_append append_op event env
      in if appended then ((sx, env), [])
         else ((sx\<lparr>sx_storage_append_failures := sx_storage_append_failures sx + 1\<rparr>, env),
               invoke_failure failure_callback))"

definition storage_event :: "StorageEventType \<Rightarrow> StoragePayload \<Rightarrow> 's env \<Rightarrow> StorageEvent \<times> 's env" where
  "storage_event ty payload env =
     (let (now, env) = env_now env
      in (\<lparr>se_offset = 0, se_ingest_ts_ns = now, se_type = ty, se_payload = payload\<rparr>, env))"

definition publish_response ::
  "'s append_fn \<Rightarrow> OrderResponse \<Rightarrow> 'cb option \<Rightarrow> 'f option \<Rightarrow> ('cb, 'f, 's) sim
   \<Rightarrow> ('cb, 'f, 's) sim \<times> ('cb, 'f) effect list"
where
  "publish_response append_op r response_callback failure_callback sim =
     (let (sx, env) = sim;
          sx = (case r_status r of
                  FILLED \<Rightarrow> sx\<lparr>sx_filled := sx_filled sx + 1\<rparr>
                | CANCELED \<Rightarrow> sx\<lparr>sx_canceled := sx_canceled sx + 1\<rparr>
                | REJECTED \<Rightarrow> sx\<lparr>sx_rejected := sx_rejected sx + 1\<rparr>
                | _ \<Rightarrow> sx);
          (event, env) = storage_event OrderResponseEvent (PResponse r) env;
          (sim, eff) = append_storage_event append_op event failure_callback (sx, env)
      in (sim, eff @ invoke response_callback r))"

fun deliver_all ::
  "'s append_fn \<Rightarrow> (('cb, 'f) PendingOrder \<times> OrderResponse) list \<Rightarrow> ('cb, 'f, 's) sim
   \<Rightarrow> ('cb, 'f, 's) sim \<times> ('cb, 'f) effect list"
where
  "deliver_all append_op [] sim = (sim, [])"
| "deliver_all append_op ((po, r) # ds) sim =
     (let (sim, eff) = publish_response append_op r (po_response_callback po)
                         (po_storage_failure_callback po) sim;
          (sim, effs) = deliver_all append_op ds sim
      in (sim, eff @ effs))"

text \<open>
  The loops over \<open>resting_orders_\<close>: an order that is not selected stays, a selected one is
  answered by \<open>respond\<close> (with its own exchange identifier) and erased.
\<close>

fun sweep_orders ::
  "(('cb, 'f) PendingOrder \<Rightarrow> bool) \<Rightarrow> (Trade \<Rightarrow> ('cb, 'f, 's) sim \<Rightarrow> OrderResponse \<times> ('cb, 'f, 's) sim)
   \<Rightarrow> ('cb, 'f) PendingOrder list \<Rightarrow> ('cb, 'f, 's) sim
   \<Rightarrow> ('cb, 'f) PendingOrder list \<times> (('cb, 'f) PendingOrder \<times> OrderResponse) list \<times> ('cb, 'f, 's) sim"
where
  "sweep_orders selected respond [] sim = ([], [], sim)"
| "sweep_orders selected respond (po # pos) sim =
     (if selected po
      then let (r, sim) = respond (po_trade po) sim;
               (kept, ds, sim) = sweep_orders selected respond pos sim
           in (kept, (po, r\<lparr>r_exchange_order_id := po_exchange_order_id po\<rparr>) # ds, sim)
      else let (kept, ds, sim) = sweep_orders selected respond pos sim in (po # kept, ds, sim))"

definition sweep_resting ::
  "(('cb, 'f) PendingOrder \<Rightarrow> bool)
   \<Rightarrow> (Trade \<Rightarrow> ('cb, 'f, 's) sim \<Rightarrow> OrderResponse \<times> ('cb, 'f, 's) sim) \<Rightarrow> ('cb, 'f, 's) sim
   \<Rightarrow> (('cb, 'f) PendingOrder \<times> OrderResponse) list \<times> ('cb, 'f, 's) sim"
where
  "sweep_resting selected respond sim =
     (let (kept, ds, sx, env) = sweep_orders selected respond (sx_resting_orders (fst sim)) sim
      in (ds, sx\<lparr>sx_resting_orders := kept\<rparr>, env))"

definition quote_crosses :: "QuoteUpdate \<Rightarrow> Trade \<Rightarrow> bool" where
  "quote_crosses quote t =
     (if t_side t = BUY then q_ask_price quote \<le> t_price t else t_price t \<le> q_bid_price quote)"

definition fill_resting_orders ::
  "QuoteUpdate \<Rightarrow> ('cb, 'f, 's) sim \<Rightarrow> (('cb, 'f) PendingOrder \<times> OrderResponse) list \<times> ('cb, 'f, 's) sim"
where
  "fill_resting_orders quote =
     sweep_resting
       (\<lambda>po. q_ticker quote = t_ticker (po_trade po) \<and> t_type (po_trade po) = LIMIT
             \<and> quote_crosses quote (po_trade po))
       (\<lambda>t. make_response t FILLED (if t_side t = BUY then q_ask_price quote else q_bid_price quote)
              (q_timestamp_ns quote) [])"

section \<open>Public members\<close>

definition sim_submit_trade ::
  "'s append_fn \<Rightarrow> Trade \<Rightarrow> 'cb option \<Rightarrow> 'f option \<Rightarrow> ('cb, 'f, 's) sim
   \<Rightarrow> bool \<times> ('cb, 'f, 's) sim \<times> ('cb, 'f) effect list"
where
  "sim_submit_trade append_op trade response_callback failure_callback sim =
     (let (sx, env) = sim;
          sx = sx\<lparr>sx_submitted := sx_submitted sx + 1\<rparr>;
          (event, env) = storage_event TradeSubmitted (PTrade trade) env;
          (sim, eff) = append_storage_event append_op event failure_callback (sx, env);
          (sx, env) = sim
      in case validate_order trade sx of
           Some reason \<Rightarrow>
             (let (r, sim) = make_response trade REJECTED 0 0 reason sim;
                  (sim, eff') = publish_response append_op r response_callback failure_callback sim
              in (True, sim, eff @ eff'))
         | None \<Rightarrow>
             (case immediate_fill trade sx of
                Some fill \<Rightarrow>
                  (let (r, sim) = make_response trade FILLED (fl_price fill) (fl_timestamp_ns fill) [] sim;
                       (sim, eff') = publish_response append_op r response_callback failure_callback sim
                   in (True, sim, eff @ eff'))
              | None \<Rightarrow>
                  (let pending = \<lparr>po_trade = trade, po_exchange_order_id = sx_next_exchange_order_id sx,
                                  po_response_callback = response_callback,
                                  po_storage_failure_callback = failure_callback\<rparr>
                   in (True, (sx\<lparr>sx_next_exchange_order_id := sx_next_exchange_order_id sx + 1,
                                 sx_resting_orders := sx_resting_orders sx @ [pending]\<rparr>, env), eff))))"

definition cancel_response :: "Trade \<Rightarrow> ('cb, 'f, 's) sim \<Rightarrow> OrderResponse \<times> ('cb, 'f, 's) sim" where
  "cancel_response trade sim =
     (let (sx, env) = sim; (now, env) = env_now env in make_response trade CANCELED 0 now [] (sx, env))"

definition sim_cancel_order ::
  "'s append_fn \<Rightarrow> string \<Rightarrow> u64 \<Rightarrow> u64 \<Rightarrow> ('cb, 'f, 's) sim \<Rightarrow> ('cb, 'f, 's) sim \<times> ('cb, 'f) effect list"
where
  "sim_cancel_order append_op instrument order_id client_oid sim =
     (let matches = (\<lambda>po. (instrument = [] \<or> instrument = t_ticker (po_trade po)) \<and>
            ((client_oid \<noteq> 0 \<and> t_client_order_id (po_trade po) = client_oid) \<or>
             (order_id \<noteq> 0 \<and> po_exchange_order_id po = order_id)))
      in case List.extract matches (sx_resting_orders (fst sim)) of
           None \<Rightarrow> deliver_all append_op [] sim
         | Some (before, po, after) \<Rightarrow>
             (let (r, sx, env) = cancel_response (po_trade po) sim
              in deliver_all append_op [(po, r\<lparr>r_exchange_order_id := po_exchange_order_id po\<rparr>)]
                   (sx\<lparr>sx_resting_orders := before @ after\<rparr>, env)))"

definition sim_cancel_all_orders ::
  "'s append_fn \<Rightarrow> string \<Rightarrow> ('cb, 'f, 's) sim \<Rightarrow> ('cb, 'f, 's) sim \<times> ('cb, 'f) effect list"
where
  "sim_cancel_all_orders append_op instrument sim =
     (let (ds, sim) = sweep_resting
            (\<lambda>po. \<not> (instrument \<noteq> [] \<and> instrument \<noteq> t_ticker (po_trade po))) cancel_response sim
      in deliver_all append_op ds sim)"

definition sim_on_quote ::
  "'s append_fn \<Rightarrow> QuoteUpdate \<Rightarrow> ('cb, 'f, 's) sim \<Rightarrow> ('cb, 'f, 's) sim \<times> ('cb, 'f) effect list"
where
  "sim_on_quote append_op quote sim =
     (let (sx, env) = sim;
          sx = sx\<lparr>sx_quotes := (sx_quotes sx)(q_ticker quote \<mapsto> quote)\<rparr>;
          (ds, sim) = fill_resting_orders quote (sx, env)
      in deliver_all append_op ds sim)"

definition sim_on_trade ::
  "'s append_fn \<Rightarrow> TradeEvent \<Rightarrow> ('cb, 'f, 's) sim \<Rightarrow> ('cb, 'f, 's) sim \<times> ('cb, 'f) effect list"
where
  "sim_on_trade append_op ev sim =
     (let (ds, sim) = sweep_resting
            (\<lambda>po. e_ticker ev = t_ticker (po_trade po) \<and> t_type (po_trade po) = LIMIT
                  \<and> trade_crosses_limit ev (po_trade po))
            (\<lambda>t. make_response t FILLED (e_price ev) (e_timestamp_ns ev) []) sim
      in deliver_all append_op ds sim)"

definition sim_stats :: "('cb, 'f) SimulatedExecutionSink \<Rightarrow> SimulatedExecutionStats" where
  "sim_stats sx =
     \<lparr>ss_submitted = sx_submitted sx, ss_resting = of_nat (length (sx_resting_orders sx)),
      ss_filled = sx_filled sx, ss_canceled = sx_canceled sx, ss_rejected = sx_rejected sx,
      ss_storage_append_failures = sx_storage_append_failures sx,
      ss_gross_notional = sx_gross_notional sx, ss_fees = sx_fees sx\<rparr>"

section \<open>Runs of the simulator\<close>

text \<open>What reaches the simulator besides orders: cancels, quotes and market trades.\<close>

datatype sim_input =
    Cancel string u64 u64
  | CancelAll string
  | Quote QuoteUpdate
  | MarketPrint TradeEvent

fun sim_input_step ::
  "'s append_fn \<Rightarrow> sim_input \<Rightarrow> ('cb, 'f, 's) sim \<Rightarrow> ('cb, 'f, 's) sim \<times> ('cb, 'f) effect list"
where
  "sim_input_step ap (Cancel i oid cid) sim = sim_cancel_order ap i oid cid sim"
| "sim_input_step ap (CancelAll i) sim = sim_cancel_all_orders ap i sim"
| "sim_input_step ap (Quote q) sim = sim_on_quote ap q sim"
| "sim_input_step ap (MarketPrint ev) sim = sim_on_trade ap ev sim"

datatype ('cb, 'f) sim_op = Submit Trade "'cb option" "'f option" | Market sim_input

fun sim_step ::
  "'s append_fn \<Rightarrow> ('cb, 'f) sim_op \<Rightarrow> ('cb, 'f, 's) sim \<Rightarrow> ('cb, 'f, 's) sim \<times> ('cb, 'f) effect list"
where
  "sim_step ap (Submit t c f) sim = snd (sim_submit_trade ap t c f sim)"
| "sim_step ap (Market x) sim = sim_input_step ap x sim"

abbreviation sim_run ::
  "'s append_fn \<Rightarrow> ('cb, 'f) sim_op list \<Rightarrow> ('cb, 'f, 's) sim \<Rightarrow> ('cb, 'f, 's) sim \<times> ('cb, 'f) effect list"
where
  "sim_run ap \<equiv> run_steps (sim_step ap)"

fun submission :: "('cb, 'f) sim_op \<Rightarrow> (Trade \<times> 'cb option) list" where
  "submission (Submit t c f) = [(t, c)]"
| "submission (Market x) = []"

abbreviation resting :: "('cb, 'f, 's) sim \<Rightarrow> ('cb, 'f) PendingOrder list" where
  "resting sim \<equiv> sx_resting_orders (fst sim)"

abbreviation quotes :: "('cb, 'f, 's) sim \<Rightarrow> string \<rightharpoonup> QuoteUpdate" where
  "quotes sim \<equiv> sx_quotes (fst sim)"

abbreviation po_order :: "('cb, 'f) PendingOrder \<Rightarrow> Trade \<times> 'cb option" where
  "po_order po \<equiv> (po_trade po, po_response_callback po)"

text \<open>Orders answered so far and orders submitted so far, as the statistics count them.\<close>

definition tally :: "('cb, 'f, 's) sim \<Rightarrow> u64 \<times> u64" where
  "tally sim = (sx_filled (fst sim) + sx_canceled (fst sim) + sx_rejected (fst sim), sx_submitted (fst sim))"

subsection \<open>Helper functions\<close>

lemma make_response_resting [simp]:
  "resting (snd (make_response t st p ts msg sim)) = resting sim"
  "quotes (snd (make_response t st p ts msg sim)) = quotes sim"
  "tally (snd (make_response t st p ts msg sim)) = tally sim"
  "env_storage (snd (snd (make_response t st p ts msg sim))) = env_storage (snd sim)"
  by (simp_all add: make_response_def tally_def env_now_def Let_def split: prod.splits)

lemma make_response_fields [simp]:
  "r_client_order_id (fst (make_response t st p ts msg sim)) = t_client_order_id t"
  "r_status (fst (make_response t st p ts msg sim)) = st"
  "r_avg_price (fst (make_response t st p ts msg sim)) = p"
  "r_filled_quantity (fst (make_response t st p ts msg sim)) = (if st = FILLED then t_quantity t else 0)"
  "r_remaining_quantity (fst (make_response t st p ts msg sim)) = (if st = FILLED then 0 else t_quantity t)"
  by (simp_all add: make_response_def Let_def new_OrderResponse_def split: prod.splits)

lemma cancel_response_simps [simp]:
  "resting (snd (cancel_response t sim)) = resting sim"
  "quotes (snd (cancel_response t sim)) = quotes sim"
  "answers t (fst (cancel_response t sim))"
  "env_storage (snd (snd (cancel_response t sim))) = env_storage (snd sim)"
  "tally (snd (cancel_response t sim)) = tally sim"
  by (simp_all add: cancel_response_def answers_def env_now_def case_prod_beta Let_def) (simp add: tally_def)

lemma append_storage_event_simps [simp]:
  "resting (fst (append_storage_event ap e f sim)) = resting sim"
  "quotes (fst (append_storage_event ap e f sim)) = quotes sim"
  "responses (snd (append_storage_event ap e f sim)) = []"
  "tally (fst (append_storage_event ap e f sim)) = tally sim"
  by (simp_all add: append_storage_event_def tally_def Let_def split: prod.splits)

lemma publish_response_simps [simp]:
  "resting (fst (publish_response ap r c f sim)) = resting sim"
  "quotes (fst (publish_response ap r c f sim)) = quotes sim"
  "responses (snd (publish_response ap r c f sim)) = (case c of None \<Rightarrow> [] | Some cb \<Rightarrow> [(cb, r)])"
proof -
  obtain sx env where sim: "sim = (sx, env)" by (cases sim)
  show "resting (fst (publish_response ap r c f sim)) = resting sim"
    "quotes (fst (publish_response ap r c f sim)) = quotes sim"
    "responses (snd (publish_response ap r c f sim)) = (case c of None \<Rightarrow> [] | Some cb \<Rightarrow> [(cb, r)])"
    by (simp_all add: sim publish_response_def Let_def case_prod_beta split: OrderStatus.splits)
qed

lemma deliver_all_spec:
  "resting (fst (deliver_all ap ds sim)) = resting sim \<and> quotes (fst (deliver_all ap ds sim)) = quotes sim
   \<and> responses (snd (deliver_all ap ds sim)) = seen (map (\<lambda>(po, r). (po_order po, r)) ds)"
proof (induction ds arbitrary: sim)
  case (Cons d ds)
  obtain po r where d: "d = (po, r)" by (cases d)
  show ?case
    using Cons.IH [of "fst (publish_response ap r (po_response_callback po) (po_storage_failure_callback po) sim)"]
    by (simp add: d case_prod_beta Let_def)
qed simp

lemmas deliver_all_simps [simp] =
  deliver_all_spec [THEN conjunct1] deliver_all_spec [THEN conjunct2, THEN conjunct1]
  deliver_all_spec [THEN conjunct2, THEN conjunct2]

lemma sweep_orders_spec:
  assumes "\<And>t sim. resting (snd (respond t sim)) = resting sim"
    and "\<And>t sim. quotes (snd (respond t sim)) = quotes sim"
    and "\<And>po sim. selected po \<Longrightarrow> answers (po_trade po) (fst (respond (po_trade po) sim))"
    and "sweep_orders selected respond pos sim = (kept, ds, sim')"
  shows "kept = filter (\<lambda>po. \<not> selected po) pos \<and> map fst ds = filter selected pos
    \<and> (\<forall>(po, r) \<in> set ds. answers (po_trade po) r) \<and> resting sim' = resting sim \<and> quotes sim' = quotes sim"
  using assms(4)
proof (induction pos arbitrary: sim kept ds sim')
  case (Cons po pos)
  obtain r s1 where r: "respond (po_trade po) sim = (r, s1)" by (cases "respond (po_trade po) sim")
  have s1: "resting s1 = resting sim" "quotes s1 = quotes sim"
    using assms(1,2) [of "po_trade po" sim] r by simp_all
  have "answers (po_trade po) r" if "selected po" using assms(3) [OF that, of sim] r by simp
  moreover obtain k d s2
    where rec: "sweep_orders selected respond pos (if selected po then s1 else sim) = (k, d, s2)"
    by (metis prod_cases3)
  note Cons.IH [OF this]
  ultimately show ?case using Cons.prems r s1 rec by (cases "selected po") auto
qed simp

lemma sweep_orders_tally:
  assumes "\<And>t sim. tally (snd (respond t sim)) = tally sim"
  shows "tally (snd (snd (sweep_orders selected respond pos sim))) = tally sim"
  by (induction pos arbitrary: sim) (simp_all add: assms case_prod_beta Let_def)

lemma sweep_orders_storage:
  assumes "\<And>t sim. env_storage (snd (snd (respond t sim))) = env_storage (snd sim)"
  shows "env_storage (snd (snd (snd (sweep_orders selected respond pos sim)))) = env_storage (snd sim)"
  by (induction pos arbitrary: sim) (simp_all add: assms case_prod_beta Let_def)

text \<open>
  A sweep answers the selected orders, keeps the others in their order, and leaves quotes, storage
  and statistics alone until the responses are delivered.
\<close>

definition swept ::
  "(('cb, 'f) PendingOrder \<Rightarrow> bool) \<Rightarrow> ('cb, 'f, 's) sim \<Rightarrow> (('cb, 'f) PendingOrder \<times> OrderResponse) list
   \<Rightarrow> ('cb, 'f, 's) sim \<Rightarrow> bool"
where
  "swept selected sim ds sim' \<longleftrightarrow>
     resting sim' = filter (\<lambda>po. \<not> selected po) (resting sim) \<and> map fst ds = filter selected (resting sim) \<and>
     list_all (\<lambda>(po, r). answers (po_trade po) r) ds \<and> quotes sim' = quotes sim \<and> tally sim' = tally sim \<and>
     env_storage (snd sim') = env_storage (snd sim)"

lemma sweep_resting_swept:
  assumes "\<And>t sim. resting (snd (respond t sim)) = resting sim"
    and "\<And>t sim. quotes (snd (respond t sim)) = quotes sim"
    and "\<And>po sim. selected po \<Longrightarrow> answers (po_trade po) (fst (respond (po_trade po) sim))"
    and "\<And>t sim. tally (snd (respond t sim)) = tally sim"
    and "\<And>t sim. env_storage (snd (snd (respond t sim))) = env_storage (snd sim)"
    and "sweep_resting selected respond sim = (ds, sim')"
  shows "swept selected sim ds sim'"
proof -
  obtain k d sx env where sw: "sweep_orders selected respond (resting sim) sim = (k, d, sx, env)"
    by (metis prod_cases4)
  have "tally (sx, env) = tally sim"
    using sw sweep_orders_tally [where respond = respond and selected = selected and pos = "resting sim"
        and sim = sim, OF assms(4)] by simp
  moreover have "env_storage env = env_storage (snd sim)"
    using sw sweep_orders_storage [where respond = respond and selected = selected and pos = "resting sim"
        and sim = sim, OF assms(5)] by simp
  ultimately show ?thesis
    using sweep_orders_spec [OF assms(1-3) sw] assms(6) sw
    by (auto simp: sweep_resting_def swept_def list_all_iff) (simp add: tally_def)
qed

lemma on_quote_swept:
  obtains ds s' where "swept (\<lambda>po. q_ticker q = t_ticker (po_trade po) \<and> t_type (po_trade po) = LIMIT
        \<and> quote_crosses q (po_trade po))
      ((fst sim)\<lparr>sx_quotes := (quotes sim)(q_ticker q \<mapsto> q)\<rparr>, snd sim) ds s'"
    "sim_on_quote ap q sim = deliver_all ap ds s'"
proof -
  obtain ds s' where sw: "fill_resting_orders q ((fst sim)\<lparr>sx_quotes := (quotes sim)(q_ticker q \<mapsto> q)\<rparr>, snd sim)
      = (ds, s')" by (rule prod.exhaust)
  show ?thesis
  proof (rule that)
    show "swept (\<lambda>po. q_ticker q = t_ticker (po_trade po) \<and> t_type (po_trade po) = LIMIT
        \<and> quote_crosses q (po_trade po)) ((fst sim)\<lparr>sx_quotes := (quotes sim)(q_ticker q \<mapsto> q)\<rparr>, snd sim) ds s'"
      by (rule sweep_resting_swept [OF _ _ _ _ _ sw [unfolded fill_resting_orders_def]])
        (simp_all add: answers_def quote_crosses_def)
    show "sim_on_quote ap q sim = deliver_all ap ds s'"
      using sw by (simp add: sim_on_quote_def case_prod_beta Let_def)
  qed
qed

lemma on_trade_swept:
  obtains sel ds s' where "swept sel sim ds s'" "sim_on_trade ap ev sim = deliver_all ap ds s'"
proof -
  let ?sel = "\<lambda>po. e_ticker ev = t_ticker (po_trade po) \<and> t_type (po_trade po) = LIMIT
     \<and> trade_crosses_limit ev (po_trade po)"
  obtain ds s' where sw: "sweep_resting ?sel (\<lambda>t. make_response t FILLED (e_price ev) (e_timestamp_ns ev) []) sim
      = (ds, s')" by (rule prod.exhaust)
  show ?thesis
    by (rule that [of ?sel ds s'], rule sweep_resting_swept [OF _ _ _ _ _ sw])
      (use sw in \<open>simp_all add: answers_def trade_crosses_limit_def sim_on_trade_def\<close>)
qed

lemma cancel_all_swept:
  obtains sel ds s' where "swept sel sim ds s'" "sim_cancel_all_orders ap i sim = deliver_all ap ds s'"
proof -
  let ?sel = "\<lambda>po. \<not> (i \<noteq> [] \<and> i \<noteq> t_ticker (po_trade po))"
  obtain ds s' where sw: "sweep_resting ?sel cancel_response sim = (ds, s')" by (rule prod.exhaust)
  show ?thesis
    by (rule that [of ?sel ds s'], rule sweep_resting_swept [OF _ _ _ _ _ sw])
      (use sw in \<open>simp_all add: sim_cancel_all_orders_def\<close>)
qed

subsection \<open>Every order is answered once\<close>

lemma new_sim_simps [simp]:
  "sx_resting_orders (new_SimulatedExecutionSink config) = []"
  "sx_quotes (new_SimulatedExecutionSink config) = Map.empty"
  by (simp_all add: new_SimulatedExecutionSink_def)

lemma deliver_accounts:
  assumes "list_all (\<lambda>(po, r). answers (po_trade po) r) ds"
    and "mset opened + mset ns = mset (map (po_order \<circ> fst) ds) + mset (map po_order (resting sim))"
  shows "accounts opened ns (snd (deliver_all ap ds sim)) (map po_order (resting (fst (deliver_all ap ds sim))))"
  unfolding accounts_def using assms
  by (intro exI [of _ "map (\<lambda>(po, r). (po_order po, r)) ds"])
    (simp add: list_all_iff case_prod_beta comp_def)

lemma swept_accounts:
  assumes "swept selected sim ds sim'"
  shows "accounts (map po_order (resting sim)) [] (snd (deliver_all ap ds sim'))
    (map po_order (resting (fst (deliver_all ap ds sim'))))"
proof (rule deliver_accounts)
  show "list_all (\<lambda>(po, r). answers (po_trade po) r) ds" using assms by (simp add: swept_def)
  have "mset (map po_order (resting sim))
      = image_mset po_order (mset (filter selected (resting sim)) + mset (filter (\<lambda>po. \<not> selected po) (resting sim)))"
    by (simp only: filter_partition_mset mset_map)
  also have "\<dots> = mset (map po_order (map fst ds)) + mset (map po_order (resting sim'))"
    using assms by (simp only: swept_def image_mset_union mset_map)
  also have "\<dots> = mset (map (po_order \<circ> fst) ds) + mset (map po_order (resting sim'))"
    by (simp only: map_map)
  finally show "mset (map po_order (resting sim)) + mset []
      = mset (map (po_order \<circ> fst) ds) + mset (map po_order (resting sim'))" by simp
qed

lemma immediate_fill_answers:
  "immediate_fill t sx = Some fill \<Longrightarrow> answers t (fst (make_response t FILLED (fl_price fill) ts msg sim))"
  by (auto simp: immediate_fill_def answers_def split: option.splits if_splits)

definition crossed :: "(string \<rightharpoonup> QuoteUpdate) \<Rightarrow> Trade \<Rightarrow> bool" where
  "crossed qs t =
     (case qs (t_ticker t) of None \<Rightarrow> False | Some q \<Rightarrow> t_type t = LIMIT \<and> quote_crosses q t)"

lemma immediate_fill_None: "immediate_fill t sx = None \<Longrightarrow> \<not> crossed (sx_quotes sx) t"
  by (auto simp: immediate_fill_def crossed_def quote_crosses_def split: option.splits if_splits)

text \<open>The state after \<open>submit_trade\<close> has counted and stored the submission.\<close>

definition submit_stored :: "'s append_fn \<Rightarrow> Trade \<Rightarrow> 'f option \<Rightarrow> ('cb, 'f, 's) sim \<Rightarrow> ('cb, 'f, 's) sim" where
  "submit_stored ap t f sim =
     (let (event, env) = storage_event TradeSubmitted (PTrade t) (snd sim)
      in fst (append_storage_event ap event f ((fst sim)\<lparr>sx_submitted := sx_submitted (fst sim) + 1\<rparr>, env)))"

lemma submit_cases:
  obtains (answered) e r s' where "answers t r" "responses e = []"
      "resting s' = resting sim" "quotes s' = quotes sim" "tally s' = (fst (tally sim), snd (tally sim) + 1)"
      "env_storage (snd s') = env_storage (snd (submit_stored ap t f sim))"
      "sim_submit_trade ap t c f sim
         = (True, fst (publish_response ap r c f s'), e @ snd (publish_response ap r c f s'))"
  | (rests) e po s' where "responses e = []" "resting s' = resting sim @ [po]" "po_order po = (t, c)"
      "\<not> crossed (quotes sim) t" "quotes s' = quotes sim" "tally s' = (fst (tally sim), snd (tally sim) + 1)"
      "env_storage (snd s') = env_storage (snd (submit_stored ap t f sim))"
      "sim_submit_trade ap t c f sim = (True, s', e)"
proof -
  obtain sx env where sim: "sim = (sx, env)" by (cases sim)
  obtain ev env1 where ev: "storage_event TradeSubmitted (PTrade t) env = (ev, env1)" by fastforce
  let ?s0 = "(sx\<lparr>sx_submitted := sx_submitted sx + 1\<rparr>, env1)"
  obtain sx1 env2 e1 where s1: "append_storage_event ap ev f ?s0 = ((sx1, env2), e1)"
    by (metis prod.collapse)
  have e1: "responses e1 = []" and rest: "resting (sx1, env2) = resting sim" "quotes (sx1, env2) = quotes sim"
    "tally (sx1, env2) = (fst (tally sim), snd (tally sim) + 1)"
    using append_storage_event_simps [of ap ev f ?s0] s1 sim by (simp_all add: tally_def)
  note unfold = sim_submit_trade_def submit_stored_def sim ev s1 Let_def case_prod_beta
  show ?thesis
  proof (cases "validate_order t sx1")
    case (Some reason)
    show ?thesis
      by (rule answered [OF _ e1, of "fst (make_response t REJECTED 0 0 reason (sx1, env2))"
            "snd (make_response t REJECTED 0 0 reason (sx1, env2))"])
        (use rest Some in \<open>simp_all add: unfold, simp add: answers_def\<close>)
  next
    case None
    show ?thesis
    proof (cases "immediate_fill t sx1")
      case (Some fill)
      show ?thesis
        by (rule answered [OF _ e1, of "fst (make_response t FILLED (fl_price fill) (fl_timestamp_ns fill) [] (sx1, env2))"
              "snd (make_response t FILLED (fl_price fill) (fl_timestamp_ns fill) [] (sx1, env2))"])
          (use rest None Some immediate_fill_answers [OF Some] in \<open>simp_all add: unfold\<close>)
    next
      case immediate: None
      let ?po = "\<lparr>po_trade = t, po_exchange_order_id = sx_next_exchange_order_id sx1, po_response_callback = c,
        po_storage_failure_callback = f\<rparr>"
      show ?thesis
        by (rule rests [OF e1, of "(sx1\<lparr>sx_next_exchange_order_id := sx_next_exchange_order_id sx1 + 1,
              sx_resting_orders := sx_resting_orders sx1 @ [?po]\<rparr>, env2)" ?po])
          (use rest None immediate immediate_fill_None [OF immediate] in \<open>simp_all add: unfold, simp add: tally_def\<close>)
    qed
  qed
qed

lemma submit_accounts:
  "accounts (map po_order (resting sim)) [(t, c)] (snd (snd (sim_submit_trade ap t c f sim)))
     (map po_order (resting (fst (snd (sim_submit_trade ap t c f sim)))))"
proof (rule submit_cases [where ap = ap and t = t and c = c and f = f and sim = sim], goal_cases)
  case (1 e r s')
  then show ?case unfolding accounts_def by (intro exI [of _ "[((t, c), r)]"]) simp
next
  case (2 e po s')
  then show ?case unfolding accounts_def by (intro exI [of _ "[]"]) simp
qed

lemma cancel_cases:
  obtains (no_match) "sim_cancel_order ap i oid cid sim = (sim, [])"
  | (match) xs po ys r s' where "resting sim = xs @ po # ys" "answers (po_trade po) r"
      "resting s' = xs @ ys" "quotes s' = quotes sim" "tally s' = tally sim"
      "env_storage (snd s') = env_storage (snd sim)"
      "sim_cancel_order ap i oid cid sim = deliver_all ap [(po, r)] s'"
proof -
  let ?P = "\<lambda>po. (i = [] \<or> i = t_ticker (po_trade po)) \<and>
     ((cid \<noteq> 0 \<and> t_client_order_id (po_trade po) = cid) \<or> (oid \<noteq> 0 \<and> po_exchange_order_id po = oid))"
  show ?thesis
  proof (cases "List.extract ?P (resting sim)")
    case None
    then show ?thesis by (intro no_match) (simp add: sim_cancel_order_def Let_def)
  next
    case (Some x)
    then obtain xs po ys where x: "List.extract ?P (resting sim) = Some (xs, po, ys)" by (cases x) auto
    obtain r sx env where r: "cancel_response (po_trade po) sim = (r, sx, env)" by (metis prod_cases3)
    show ?thesis
    proof (rule match)
      show "resting sim = xs @ po # ys" using x by (simp add: extract_Some_iff)
      show "answers (po_trade po) (r\<lparr>r_exchange_order_id := po_exchange_order_id po\<rparr>)"
        using cancel_response_simps(3) [of "po_trade po" sim] r by simp
      show "resting (sx\<lparr>sx_resting_orders := xs @ ys\<rparr>, env) = xs @ ys" by simp
      show "quotes (sx\<lparr>sx_resting_orders := xs @ ys\<rparr>, env) = quotes sim"
        using cancel_response_simps(2) [of "po_trade po" sim] r by simp
      show "env_storage (snd (sx\<lparr>sx_resting_orders := xs @ ys\<rparr>, env)) = env_storage (snd sim)"
        using cancel_response_simps(4) [of "po_trade po" sim] r by simp
      show "tally (sx\<lparr>sx_resting_orders := xs @ ys\<rparr>, env) = tally sim"
        using cancel_response_simps(5) [of "po_trade po" sim] r by (simp add: tally_def)
      show "sim_cancel_order ap i oid cid sim
          = deliver_all ap [(po, r\<lparr>r_exchange_order_id := po_exchange_order_id po\<rparr>)]
              (sx\<lparr>sx_resting_orders := xs @ ys\<rparr>, env)"
        by (simp only: sim_cancel_order_def Let_def x option.case prod.case r)
    qed
  qed
qed

lemma cancel_accounts:
  "accounts (map po_order (resting sim)) [] (snd (sim_cancel_order ap i oid cid sim))
     (map po_order (resting (fst (sim_cancel_order ap i oid cid sim))))"
proof (rule cancel_cases [where ap = ap and i = i and oid = oid and cid = cid and sim = sim], goal_cases)
  case (2 xs po ys r s')
  then show ?case by (simp only:) (rule deliver_accounts; simp)
qed simp

lemma input_accounts:
  "accounts (map po_order (resting sim)) [] (snd (sim_input_step ap x sim))
     (map po_order (resting (fst (sim_input_step ap x sim))))"
proof (cases x)
  case (Quote q)
  obtain ds s' where "swept (\<lambda>po. q_ticker q = t_ticker (po_trade po) \<and> t_type (po_trade po) = LIMIT
        \<and> quote_crosses q (po_trade po)) ((fst sim)\<lparr>sx_quotes := (quotes sim)(q_ticker q \<mapsto> q)\<rparr>, snd sim) ds s'"
    "sim_on_quote ap q sim = deliver_all ap ds s'" by (rule on_quote_swept)
  with swept_accounts [OF this(1), of ap] Quote show ?thesis by simp
next
  case (MarketPrint ev)
  obtain sel ds s' where "swept sel sim ds s'" "sim_on_trade ap ev sim = deliver_all ap ds s'"
    by (rule on_trade_swept)
  with swept_accounts [OF this(1), of ap] MarketPrint show ?thesis by simp
next
  case (CancelAll i)
  obtain sel ds s' where "swept sel sim ds s'" "sim_cancel_all_orders ap i sim = deliver_all ap ds s'"
    by (rule cancel_all_swept)
  with swept_accounts [OF this(1), of ap] CancelAll show ?thesis by simp
qed (simp_all add: cancel_accounts)

interpretation sim: order_ledger "sim_step ap" submission "\<lambda>sim. map po_order (resting sim)"
  for ap :: "'s append_fn"
proof
  show "accounts (map po_order (resting sim)) (submission x) (snd (sim_step ap x sim))
      (map po_order (resting (fst (sim_step ap x sim))))" for sim :: "('cb, 'f, 's) sim" and x
    by (cases x) (simp_all add: submit_accounts input_accounts)
qed

text \<open>
  (C3) Whatever is submitted, canceled, quoted or traded, every order is answered exactly once, by
  its own callback, or is still resting: a fill is complete and never worse than the limit price,
  a cancel or rejection leaves the whole quantity unfilled.
\<close>

theorem sim_every_order_answered_once:
  "let (sim, eff) = sim_run ap ops (new_SimulatedExecutionSink config, env)
   in \<exists>as. responses eff = seen as \<and> list_all (\<lambda>((t, c), r). answers t r) as
        \<and> mset (concat (map submission ops)) = mset (map fst as) + mset (map po_order (resting sim))"
  using sim.run_accounts [of "(new_SimulatedExecutionSink config, env)" ops ap]
  by (simp add: accounts_def case_prod_beta)

subsection \<open>No resting order is executable at the current quote\<close>

definition uncrossed :: "('cb, 'f, 's) sim \<Rightarrow> bool" where
  "uncrossed sim \<longleftrightarrow> list_all (\<lambda>po. \<not> crossed (quotes sim) (po_trade po)) (resting sim)"

lemma swept_uncrossed:
  assumes "swept sel sim ds sim'"
    and "\<And>po. po \<in> set (resting sim) \<Longrightarrow> \<not> sel po \<Longrightarrow> \<not> crossed (quotes sim) (po_trade po)"
  shows "uncrossed (fst (deliver_all ap ds sim'))"
  using assms by (auto simp: uncrossed_def swept_def list_all_iff)

lemma submit_uncrossed: "uncrossed sim \<Longrightarrow> uncrossed (fst (snd (sim_submit_trade ap t c f sim)))"
  by (rule submit_cases [where ap = ap and t = t and c = c and f = f and sim = sim])
    (auto simp: uncrossed_def)

lemma cancel_uncrossed: "uncrossed sim \<Longrightarrow> uncrossed (fst (sim_cancel_order ap i oid cid sim))"
  by (rule cancel_cases [where ap = ap and i = i and oid = oid and cid = cid and sim = sim])
    (simp_all add: uncrossed_def del: deliver_all.simps)

lemma input_uncrossed: "uncrossed sim \<Longrightarrow> uncrossed (fst (sim_input_step ap x sim))"
proof (cases x)
  case (Quote q)
  assume u: "uncrossed sim"
  obtain ds s' where "swept (\<lambda>po. q_ticker q = t_ticker (po_trade po) \<and> t_type (po_trade po) = LIMIT
        \<and> quote_crosses q (po_trade po)) ((fst sim)\<lparr>sx_quotes := (quotes sim)(q_ticker q \<mapsto> q)\<rparr>, snd sim) ds s'"
    "sim_on_quote ap q sim = deliver_all ap ds s'" by (rule on_quote_swept)
  with swept_uncrossed [OF this(1), of ap] u Quote show ?thesis
    by (auto simp: uncrossed_def crossed_def list_all_iff split: if_splits)
next
  case (MarketPrint ev)
  assume u: "uncrossed sim"
  obtain sel ds s' where "swept sel sim ds s'" "sim_on_trade ap ev sim = deliver_all ap ds s'"
    by (rule on_trade_swept)
  with swept_uncrossed [OF this(1), of ap] u MarketPrint show ?thesis
    by (simp add: uncrossed_def list_all_iff)
next
  case (CancelAll i)
  assume u: "uncrossed sim"
  obtain sel ds s' where "swept sel sim ds s'" "sim_cancel_all_orders ap i sim = deliver_all ap ds s'"
    by (rule cancel_all_swept)
  with swept_uncrossed [OF this(1), of ap] u CancelAll show ?thesis
    by (simp add: uncrossed_def list_all_iff)
qed (simp_all add: cancel_uncrossed)

lemma step_uncrossed: "uncrossed sim \<Longrightarrow> uncrossed (fst (sim_step ap x sim))"
  by (cases x) (simp_all add: submit_uncrossed input_uncrossed)

lemma run_uncrossed: "uncrossed sim \<Longrightarrow> uncrossed (fst (sim_run ap ops sim))"
proof (induction ops arbitrary: sim)
  case (Cons x ops)
  with step_uncrossed [of sim ap x] show ?case by (simp add: case_prod_beta Let_def)
qed simp


subsection \<open>Statistics\<close>

lemma publish_response_tally:
  "answers t r \<Longrightarrow>
   tally (fst (publish_response ap r c f sim)) = (fst (tally sim) + 1, snd (tally sim))"
proof -
  obtain sx env where sim: "sim = (sx, env)" by (cases sim)
  assume "answers t r"
  then show ?thesis
    by (auto simp: sim publish_response_def Let_def case_prod_beta answers_def)
      (simp_all add: tally_def)
qed

lemma deliver_all_tally:
  "list_all (\<lambda>(po, r). answers (po_trade po) r) ds \<Longrightarrow>
   tally (fst (deliver_all ap ds sim)) = (fst (tally sim) + of_nat (length ds), snd (tally sim))"
proof (induction ds arbitrary: sim)
  case (Cons d ds)
  obtain po r where d: "d = (po, r)" by (cases d)
  with Cons.prems have "answers (po_trade po) r" by simp
  from publish_response_tally [OF this, of ap "po_response_callback po" "po_storage_failure_callback po" sim]
    Cons d show ?case by (simp add: case_prod_beta Let_def)
qed simp

definition balanced :: "('cb, 'f, 's) sim \<Rightarrow> bool" where
  "balanced sim \<longleftrightarrow> snd (tally sim) = fst (tally sim) + of_nat (length (resting sim))"

lemma swept_balanced:
  assumes "swept sel sim ds sim'" and "balanced sim"
  shows "balanced (fst (deliver_all ap ds sim'))"
proof -
  have "length (resting sim) = length ds + length (resting sim')"
    using assms(1) sum_length_filter_compl [of sel "resting sim"] by (metis length_map swept_def)
  with assms deliver_all_tally [of ds ap sim'] show ?thesis by (simp add: balanced_def swept_def)
qed

lemma submit_balanced: "balanced sim \<Longrightarrow> balanced (fst (snd (sim_submit_trade ap t c f sim)))"
proof (rule submit_cases [where ap = ap and t = t and c = c and f = f and sim = sim], goal_cases)
  case (1 e r s')
  with publish_response_tally [of t r ap c f s'] show ?case by (simp add: balanced_def)
qed (simp add: balanced_def)

lemma cancel_balanced: "balanced sim \<Longrightarrow> balanced (fst (sim_cancel_order ap i oid cid sim))"
proof (rule cancel_cases [where ap = ap and i = i and oid = oid and cid = cid and sim = sim], goal_cases)
  case (2 xs po ys r s')
  then show ?case
    using deliver_all_tally [of "[(po, r)]" ap s'] by (simp add: balanced_def del: deliver_all.simps)
qed simp

lemma input_balanced: "balanced sim \<Longrightarrow> balanced (fst (sim_input_step ap x sim))"
proof (cases x)
  case (Quote q)
  assume u: "balanced sim"
  obtain ds s' where "swept (\<lambda>po. q_ticker q = t_ticker (po_trade po) \<and> t_type (po_trade po) = LIMIT
        \<and> quote_crosses q (po_trade po)) ((fst sim)\<lparr>sx_quotes := (quotes sim)(q_ticker q \<mapsto> q)\<rparr>, snd sim) ds s'"
    "sim_on_quote ap q sim = deliver_all ap ds s'" by (rule on_quote_swept)
  with swept_balanced [OF this(1), of ap] u Quote show ?thesis by (simp add: balanced_def tally_def)
next
  case (MarketPrint ev)
  assume u: "balanced sim"
  obtain sel ds s' where "swept sel sim ds s'" "sim_on_trade ap ev sim = deliver_all ap ds s'"
    by (rule on_trade_swept)
  with swept_balanced [OF this(1) u, of ap] MarketPrint show ?thesis by simp
next
  case (CancelAll i)
  assume u: "balanced sim"
  obtain sel ds s' where "swept sel sim ds s'" "sim_cancel_all_orders ap i sim = deliver_all ap ds s'"
    by (rule cancel_all_swept)
  with swept_balanced [OF this(1) u, of ap] CancelAll show ?thesis by simp
qed (simp_all add: cancel_balanced)

lemma step_balanced: "balanced sim \<Longrightarrow> balanced (fst (sim_step ap x sim))"
  by (cases x) (simp_all add: submit_balanced input_balanced)

lemma run_balanced: "balanced sim \<Longrightarrow> balanced (fst (sim_run ap ops sim))"
proof (induction ops arbitrary: sim)
  case (Cons x ops)
  with step_balanced [of sim ap x] show ?case by (simp add: case_prod_beta Let_def)
qed simp

text \<open>
  The statistics add up at every moment: the orders submitted are the orders resting, filled,
  canceled and rejected together (as 64-bit counters).
\<close>

theorem sim_stats_balance:
  "let st = sim_stats (fst (fst (sim_run ap ops (new_SimulatedExecutionSink config, env))))
   in ss_submitted st = ss_resting st + ss_filled st + ss_canceled st + ss_rejected st"
proof -
  have "balanced (new_SimulatedExecutionSink config, env)"
    by (simp add: balanced_def tally_def new_SimulatedExecutionSink_def)
  from run_balanced [OF this, of ap ops] show ?thesis
    by (simp add: balanced_def tally_def sim_stats_def ac_simps)
qed

subsection \<open>Market orders without a market\<close>

lemma quote_keeps_market_orders:
  "list_all (\<lambda>po. t_type (po_trade po) = MARKET) (resting sim) \<Longrightarrow> resting (fst (sim_on_quote ap q sim)) = resting sim"
proof -
  assume m: "list_all (\<lambda>po. t_type (po_trade po) = MARKET) (resting sim)"
  obtain ds s' where sw: "swept (\<lambda>po. q_ticker q = t_ticker (po_trade po) \<and> t_type (po_trade po) = LIMIT
        \<and> quote_crosses q (po_trade po)) ((fst sim)\<lparr>sx_quotes := (quotes sim)(q_ticker q \<mapsto> q)\<rparr>, snd sim) ds s'"
    "sim_on_quote ap q sim = deliver_all ap ds s'" by (rule on_quote_swept)
  then have "resting s' = filter (\<lambda>po. \<not> (q_ticker q = t_ticker (po_trade po) \<and> t_type (po_trade po) = LIMIT
        \<and> quote_crosses q (po_trade po))) (resting sim)" by (simp add: swept_def)
  also have "\<dots> = resting sim" using m by (auto simp: filter_id_conv list_all_iff)
  finally show ?thesis using sw(2) by simp
qed

text \<open>
  (C34) With \<open>reject_without_market\<close> off, a market order submitted before the first quote of its
  instrument is never executed: it rests, and no sequence of quotes fills it.
\<close>

theorem sim_market_order_rests_forever:
  fixes ap :: "'s append_fn" and c :: "'cb option" and f :: "'f option"
  assumes "t_type t = MARKET" and "validate_order t (new_SimulatedExecutionSink config :: ('cb, 'f) SimulatedExecutionSink) = None"
    and "\<not> sc_reject_without_market config"
  shows "map po_trade (resting (fst (sim_run ap (Submit t c f # map (Market \<circ> Quote) qs)
           (new_SimulatedExecutionSink config :: ('cb, 'f) SimulatedExecutionSink, env)))) = [t]"
proof -
  let ?sim = "(new_SimulatedExecutionSink config :: ('cb, 'f) SimulatedExecutionSink, env)"
  have keep: "resting (fst (sim_run ap (map (Market \<circ> Quote) qs) s)) = resting s"
    if "list_all (\<lambda>po. t_type (po_trade po) = MARKET) (resting s)" for s :: "('cb, 'f, 's) sim"
    using that
  proof (induction qs arbitrary: s)
    case (Cons q qs)
    then show ?case using quote_keeps_market_orders [of s ap q] by (simp add: case_prod_beta Let_def)
  qed simp
  have "map po_trade (resting (fst (snd (sim_submit_trade ap t c f ?sim)))) = [t]"
    using assms
    by (auto simp: sim_submit_trade_def append_storage_event_def validate_order_def immediate_fill_def
        new_SimulatedExecutionSink_def Let_def split: prod.splits if_splits)
  then obtain po where po: "resting (fst (snd (sim_submit_trade ap t c f ?sim))) = [po]" "po_trade po = t"
    by auto
  with keep [of "fst (snd (sim_submit_trade ap t c f ?sim))"] assms(1) show ?thesis
    by (simp add: case_prod_beta Let_def)
qed

definition example_config :: "bool \<Rightarrow> SimulatedExecutionConfig" where
  "example_config rj = \<lparr>sc_maker_fee_bps = Fin 1, sc_taker_fee_bps = Fin 5, sc_reject_without_market = rj\<rparr>"

definition example_trade :: "OrderType \<Rightarrow> OrderSide \<Rightarrow> rat \<Rightarrow> rat \<Rightarrow> Trade" where
  "example_trade ty side q p =
     \<lparr>t_client_order_id = 1, t_strategy_id = 1, t_ticker = ''X'', t_side = side, t_type = ty,
      t_time_in_force = GTC, t_exec_type = DEFAULT, t_quantity = Fin q, t_price = Fin p, t_trigger_price = 0,
      t_timestamp_ns = 0, t_priority = 0\<rparr>"

definition example_env :: "InMemoryStorage env" where
  "example_env = \<lparr>env_storage = Some new_InMemoryStorage, env_rt = \<lparr>order_id_counter = 0, clk = (\<lambda>n. int n + 1)\<rparr>\<rparr>"

definition example_quote :: "rat \<Rightarrow> rat \<Rightarrow> QuoteUpdate" where
  "example_quote b a =
     \<lparr>q_ticker = ''X'', q_bid_price = Fin b, q_bid_size = Fin 1, q_ask_price = Fin a, q_ask_size = Fin 1,
      q_timestamp_ns = 1\<rparr>"

theorem sim_market_order_rests_forever_witness:
  "map po_trade (resting (fst (sim_run in_memory_append
       (Submit (example_trade MARKET BUY 1 0) (Some ()) (Some ()) # map (Market \<circ> Quote) [example_quote 99 101])
       (new_SimulatedExecutionSink (example_config False), example_env)))) = [example_trade MARKET BUY 1 0]"
proof (rule sim_market_order_rests_forever)
  show "t_type (example_trade MARKET BUY 1 0) = MARKET" by code_simp
  show "validate_order (example_trade MARKET BUY 1 0)
      (new_SimulatedExecutionSink (example_config False) :: (unit, unit) SimulatedExecutionSink) = None"
    by code_simp
  show "\<not> sc_reject_without_market (example_config False)" by code_simp
qed

end
