(* ===== verification/Risk.thy ===== *)
theory Risk
  imports Simulated_Execution
begin

text \<open>
  \<open>include/risk/risk_manager.hpp\<close>: pre-trade checks, position keeping and the execution sink that
  puts the checks in front of another sink. The downstream sink is any \<open>IExecutionSink\<close>: its
  operations are parameters. The callback the risk sink hands downstream is named by the caller's
  callback it wraps, so a downstream response to \<open>c\<close> runs the wrapper of \<open>c\<close>.
\<close>

section \<open>RiskManager\<close>

record RiskLimits =
  rl_max_order_quantity :: double
  rl_max_order_notional :: double
  rl_max_net_position_abs :: double
  rl_allow_market_orders :: bool

record Position =
  ps_net_quantity :: double
  ps_avg_entry_price :: double
  ps_realized_pnl :: double

record RiskDecision =
  rd_accepted :: bool
  rd_reason :: string

record RiskManager =
  rk_limits :: RiskLimits
  rk_positions :: "string \<rightharpoonup> Position"
  rk_mid_prices :: "string \<rightharpoonup> double"

definition new_Position :: Position where
  "new_Position = \<lparr>ps_net_quantity = 0, ps_avg_entry_price = 0, ps_realized_pnl = 0\<rparr>"

definition new_RiskManager :: "RiskLimits \<Rightarrow> RiskManager" where
  "new_RiskManager limits = \<lparr>rk_limits = limits, rk_positions = Map.empty, rk_mid_prices = Map.empty\<rparr>"

definition set_limits :: "RiskLimits \<Rightarrow> RiskManager \<Rightarrow> RiskManager" where
  "set_limits limits rm = rm\<lparr>rk_limits := limits\<rparr>"

definition risk_update_quote :: "QuoteUpdate \<Rightarrow> RiskManager \<Rightarrow> RiskManager" where
  "risk_update_quote quote rm =
     rm\<lparr>rk_mid_prices := (rk_mid_prices rm)(q_ticker quote \<mapsto> (q_bid_price quote + q_ask_price quote) / Fin 2)\<rparr>"

definition risk_reject :: "string \<Rightarrow> RiskDecision" where
  "risk_reject reason = \<lparr>rd_accepted = False, rd_reason = reason\<rparr>"

definition order_risk_price :: "Trade \<Rightarrow> RiskManager \<Rightarrow> double" where
  "order_risk_price trade rm =
     (if 0 < t_price trade then t_price trade
      else (case rk_mid_prices rm (t_ticker trade) of None \<Rightarrow> 0 | Some mid \<Rightarrow> mid))"

definition check_order :: "Trade \<Rightarrow> RiskManager \<Rightarrow> RiskDecision" where
  "check_order trade rm =
     (let limits = rk_limits rm; risk_price = order_risk_price trade rm;
          current = (case rk_positions rm (t_ticker trade) of None \<Rightarrow> 0 | Some p \<Rightarrow> ps_net_quantity p);
          signed_qty = (if t_side trade = BUY then t_quantity trade else - t_quantity trade)
      in if t_quantity trade \<le> 0 then risk_reject ''quantity must be positive''
         else if \<not> rl_allow_market_orders limits \<and> t_type trade = MARKET
         then risk_reject ''market orders disabled''
         else if 0 < rl_max_order_quantity limits \<and> rl_max_order_quantity limits < t_quantity trade
         then risk_reject ''order quantity exceeds limit''
         else if 0 < rl_max_order_notional limits \<and> rl_max_order_notional limits < risk_price * t_quantity trade
         then risk_reject ''order notional exceeds limit''
         else if 0 < rl_max_net_position_abs limits
                 \<and> rl_max_net_position_abs limits < \<bar>current + signed_qty\<bar>
         then risk_reject ''net position exceeds limit''
         else \<lparr>rd_accepted = True, rd_reason = []\<rparr>)"

definition fill_position :: "double \<Rightarrow> double \<Rightarrow> Position \<Rightarrow> Position" where
  "fill_position signed_qty fill_price position =
     (if double_eq (ps_net_quantity position) 0
         \<or> (0 < ps_net_quantity position \<and> 0 < signed_qty)
         \<or> (ps_net_quantity position < 0 \<and> signed_qty < 0)
      then
        let old_abs = \<bar>ps_net_quantity position\<bar>;
            new_abs = old_abs + \<bar>signed_qty\<bar>
        in position\<lparr>ps_avg_entry_price :=
                      (if 0 < new_abs
                       then (ps_avg_entry_price position * old_abs + fill_price * \<bar>signed_qty\<bar>) / new_abs
                       else 0),
                    ps_net_quantity := ps_net_quantity position + signed_qty\<rparr>
      else
        let old_net = ps_net_quantity position;
            closing_qty = std_min \<bar>old_net\<bar> \<bar>signed_qty\<bar>;
            pnl_sign = (if 0 < old_net then Fin 1 else Fin (- 1));
            position = position\<lparr>ps_realized_pnl := ps_realized_pnl position
                         + (fill_price - ps_avg_entry_price position) * closing_qty * pnl_sign,
                       ps_net_quantity := ps_net_quantity position + signed_qty\<rparr>
        in if double_eq (ps_net_quantity position) 0 then position\<lparr>ps_avg_entry_price := 0\<rparr>
           else if (0 < old_net \<and> ps_net_quantity position < 0) \<or> (old_net < 0 \<and> 0 < ps_net_quantity position)
           then position\<lparr>ps_avg_entry_price := fill_price\<rparr>
           else position)"

definition risk_position :: "string \<Rightarrow> RiskManager \<Rightarrow> Position" where
  "risk_position ticker rm = (case rk_positions rm ticker of None \<Rightarrow> new_Position | Some p \<Rightarrow> p)"

definition on_fill :: "Trade \<Rightarrow> OrderResponse \<Rightarrow> RiskManager \<Rightarrow> RiskManager" where
  "on_fill trade response rm =
     (if r_status response \<noteq> FILLED \<and> r_status response \<noteq> PARTIALLY_FILLED then rm
      else let fill_qty = r_filled_quantity response
           in if fill_qty \<le> 0 then rm
              else let signed_qty = (if t_side trade = BUY then fill_qty else - fill_qty);
                       fill_price = (if 0 < r_avg_price response then r_avg_price response else t_price trade)
                   in rm\<lparr>rk_positions := (rk_positions rm)(t_ticker trade \<mapsto>
                            fill_position signed_qty fill_price (risk_position (t_ticker trade) rm))\<rparr>)"

section \<open>RiskCheckedExecutionSink\<close>

record RiskCheckedExecutionSink =
  rs_risk_manager :: RiskManager
  rs_submitted_trades :: "u64 \<rightharpoonup> Trade"
  rs_rejected :: u64

definition new_RiskCheckedExecutionSink :: "RiskManager \<Rightarrow> RiskCheckedExecutionSink" where
  "new_RiskCheckedExecutionSink rm =
     \<lparr>rs_risk_manager = rm, rs_submitted_trades = Map.empty, rs_rejected = 0\<rparr>"

text \<open>The callback handed downstream, wrapping the caller's callback \<open>c\<close>.\<close>

definition risk_on_response ::
  "'cb option \<Rightarrow> OrderResponse \<Rightarrow> RiskCheckedExecutionSink \<Rightarrow> RiskCheckedExecutionSink \<times> ('cb, 'f) effect list"
where
  "risk_on_response c response rs =
     (case rs_submitted_trades rs (r_client_order_id response) of
        None \<Rightarrow> (rs, invoke c response)
      | Some trade \<Rightarrow>
          let rs = (if terminal (r_status response)
                    then rs\<lparr>rs_submitted_trades := (rs_submitted_trades rs)(r_client_order_id response := None)\<rparr>
                    else rs);
              rs = rs\<lparr>rs_risk_manager := on_fill trade response (rs_risk_manager rs)\<rparr>
          in (rs, invoke c response))"

text \<open>The callbacks a downstream call invokes, run in order.\<close>

fun risk_effects ::
  "('cb option, 'f) effect list \<Rightarrow> RiskCheckedExecutionSink \<Rightarrow> RiskCheckedExecutionSink \<times> ('cb, 'f) effect list"
where
  "risk_effects [] rs = (rs, [])"
| "risk_effects (Respond c r # es) rs =
     (let (rs, eff) = risk_on_response c r rs; (rs, effs) = risk_effects es rs in (rs, eff @ effs))"
| "risk_effects (StorageFailed f # es) rs =
     (let (rs, effs) = risk_effects es rs in (rs, StorageFailed f # effs))"

type_synonym ('cb, 'f, 'd) submit_fn =
  "Trade \<Rightarrow> 'cb option \<Rightarrow> 'f option \<Rightarrow> 'd \<Rightarrow> bool \<times> 'd \<times> ('cb, 'f) effect list"

definition risk_submit_trade ::
  "('cb option, 'f, 'd) submit_fn \<Rightarrow> Trade \<Rightarrow> 'cb option \<Rightarrow> 'f option \<Rightarrow> RiskCheckedExecutionSink \<times> 'd
   \<Rightarrow> bool \<times> (RiskCheckedExecutionSink \<times> 'd) \<times> ('cb, 'f) effect list"
where
  "risk_submit_trade downstream trade response_callback failure_callback st =
     (let (rs, d) = st; decision = check_order trade (rs_risk_manager rs)
      in if \<not> rd_accepted decision
         then let rs = rs\<lparr>rs_rejected := rs_rejected rs + 1\<rparr>;
                  r = new_OrderResponse\<lparr>r_client_order_id := t_client_order_id trade, r_status := REJECTED,
                        r_error_code := - 100, r_error_message := copy_string 128 (rd_reason decision)\<rparr>
              in (False, (rs, d), invoke response_callback r)
         else let rs = rs\<lparr>rs_submitted_trades := (rs_submitted_trades rs)(t_client_order_id trade \<mapsto> trade)\<rparr>;
                  (ok, d, eff) = downstream trade (Some response_callback) failure_callback d;
                  (rs, effs) = risk_effects eff rs
              in (ok, (rs, d), effs))"

definition risk_downstream ::
  "('x \<Rightarrow> 'd \<Rightarrow> 'd \<times> ('cb option, 'f) effect list) \<Rightarrow> 'x \<Rightarrow> RiskCheckedExecutionSink \<times> 'd
   \<Rightarrow> (RiskCheckedExecutionSink \<times> 'd) \<times> ('cb, 'f) effect list"
where
  "risk_downstream step x st =
     (let (rs, d) = st; (d, eff) = step x d; (rs, effs) = risk_effects eff rs in ((rs, d), effs))"

definition risk_sink_update_quote ::
  "QuoteUpdate \<Rightarrow> RiskCheckedExecutionSink \<Rightarrow> RiskCheckedExecutionSink" where
  "risk_sink_update_quote quote rs = rs\<lparr>rs_risk_manager := risk_update_quote quote (rs_risk_manager rs)\<rparr>"

section \<open>Positions stay within the limit\<close>

lemma fill_position_net [simp]:
  "ps_net_quantity (fill_position s p pos) = ps_net_quantity pos + s"
  by (simp add: fill_position_def Let_def)

lemma double_add_is_double: "is_double (Fin a + Fin b)"
  by (simp add: plus_double_def)

text \<open>
  Adding part of a quantity lands between the start and the sum with the whole quantity, because
  rounding is monotone.
\<close>

lemma partial_fill_within:
  assumes net: "is_double (Fin n)" "\<bar>Fin n\<bar> \<le> Fin m" and f: "0 \<le> f" "f \<le> q"
    and sum: "\<bar>Fin n + Fin (s * q)\<bar> \<le> Fin m" and s: "s = 1 \<or> s = - 1"
  shows "\<bar>Fin n + Fin (s * f)\<bar> \<le> Fin m"
proof -
  have abs_le: "\<bar>x\<bar> \<le> Fin m \<longleftrightarrow> Fin (- m) \<le> x \<and> x \<le> Fin m" for x
    by (cases x) (auto simp: abs_double_def)
  have n: "round64 n = Fin n" using net(1) by simp
  have between: "Fin n \<le> round64 (n + s * f) \<and> round64 (n + s * f) \<le> round64 (n + s * q)
      \<or> round64 (n + s * q) \<le> round64 (n + s * f) \<and> round64 (n + s * f) \<le> Fin n"
    using s f round64_mono [of n "n + s * f"] round64_mono [of "n + s * f" "n + s * q"]
      round64_mono [of "n + s * f" n] round64_mono [of "n + s * q" "n + s * f"]
    by (auto simp: n less_eq_double_def)
  have "Fin (- m) \<le> Fin n" "Fin n \<le> Fin m" "Fin (- m) \<le> round64 (n + s * q)" "round64 (n + s * q) \<le> Fin m"
    using net(2) sum unfolding abs_le by (simp_all add: plus_double_def)
  with between have "Fin (- m) \<le> round64 (n + s * f) \<and> round64 (n + s * f) \<le> Fin m"
    by (meson double_le_trans)
  then show ?thesis unfolding abs_le by (simp add: plus_double_def)
qed

definition position_within :: "rat \<Rightarrow> RiskManager \<Rightarrow> bool" where
  "position_within m rm \<longleftrightarrow>
     (\<forall>ticker. \<exists>n. ps_net_quantity (risk_position ticker rm) = Fin n \<and> is_double (Fin n) \<and> \<bar>Fin n\<bar> \<le> Fin m)"

lemma on_fill_limits [simp]: "rk_limits (on_fill t r rm) = rk_limits rm"
  by (simp add: on_fill_def Let_def)

lemma risk_position_on_fill:
  "risk_position ticker (on_fill t r rm) =
     (if ticker = t_ticker t \<and> (r_status r = FILLED \<or> r_status r = PARTIALLY_FILLED) \<and> \<not> r_filled_quantity r \<le> 0
      then fill_position (if t_side t = BUY then r_filled_quantity r else - r_filled_quantity r)
             (if 0 < r_avg_price r then r_avg_price r else t_price t) (risk_position ticker rm)
      else risk_position ticker rm)"
  by (auto simp: on_fill_def risk_position_def Let_def)

lemma accepted_order:
  assumes "rd_accepted (check_order t rm)" and "rl_max_net_position_abs (rk_limits rm) = Fin m" and "0 < m"
  shows "\<not> t_quantity t \<le> 0"
    and "\<not> Fin m < \<bar>ps_net_quantity (risk_position (t_ticker t) rm)
           + (if t_side t = BUY then t_quantity t else - t_quantity t)\<bar>"
proof -
  have "(case rk_positions rm (t_ticker t) of None \<Rightarrow> 0 | Some p \<Rightarrow> ps_net_quantity p)
      = ps_net_quantity (risk_position (t_ticker t) rm)"
    by (simp add: risk_position_def new_Position_def split: option.splits)
  then show "\<not> t_quantity t \<le> 0"
    and "\<not> Fin m < \<bar>ps_net_quantity (risk_position (t_ticker t) rm)
           + (if t_side t = BUY then t_quantity t else - t_quantity t)\<bar>"
    using assms by (auto simp: check_order_def risk_reject_def Let_def zero_double_def split: if_splits)
qed

lemma checked_fill_within:
  assumes within: "position_within m rm" and lim: "rl_max_net_position_abs (rk_limits rm) = Fin m" "0 < m"
    and acc: "rd_accepted (check_order t rm)" and le: "r_filled_quantity r \<le> t_quantity t"
  shows "position_within m (on_fill t r rm)"
  unfolding position_within_def
proof
  fix ticker
  obtain n where n: "ps_net_quantity (risk_position ticker rm) = Fin n" "is_double (Fin n)" "\<bar>Fin n\<bar> \<le> Fin m"
    using within unfolding position_within_def by blast
  show "\<exists>n. ps_net_quantity (risk_position ticker (on_fill t r rm)) = Fin n \<and> is_double (Fin n) \<and> \<bar>Fin n\<bar> \<le> Fin m"
  proof (cases "ticker = t_ticker t \<and> (r_status r = FILLED \<or> r_status r = PARTIALLY_FILLED)
      \<and> \<not> r_filled_quantity r \<le> 0")
    case False
    with n show ?thesis by (auto simp: risk_position_on_fill)
  next
    case True
    define s :: rat where "s = (if t_side t = BUY then 1 else - 1)"
    note a = accepted_order [OF acc lim]
    have "t_quantity t \<noteq> PInf" "t_quantity t \<noteq> NInf" "t_quantity t \<noteq> NaN"
      using a n True le by (auto simp: plus_double_def abs_double_def uminus_double_def zero_double_def split: if_splits)
    then obtain q where q: "t_quantity t = Fin q" by (cases "t_quantity t") auto
    then obtain f where f: "r_filled_quantity r = Fin f" "0 \<le> f" "f \<le> q"
      using True le by (cases "r_filled_quantity r") (auto simp: zero_double_def)
    have sgn: "(if t_side t = BUY then Fin x else - Fin x) = Fin (s * x)" for x
      by (simp add: s_def uminus_double_def)
    have "(if t_side t = BUY then t_quantity t else - t_quantity t) = Fin (s * q)" unfolding q by (rule sgn)
    then have "\<not> Fin m < \<bar>Fin n + Fin (s * q)\<bar>" using a(2) True n(1) by simp
    then have "\<bar>Fin n + Fin (s * q)\<bar> \<le> Fin m"
      by (cases "Fin n + Fin (s * q)") (simp_all add: plus_double_def abs_double_def)
    from partial_fill_within [OF n(2,3) f(2,3) this] have le_m: "\<bar>Fin n + Fin (s * f)\<bar> \<le> Fin m"
      by (simp add: s_def)
    then obtain k where "Fin n + Fin (s * f) = Fin k"
      by (cases "Fin n + Fin (s * f)") (auto simp: abs_double_def)
    moreover from this have "is_double (Fin k)" using double_add_is_double [of n "s * f"] by simp
    moreover have "ps_net_quantity (risk_position ticker (on_fill t r rm)) = Fin n + Fin (s * f)"
      using True n f by (simp add: risk_position_on_fill s_def uminus_double_def)
    ultimately show ?thesis using le_m by simp
  qed
qed

text \<open>Orders one after the other: each is checked and, when accepted, filled before the next.\<close>

fun risk_run :: "(Trade \<times> OrderResponse) list \<Rightarrow> RiskManager \<Rightarrow> RiskManager" where
  "risk_run [] rm = rm"
| "risk_run ((t, r) # xs) rm =
     risk_run xs (if rd_accepted (check_order t rm) then on_fill t r rm else rm)"

lemma risk_run_within:
  assumes "position_within m rm" and "rl_max_net_position_abs (rk_limits rm) = Fin m" and "0 < m"
    and "list_all (\<lambda>(t, r). r_filled_quantity r \<le> t_quantity t) xs"
  shows "position_within m (risk_run xs rm)"
  using assms
proof (induction xs arbitrary: rm)
  case (Cons x xs)
  obtain t r where x: "x = (t, r)" by (cases x)
  show ?case
    using Cons.prems Cons.IH [of "on_fill t r rm"] Cons.IH [of rm] checked_fill_within [of m rm t r]
    by (simp add: x)
qed simp

text \<open>
  (C20) When orders are filled before the next one is checked, no sequence of accepted orders,
  fully or partly filled at any price, takes a position beyond \<open>max_net_position_abs\<close>, rounding of the
  double arithmetic included.
\<close>

theorem risk_position_limit_holds:
  assumes "rl_max_net_position_abs limits = Fin m" and "0 < m"
    and "list_all (\<lambda>(t, r). r_filled_quantity r \<le> t_quantity t) fills"
  shows "\<bar>ps_net_quantity (risk_position ticker (risk_run fills (new_RiskManager limits)))\<bar> \<le> Fin m"
proof -
  have "position_within m (new_RiskManager limits)"
    using assms(2) is_double_round64 [of 0]
    by (auto simp: position_within_def new_RiskManager_def risk_position_def new_Position_def zero_double_def
        abs_double_def)
  from risk_run_within [OF this _ assms(2,3)] assms(1)
  have "position_within m (risk_run fills (new_RiskManager limits))" by (simp add: new_RiskManager_def)
  then obtain n where "ps_net_quantity (risk_position ticker (risk_run fills (new_RiskManager limits))) = Fin n"
    "\<bar>Fin n\<bar> \<le> Fin m" unfolding position_within_def by blast
  then show ?thesis by simp
qed

definition example_response :: "u64 \<Rightarrow> rat \<Rightarrow> rat \<Rightarrow> OrderResponse" where
  "example_response i q p =
     new_OrderResponse\<lparr>r_client_order_id := i, r_status := FILLED, r_filled_quantity := Fin q, r_avg_price := Fin p\<rparr>"

definition example_limits :: "rat \<Rightarrow> RiskLimits" where
  "example_limits m =
     \<lparr>rl_max_order_quantity = 0, rl_max_order_notional = 0, rl_max_net_position_abs = Fin m,
      rl_allow_market_orders = True\<rparr>"

theorem risk_position_limit_holds_witness:
  "let fills = [(example_trade LIMIT BUY 2 10, example_response 1 2 10),
                (example_trade LIMIT BUY 2 10, example_response 1 1 10)];
       rm = risk_run fills (new_RiskManager (example_limits 4))
   in ps_net_quantity (risk_position ''X'' rm) = Fin 3 \<and> \<bar>ps_net_quantity (risk_position ''X'' rm)\<bar> \<le> Fin 4"
proof -
  define fills where "fills = [(example_trade LIMIT BUY 2 10, example_response 1 2 10),
      (example_trade LIMIT BUY 2 10, example_response 1 1 10)]"
  have 1: "rl_max_net_position_abs (example_limits 4) = Fin 4" by code_simp
  have 2: "list_all (\<lambda>(t, r). r_filled_quantity r \<le> t_quantity t) fills" unfolding fills_def by code_simp
  have "ps_net_quantity (risk_position ''X'' (risk_run fills (new_RiskManager (example_limits 4)))) = Fin 3"
    unfolding fills_def by code_simp
  with risk_position_limit_holds [OF 1 _ 2, of "''X''"] show ?thesis unfolding fills_def Let_def by simp
qed

section \<open>The risk sink in front of another sink\<close>

definition unwrap :: "Trade \<times> 'cb option option \<Rightarrow> Trade \<times> 'cb option" where
  "unwrap o' = (fst o', Option.bind (snd o') id)"

definition unwrap_answer :: "'cb option answered \<Rightarrow> 'cb answered" where
  "unwrap_answer a = (unwrap (fst a), snd a)"

datatype ('cb, 'f, 'x) risk_op =
    RSubmit Trade "'cb option" "'f option"
  | RInput 'x
  | RQuote QuoteUpdate

fun risk_step ::
  "('cb option, 'f, 'd) submit_fn \<Rightarrow> ('x \<Rightarrow> 'd \<Rightarrow> 'd \<times> ('cb option, 'f) effect list) \<Rightarrow> ('cb, 'f, 'x) risk_op
   \<Rightarrow> RiskCheckedExecutionSink \<times> 'd \<Rightarrow> (RiskCheckedExecutionSink \<times> 'd) \<times> ('cb, 'f) effect list"
where
  "risk_step dsubmit dstep (RSubmit t c f) st = snd (risk_submit_trade dsubmit t c f st)"
| "risk_step dsubmit dstep (RInput x) st = risk_downstream dstep x st"
| "risk_step dsubmit dstep (RQuote q) (rs, d) = ((risk_sink_update_quote q rs, d), [])"

fun risk_fresh :: "('cb, 'f, 'x) risk_op \<Rightarrow> (Trade \<times> 'cb option) list" where
  "risk_fresh (RSubmit t c f) = [(t, c)]"
| "risk_fresh (RInput x) = []"
| "risk_fresh (RQuote q) = []"

lemma risk_on_response_effects [simp]: "snd (risk_on_response c r rs) = invoke c r"
  by (simp add: risk_on_response_def Let_def split: option.splits)

lemma risk_effects_seen:
  "responses es = seen as \<Longrightarrow>
   responses (snd (risk_effects es rs)) = seen (map unwrap_answer as)"
proof (induction es arbitrary: as rs)
  case Nil
  then have "list_all (\<lambda>(q, r). snd q = None) as"
    by (induction as) (auto split: option.splits)
  then show ?case by (induction as) (auto simp: unwrap_def unwrap_answer_def)
next
  case (Cons e es)
  show ?case
  proof (cases e)
    case (Respond c r)
    with Cons.prems have "\<exists>xs t bs. as = xs @ ((t, Some c), r) # bs \<and> seen xs = [] \<and> responses es = seen bs"
    proof (induction as)
      case (Cons a as)
      obtain t d r' where a: "a = ((t, d), r')" by (metis prod.collapse)
      show ?case
      proof (cases d)
        case None
        with Cons.IH Cons.prems a obtain xs t' bs where
          "as = xs @ ((t', Some c), r) # bs" "seen xs = []" "responses es = seen bs" by auto
        with None a show ?thesis by (intro exI [of _ "a # xs"]) auto
      qed (use Cons.prems a in \<open>auto intro: exI [of _ "[]"]\<close>)
    qed simp
    then obtain xs t bs where as: "as = xs @ ((t, Some c), r) # bs" "seen xs = []" "responses es = seen bs" by blast
    have "seen (map unwrap_answer xs) = []"
      using as(2) by (induction xs) (auto simp: unwrap_def unwrap_answer_def split: option.splits)
    then show ?thesis
      using Cons.IH [OF as(3), of "fst (risk_on_response c r rs)"] as(1) Respond
      by (simp add: case_prod_beta Let_def unwrap_answer_def [of "(_, _)"] unwrap_def split: option.splits)
  qed (use Cons in \<open>auto simp: case_prod_beta Let_def\<close>)
qed

lemma accounts_unwrap:
  assumes "accounts os ns es os'"
  shows "accounts (map unwrap os) (map unwrap ns) (snd (risk_effects es rs)) (map unwrap os')"
proof -
  from assms obtain as where as: "responses es = seen as" "list_all (\<lambda>((t, c), r). answers t r) as"
    "mset os + mset ns = mset (map fst as) + mset os'" unfolding accounts_def by blast
  have "mset (map unwrap os) + mset (map unwrap ns) = image_mset unwrap (mset os + mset ns)" by simp
  also have "\<dots> = mset (map fst (map unwrap_answer as)) + mset (map unwrap os')"
    by (simp add: as(3) unwrap_answer_def comp_def flip: mset_map)
  finally show ?thesis
    unfolding accounts_def using as(2) risk_effects_seen [OF as(1), of rs]
    by (intro exI [of _ "map unwrap_answer as"])
      (auto simp: list_all_iff unwrap_def unwrap_answer_def)
qed

text \<open>
  What the risk sink needs of the sink behind it: it answers every order it is given. Then so does
  the risk sink, its own rejections included.
\<close>

locale checked_downstream =
  fixes dsubmit :: "('cb option, 'f, 'd) submit_fn"
    and dstep :: "'x \<Rightarrow> 'd \<Rightarrow> 'd \<times> ('cb option, 'f) effect list"
    and dopen :: "'d \<Rightarrow> (Trade \<times> 'cb option option) list"
  assumes dsubmit_accounts:
      "accounts (dopen d) [(t, c)] (snd (snd (dsubmit t c f d))) (dopen (fst (snd (dsubmit t c f d))))"
    and dstep_accounts: "accounts (dopen d) [] (snd (dstep x d)) (dopen (fst (dstep x d)))"
begin

lemma risk_submit_accounts:
  "accounts (map unwrap (dopen (snd st))) [(t, c)] (snd (snd (risk_submit_trade dsubmit t c f st)))
     (map unwrap (dopen (snd (fst (snd (risk_submit_trade dsubmit t c f st))))))"
proof (cases "rd_accepted (check_order t (rs_risk_manager (fst st)))")
  case True
  then show ?thesis
    using accounts_unwrap [OF dsubmit_accounts [of "snd st" t "Some c" f]]
    by (simp add: risk_submit_trade_def case_prod_beta Let_def unwrap_def)
next
  case False
  define r where "r = new_OrderResponse\<lparr>r_client_order_id := t_client_order_id t, r_status := REJECTED,
    r_error_code := - 100, r_error_message := copy_string 128 (rd_reason (check_order t (rs_risk_manager (fst st))))\<rparr>"
  have "answers t r" by (simp add: r_def answers_def new_OrderResponse_def)
  with False show ?thesis
    unfolding accounts_def
    by (intro exI [of _ "[((t, c), r)]"]) (simp add: risk_submit_trade_def case_prod_beta Let_def r_def)
qed

sublocale risk: order_ledger "risk_step dsubmit dstep" risk_fresh "\<lambda>st. map unwrap (dopen (snd st))"
proof
  show "accounts (map unwrap (dopen (snd st))) (risk_fresh x) (snd (risk_step dsubmit dstep x st))
      (map unwrap (dopen (snd (fst (risk_step dsubmit dstep x st)))))" for st x
  proof (cases x)
    case (RInput y)
    then show ?thesis
      using accounts_unwrap [OF dstep_accounts [of "snd st" y]]
      by (simp add: risk_downstream_def case_prod_beta Let_def)
  next
    case (RQuote q)
    then show ?thesis by (cases st) simp
  qed (simp add: risk_submit_accounts)
qed

end

interpretation sim_risk: checked_downstream "sim_submit_trade ap" "sim_input_step ap"
  "\<lambda>sim. map po_order (resting sim)" for ap :: "'s append_fn"
  by unfold_locales (simp_all add: submit_accounts input_accounts)

text \<open>
  (C4) With the risk sink in front of the simulated exchange, every order is still answered
  exactly once by the callback it came with (rejected by the checks, or filled, canceled or
  rejected behind them) or is resting behind the sink.
\<close>

theorem risk_every_order_answered_once:
  "let (st, eff) = run_steps (risk_step (sim_submit_trade ap) (sim_input_step ap)) ops
         (new_RiskCheckedExecutionSink rm, (new_SimulatedExecutionSink config, env))
   in \<exists>as. responses eff = seen as \<and> list_all (\<lambda>((t, c), r). answers t r) as
        \<and> mset (concat (map risk_fresh ops))
          = mset (map fst as) + mset (map (unwrap \<circ> po_order) (resting (snd st)))"
  using sim_risk.risk.run_accounts
    [of "(new_RiskCheckedExecutionSink rm, (new_SimulatedExecutionSink config, env))" ops ap]
  by (simp add: accounts_def case_prod_beta comp_def)


end
