(* ===== verification/Strategy.thy ===== *)
theory Strategy
  imports Risk
begin

text \<open>
  \<open>include/strategy/strategy_base.hpp\<close>: the base class of strategies and the manager that
  dispatches market events to them. A derived class is a value of a type \<open>'u\<close> (its own fields)
  with its virtual member functions in the record \<open>StrategyClass\<close>; such a function returns the
  new fields and the orders and cancels it places, in order. Classes that act on the result
  of a placement, or place orders from \<open>on_order_response\<close>, are outside this interface; the
  classes of the repository do neither. Console output is left out.

  A strategy's callbacks are named by its index in the manager. The execution sink is any
  \<open>IExecutionSink\<close>: its operations are parameters over a state \<open>'d\<close> and the environment. The
  manager's storage, when it has one, is the storage of that environment.
\<close>

section \<open>Strategies\<close>

record StrategyStats =
  st_quote_events :: u64
  st_trade_events :: u64
  st_orders_submitted :: u64
  st_order_responses :: u64
  st_orders_filled :: u64
  st_orders_rejected :: u64
  st_storage_append_failures :: u64
  st_realized_pnl :: double
  st_active :: bool

record StrategyBase =
  sb_strategy_id :: u32
  sb_name :: string
  sb_tickers :: "string list"
  sb_execution_sink :: bool
  sb_active :: bool
  sb_quote_events :: u64
  sb_trade_events :: u64
  sb_orders_submitted :: u64
  sb_order_responses :: u64
  sb_orders_filled :: u64
  sb_orders_rejected :: u64
  sb_storage_append_failures :: u64
  sb_realized_pnl :: double

type_synonym 'u strategy = "StrategyBase \<times> 'u"

datatype action =
    PlaceLimit string OrderSide double double TimeInForce ExecType
  | PlaceMarket string OrderSide double
  | PlaceStop string OrderSide double double "double option"
  | CancelOrder string u64 u64
  | CancelAllOrders string

record 'u StrategyClass =
  cl_on_start :: "StrategyBase \<Rightarrow> 'u \<Rightarrow> runtime \<Rightarrow> 'u \<times> action list \<times> runtime"
  cl_on_stop :: "StrategyBase \<Rightarrow> 'u \<Rightarrow> runtime \<Rightarrow> 'u \<times> action list \<times> runtime"
  cl_on_quote :: "string \<Rightarrow> double \<Rightarrow> double \<Rightarrow> double \<Rightarrow> double \<Rightarrow> StrategyBase \<Rightarrow> 'u \<Rightarrow> runtime
                  \<Rightarrow> 'u \<times> action list \<times> runtime"
  cl_on_trade :: "string \<Rightarrow> double \<Rightarrow> double \<Rightarrow> bool \<Rightarrow> StrategyBase \<Rightarrow> 'u \<Rightarrow> runtime
                  \<Rightarrow> 'u \<times> action list \<times> runtime"
  cl_on_order_response :: "OrderResponse \<Rightarrow> StrategyBase \<Rightarrow> 'u \<Rightarrow> 'u"

definition new_StrategyBase :: "u32 \<Rightarrow> string \<Rightarrow> string list \<Rightarrow> StrategyBase" where
  "new_StrategyBase i nm tickers =
     \<lparr>sb_strategy_id = i, sb_name = nm, sb_tickers = tickers, sb_execution_sink = False, sb_active = False,
      sb_quote_events = 0, sb_trade_events = 0, sb_orders_submitted = 0, sb_order_responses = 0,
      sb_orders_filled = 0, sb_orders_rejected = 0, sb_storage_append_failures = 0, sb_realized_pnl = 0\<rparr>"

definition attach_execution_sink :: "bool \<Rightarrow> StrategyBase \<Rightarrow> StrategyBase" where
  "attach_execution_sink sink b = b\<lparr>sb_execution_sink := sink\<rparr>"

definition tracks_ticker :: "string \<Rightarrow> StrategyBase \<Rightarrow> bool" where
  "tracks_ticker ticker b =
     (if sb_tickers b = [] then True else list_ex (\<lambda>candidate. candidate = ticker) (sb_tickers b))"

definition record_storage_append_failure :: "StrategyBase \<Rightarrow> StrategyBase" where
  "record_storage_append_failure b = b\<lparr>sb_storage_append_failures := sb_storage_append_failures b + 1\<rparr>"

definition handle_order_response :: "'u StrategyClass \<Rightarrow> OrderResponse \<Rightarrow> 'u strategy \<Rightarrow> 'u strategy" where
  "handle_order_response cls response s =
     (let (b, u) = s;
          b = b\<lparr>sb_order_responses := sb_order_responses b + 1\<rparr>;
          b = (if r_status response = FILLED then b\<lparr>sb_orders_filled := sb_orders_filled b + 1\<rparr>
               else if r_status response = REJECTED then b\<lparr>sb_orders_rejected := sb_orders_rejected b + 1\<rparr>
               else b)
      in (b, cl_on_order_response cls response b u))"

definition on_order_update :: "'u StrategyClass \<Rightarrow> OrderResponse \<Rightarrow> 'u strategy \<Rightarrow> 'u strategy" where
  "on_order_update = handle_order_response"

definition strategy_stats :: "StrategyBase \<Rightarrow> StrategyStats" where
  "strategy_stats b =
     \<lparr>st_quote_events = sb_quote_events b, st_trade_events = sb_trade_events b,
      st_orders_submitted = sb_orders_submitted b, st_order_responses = sb_order_responses b,
      st_orders_filled = sb_orders_filled b, st_orders_rejected = sb_orders_rejected b,
      st_storage_append_failures = sb_storage_append_failures b, st_realized_pnl = sb_realized_pnl b,
      st_active = sb_active b\<rparr>"

section \<open>The manager and its world\<close>

text \<open>
  The strategies in the order they were added, the sink with the environment, and whether the
  manager was given a storage.
\<close>

record ('u, 'd, 's) world =
  w_strategies :: "'u strategy list"
  w_sink :: "'d \<times> 's env"
  w_storage :: bool

record ('d, 's) sink_ops =
  so_submit :: "(nat, nat, 'd \<times> 's env) submit_fn"
  so_cancel :: "string \<Rightarrow> u64 \<Rightarrow> u64 \<Rightarrow> 'd \<times> 's env \<Rightarrow> ('d \<times> 's env) \<times> (nat, nat) effect list"
  so_cancel_all :: "string \<Rightarrow> 'd \<times> 's env \<Rightarrow> ('d \<times> 's env) \<times> (nat, nat) effect list"

definition update_strategy :: "nat \<Rightarrow> ('u strategy \<Rightarrow> 'u strategy) \<Rightarrow> 'u strategy list \<Rightarrow> 'u strategy list" where
  "update_strategy i f ss = (if i < length ss then ss[i := f (ss ! i)] else ss)"

text \<open>The callbacks a sink invokes, run in order on the strategies they belong to.\<close>

fun run_callback :: "'u StrategyClass \<Rightarrow> (nat, nat) effect \<Rightarrow> 'u strategy list \<Rightarrow> 'u strategy list" where
  "run_callback cls (Respond i r) = update_strategy i (handle_order_response cls r)"
| "run_callback cls (StorageFailed i) = update_strategy i (apfst record_storage_append_failure)"

definition run_callbacks ::
  "'u StrategyClass \<Rightarrow> (nat, nat) effect list \<Rightarrow> 'u strategy list \<Rightarrow> 'u strategy list" where
  "run_callbacks cls eff = fold (run_callback cls) eff"

abbreviation w_rt :: "('u, 'd, 's) world \<Rightarrow> runtime" where
  "w_rt w \<equiv> env_rt (snd (w_sink w))"

definition set_rt :: "runtime \<Rightarrow> ('u, 'd, 's) world \<Rightarrow> ('u, 'd, 's) world" where
  "set_rt rt w = w\<lparr>w_sink := (fst (w_sink w), (snd (w_sink w))\<lparr>env_rt := rt\<rparr>)\<rparr>"

definition strat_submit_trade ::
  "'u StrategyClass \<Rightarrow> ('d, 's) sink_ops \<Rightarrow> nat \<Rightarrow> Trade \<Rightarrow> ('u, 'd, 's) world \<Rightarrow> bool \<times> ('u, 'd, 's) world"
where
  "strat_submit_trade cls ops i trade w =
     (let (submitted, sink, eff) = so_submit ops trade (Some i) (Some i) (w_sink w);
          ss = run_callbacks cls eff (w_strategies w);
          ss = (if submitted
                then update_strategy i (apfst (\<lambda>b. b\<lparr>sb_orders_submitted := sb_orders_submitted b + 1\<rparr>)) ss
                else ss)
      in (submitted, w\<lparr>w_strategies := ss, w_sink := sink\<rparr>))"

definition can_place :: "nat \<Rightarrow> ('u, 'd, 's) world \<Rightarrow> bool" where
  "can_place i w =
     (i < length (w_strategies w) \<and> sb_execution_sink (fst (w_strategies w ! i))
      \<and> sb_active (fst (w_strategies w ! i)))"

abbreviation strategy_id_of :: "nat \<Rightarrow> ('u, 'd, 's) world \<Rightarrow> u32" where
  "strategy_id_of i w \<equiv> sb_strategy_id (fst (w_strategies w ! i))"

definition place_limit_order ::
  "'u StrategyClass \<Rightarrow> ('d, 's) sink_ops \<Rightarrow> nat \<Rightarrow> string \<Rightarrow> OrderSide \<Rightarrow> double \<Rightarrow> double \<Rightarrow> TimeInForce \<Rightarrow> ExecType
   \<Rightarrow> ('u, 'd, 's) world \<Rightarrow> bool \<times> ('u, 'd, 's) world"
where
  "place_limit_order cls ops i ticker side quantity price tif exec w =
     (if \<not> can_place i w then (False, w)
      else let (trade, rt) = create_limit_order (strategy_id_of i w) ticker side quantity price tif exec (w_rt w)
           in strat_submit_trade cls ops i trade (set_rt rt w))"

definition place_market_order ::
  "'u StrategyClass \<Rightarrow> ('d, 's) sink_ops \<Rightarrow> nat \<Rightarrow> string \<Rightarrow> OrderSide \<Rightarrow> double
   \<Rightarrow> ('u, 'd, 's) world \<Rightarrow> bool \<times> ('u, 'd, 's) world"
where
  "place_market_order cls ops i ticker side quantity w =
     (if \<not> can_place i w then (False, w)
      else let (trade, rt) = create_market_order (strategy_id_of i w) ticker side quantity (w_rt w)
           in strat_submit_trade cls ops i trade (set_rt rt w))"

definition place_stop_order ::
  "'u StrategyClass \<Rightarrow> ('d, 's) sink_ops \<Rightarrow> nat \<Rightarrow> string \<Rightarrow> OrderSide \<Rightarrow> double \<Rightarrow> double \<Rightarrow> double option
   \<Rightarrow> ('u, 'd, 's) world \<Rightarrow> bool \<times> ('u, 'd, 's) world"
where
  "place_stop_order cls ops i ticker side quantity trigger_price limit_price w =
     (if \<not> can_place i w then (False, w)
      else let (trade, rt) = create_stop_order (strategy_id_of i w) ticker side quantity trigger_price
                               limit_price (w_rt w)
           in strat_submit_trade cls ops i trade (set_rt rt w))"

definition strat_cancel_order ::
  "'u StrategyClass \<Rightarrow> ('d, 's) sink_ops \<Rightarrow> nat \<Rightarrow> string \<Rightarrow> u64 \<Rightarrow> u64 \<Rightarrow> ('u, 'd, 's) world \<Rightarrow> ('u, 'd, 's) world"
where
  "strat_cancel_order cls ops i instrument order_id client_oid w =
     (if i < length (w_strategies w) \<and> sb_execution_sink (fst (w_strategies w ! i))
      then let (sink, eff) = so_cancel ops instrument order_id client_oid (w_sink w)
           in w\<lparr>w_strategies := run_callbacks cls eff (w_strategies w), w_sink := sink\<rparr>
      else w)"

definition strat_cancel_all_orders ::
  "'u StrategyClass \<Rightarrow> ('d, 's) sink_ops \<Rightarrow> nat \<Rightarrow> string \<Rightarrow> ('u, 'd, 's) world \<Rightarrow> ('u, 'd, 's) world"
where
  "strat_cancel_all_orders cls ops i instrument w =
     (if i < length (w_strategies w) \<and> sb_execution_sink (fst (w_strategies w ! i))
      then let (sink, eff) = so_cancel_all ops instrument (w_sink w)
           in w\<lparr>w_strategies := run_callbacks cls eff (w_strategies w), w_sink := sink\<rparr>
      else w)"

fun perform :: "'u StrategyClass \<Rightarrow> ('d, 's) sink_ops \<Rightarrow> nat \<Rightarrow> action \<Rightarrow> ('u, 'd, 's) world \<Rightarrow> ('u, 'd, 's) world" where
  "perform cls ops i (PlaceLimit tk sd q p tif ex) w = snd (place_limit_order cls ops i tk sd q p tif ex w)"
| "perform cls ops i (PlaceMarket tk sd q) w = snd (place_market_order cls ops i tk sd q w)"
| "perform cls ops i (PlaceStop tk sd q tp lp) w = snd (place_stop_order cls ops i tk sd q tp lp w)"
| "perform cls ops i (CancelOrder tk oid cid) w = strat_cancel_order cls ops i tk oid cid w"
| "perform cls ops i (CancelAllOrders tk) w = strat_cancel_all_orders cls ops i tk w"

text \<open>A virtual call on strategy \<open>i\<close>: the derived class computes, then its actions happen in order.\<close>

definition call_virtual ::
  "'u StrategyClass \<Rightarrow> ('d, 's) sink_ops \<Rightarrow> nat \<Rightarrow> (StrategyBase \<Rightarrow> 'u \<Rightarrow> runtime \<Rightarrow> 'u \<times> action list \<times> runtime)
   \<Rightarrow> ('u, 'd, 's) world \<Rightarrow> ('u, 'd, 's) world"
where
  "call_virtual cls ops i f w =
     (let (b, u) = w_strategies w ! i; (u, actions, rt) = f b u (w_rt w)
      in fold (perform cls ops i) actions
           (set_rt rt (w\<lparr>w_strategies := update_strategy i (\<lambda>(b, _). (b, u)) (w_strategies w)\<rparr>)))"

definition update_base :: "nat \<Rightarrow> (StrategyBase \<Rightarrow> StrategyBase) \<Rightarrow> ('u, 'd, 's) world \<Rightarrow> ('u, 'd, 's) world" where
  "update_base i f w = w\<lparr>w_strategies := update_strategy i (apfst f) (w_strategies w)\<rparr>"

text \<open>\<open>start\<close> throws when no sink is attached.\<close>

datatype strategy_error = SinkNotAttached string

definition strategy_start ::
  "'u StrategyClass \<Rightarrow> ('d, 's) sink_ops \<Rightarrow> nat \<Rightarrow> ('u, 'd, 's) world \<Rightarrow> strategy_error + ('u, 'd, 's) world"
where
  "strategy_start cls ops i w =
     (let b = fst (w_strategies w ! i)
      in if \<not> sb_execution_sink b then Inl (SinkNotAttached (sb_name b))
         else Inr (call_virtual cls ops i (cl_on_start cls) (update_base i (\<lambda>b. b\<lparr>sb_active := True\<rparr>) w)))"

definition strategy_stop ::
  "'u StrategyClass \<Rightarrow> ('d, 's) sink_ops \<Rightarrow> nat \<Rightarrow> ('u, 'd, 's) world \<Rightarrow> ('u, 'd, 's) world"
where
  "strategy_stop cls ops i w =
     call_virtual cls ops i (cl_on_stop cls) (update_base i (\<lambda>b. b\<lparr>sb_active := False\<rparr>) w)"

definition on_quote_update ::
  "'u StrategyClass \<Rightarrow> ('d, 's) sink_ops \<Rightarrow> QuoteUpdate \<Rightarrow> nat \<Rightarrow> ('u, 'd, 's) world \<Rightarrow> ('u, 'd, 's) world"
where
  "on_quote_update cls ops quote i w =
     call_virtual cls ops i
       (cl_on_quote cls (q_ticker quote) (q_bid_price quote) (q_ask_price quote) (q_bid_size quote)
          (q_ask_size quote))
       (update_base i (\<lambda>b. b\<lparr>sb_quote_events := sb_quote_events b + 1\<rparr>) w)"

definition on_trade_event ::
  "'u StrategyClass \<Rightarrow> ('d, 's) sink_ops \<Rightarrow> TradeEvent \<Rightarrow> nat \<Rightarrow> ('u, 'd, 's) world \<Rightarrow> ('u, 'd, 's) world"
where
  "on_trade_event cls ops ev i w =
     call_virtual cls ops i (cl_on_trade cls (e_ticker ev) (e_price ev) (e_quantity ev) (\<not> e_is_buyer_maker ev))
       (update_base i (\<lambda>b. b\<lparr>sb_trade_events := sb_trade_events b + 1\<rparr>) w)"

section \<open>StrategyManager\<close>

definition add_strategy :: "StrategyBase \<Rightarrow> 'u \<Rightarrow> bool \<Rightarrow> ('u, 'd, 's) world \<Rightarrow> nat \<times> ('u, 'd, 's) world" where
  "add_strategy b u sink w =
     (length (w_strategies w),
      w\<lparr>w_strategies := w_strategies w @ [(attach_execution_sink sink b, u)]\<rparr>)"

fun start_from ::
  "'u StrategyClass \<Rightarrow> ('d, 's) sink_ops \<Rightarrow> nat list \<Rightarrow> ('u, 'd, 's) world
   \<Rightarrow> strategy_error option \<times> ('u, 'd, 's) world"
where
  "start_from cls ops [] w = (None, w)"
| "start_from cls ops (i # is) w =
     (case strategy_start cls ops i w of
        Inl e \<Rightarrow> (Some e, w)
      | Inr w \<Rightarrow> start_from cls ops is w)"

definition start_all where
  "start_all cls ops w = start_from cls ops [0..<length (w_strategies w)] w"

definition stop_all where
  "stop_all cls ops w = fold (strategy_stop cls ops) [0..<length (w_strategies w)] w"

fun find_strategy :: "u32 \<Rightarrow> nat \<Rightarrow> 'u strategy list \<Rightarrow> nat option" where
  "find_strategy sid i [] = None"
| "find_strategy sid i ((b, u) # ss) =
     (if sb_strategy_id b = sid then Some i else find_strategy sid (i + 1) ss)"

definition get_strategy :: "u32 \<Rightarrow> ('u, 'd, 's) world \<Rightarrow> nat option" where
  "get_strategy sid w = find_strategy sid 0 (w_strategies w)"

definition dispatch_order_response ::
  "'u StrategyClass \<Rightarrow> u32 \<Rightarrow> OrderResponse \<Rightarrow> ('u, 'd, 's) world \<Rightarrow> ('u, 'd, 's) world" where
  "dispatch_order_response cls sid response w =
     (case get_strategy sid w of
        None \<Rightarrow> w
      | Some i \<Rightarrow> w\<lparr>w_strategies := update_strategy i (on_order_update cls response) (w_strategies w)\<rparr>)"

definition dispatch_one ::
  "string \<Rightarrow> bool \<Rightarrow> (nat \<Rightarrow> ('u, 'd, 's) world \<Rightarrow> ('u, 'd, 's) world) \<Rightarrow> nat \<Rightarrow> ('u, 'd, 's) world \<Rightarrow> ('u, 'd, 's) world"
where
  "dispatch_one ticker persisted f i w =
     (let b = fst (w_strategies w ! i)
      in if \<not> sb_active b \<or> \<not> tracks_ticker ticker b then w
         else f i (if persisted then w else update_base i record_storage_append_failure w))"

definition dispatch_to_matching_strategies ::
  "string \<Rightarrow> bool \<Rightarrow> (nat \<Rightarrow> ('u, 'd, 's) world \<Rightarrow> ('u, 'd, 's) world) \<Rightarrow> ('u, 'd, 's) world \<Rightarrow> ('u, 'd, 's) world"
where
  "dispatch_to_matching_strategies ticker persisted f w =
     fold (dispatch_one ticker persisted f) [0..<length (w_strategies w)] w"

definition maybe_append_storage_event ::
  "'s append_fn \<Rightarrow> StorageEvent \<Rightarrow> bool \<Rightarrow> ('u, 'd, 's) world \<Rightarrow> bool \<times> ('u, 'd, 's) world" where
  "maybe_append_storage_event ap event persist w =
     (if \<not> persist \<or> \<not> w_storage w then (True, w)
      else let (ok, env) = env_append ap event (snd (w_sink w)) in (ok, w\<lparr>w_sink := (fst (w_sink w), env)\<rparr>))"

definition timestamped ::
  "StorageEventType \<Rightarrow> StoragePayload \<Rightarrow> ('u, 'd, 's) world \<Rightarrow> StorageEvent \<times> ('u, 'd, 's) world" where
  "timestamped ty payload w =
     (let (event, env) = storage_event ty payload (snd (w_sink w)) in (event, w\<lparr>w_sink := (fst (w_sink w), env)\<rparr>))"

definition dispatch_quote_impl ::
  "'s append_fn \<Rightarrow> 'u StrategyClass \<Rightarrow> ('d, 's) sink_ops \<Rightarrow> QuoteUpdate \<Rightarrow> bool \<Rightarrow> ('u, 'd, 's) world \<Rightarrow> ('u, 'd, 's) world"
where
  "dispatch_quote_impl ap cls ops quote persist w =
     (let (event, w) = timestamped QuoteUpdateEvent (PQuote quote) w;
          (persisted, w) = maybe_append_storage_event ap event persist w
      in dispatch_to_matching_strategies (q_ticker quote) persisted (on_quote_update cls ops quote) w)"

definition dispatch_trade_impl ::
  "'s append_fn \<Rightarrow> 'u StrategyClass \<Rightarrow> ('d, 's) sink_ops \<Rightarrow> TradeEvent \<Rightarrow> bool \<Rightarrow> ('u, 'd, 's) world \<Rightarrow> ('u, 'd, 's) world"
where
  "dispatch_trade_impl ap cls ops ev persist w =
     (let (event, w) = timestamped MarketTrade (PMarket ev) w;
          (persisted, w) = maybe_append_storage_event ap event persist w
      in dispatch_to_matching_strategies (e_ticker ev) persisted (on_trade_event cls ops ev) w)"

definition dispatch_quote where "dispatch_quote ap cls ops quote = dispatch_quote_impl ap cls ops quote True"

definition replay_quote where "replay_quote ap cls ops quote = dispatch_quote_impl ap cls ops quote False"

definition dispatch_trade where "dispatch_trade ap cls ops ev = dispatch_trade_impl ap cls ops ev True"

definition replay_trade where "replay_trade ap cls ops ev = dispatch_trade_impl ap cls ops ev False"

section \<open>What orders and callbacks leave alone\<close>

text \<open>The part of a strategy that its own orders, and the callbacks they cause, never change.\<close>

definition identity where
  "identity s =
     (let b = fst s
      in (sb_strategy_id b, sb_name b, sb_tickers b, sb_execution_sink b, sb_active b, sb_quote_events b,
          sb_trade_events b))"

abbreviation identities :: "'u strategy list \<Rightarrow> _" where
  "identities ss \<equiv> map identity ss"

lemma update_strategy_identities:
  "(\<And>s. identity (f s) = identity s) \<Longrightarrow> identities (update_strategy i f ss) = identities ss"
  by (simp add: update_strategy_def map_update list_update_same_conv)

lemma handle_order_response_identity [simp]: "identity (handle_order_response cls r s) = identity s"
  by (simp add: handle_order_response_def identity_def Let_def split: prod.splits)

lemma record_failure_identity [simp]: "identity (apfst record_storage_append_failure s) = identity s"
  by (simp add: identity_def record_storage_append_failure_def Let_def)

lemma run_callback_identities [simp]: "identities (run_callback cls e ss) = identities ss"
  by (cases e) (simp_all add: update_strategy_identities)

lemma run_callbacks_identities [simp]: "identities (run_callbacks cls es ss) = identities ss"
  unfolding run_callbacks_def by (induction es arbitrary: ss) simp_all

lemma set_rt_strategies [simp]: "w_strategies (set_rt rt w) = w_strategies w" "w_storage (set_rt rt w) = w_storage w"
  by (simp_all add: set_rt_def)

lemma strat_submit_identities [simp]:
  "identities (w_strategies (snd (strat_submit_trade cls ops i t w))) = identities (w_strategies w)"
  by (simp add: strat_submit_trade_def Let_def case_prod_beta update_strategy_identities identity_def)

lemma perform_identities [simp]:
  "identities (w_strategies (perform cls ops i a w)) = identities (w_strategies w)"
  by (cases a) (simp_all add: place_limit_order_def place_market_order_def place_stop_order_def
      strat_cancel_order_def strat_cancel_all_orders_def case_prod_beta Let_def)

lemma performs_identities [simp]:
  "identities (w_strategies (fold (perform cls ops i) as w)) = identities (w_strategies w)"
  by (induction as arbitrary: w) simp_all

lemma call_virtual_identities [simp]:
  "identities (w_strategies (call_virtual cls ops i f w)) = identities (w_strategies w)"
  by (simp add: call_virtual_def Let_def case_prod_beta update_strategy_identities identity_def)

lemma identities_length: "identities ss = identities ss' \<Longrightarrow> length ss = length ss'"
  by (rule map_eq_imp_length_eq)

section \<open>Dispatch reaches each interested strategy once\<close>

text \<open>What a quote does to the identity of a strategy: it counts once if the strategy gets it.\<close>

definition got_quote :: "string \<Rightarrow> 'u strategy \<Rightarrow> 'u strategy" where
  "got_quote ticker s =
     (if sb_active (fst s) \<and> tracks_ticker ticker (fst s)
      then apfst (\<lambda>b. b\<lparr>sb_quote_events := sb_quote_events b + 1\<rparr>) s else s)"

definition got_trade :: "string \<Rightarrow> 'u strategy \<Rightarrow> 'u strategy" where
  "got_trade ticker s =
     (if sb_active (fst s) \<and> tracks_ticker ticker (fst s)
      then apfst (\<lambda>b. b\<lparr>sb_trade_events := sb_trade_events b + 1\<rparr>) s else s)"

lemma identity_update_strategy:
  "i < length ss \<Longrightarrow> identities (update_strategy i f ss) = (identities ss)[i := identity (f (ss ! i))]"
  by (simp add: update_strategy_def map_update)

lemma identity_fields:
  assumes "identity s = identity s'"
  shows "sb_active (fst s) = sb_active (fst s')" and "tracks_ticker t (fst s) = tracks_ticker t (fst s')"
    and "identity (got_quote t s) = identity (got_quote t s')"
    and "identity (got_trade t s) = identity (got_trade t s')"
  using assms by (auto simp: identity_def tracks_ticker_def got_quote_def got_trade_def Let_def)

lemma dispatch_one_identities:
  assumes i: "i < length (w_strategies w)"
    and f: "\<And>w. i < length (w_strategies w) \<Longrightarrow>
        identities (w_strategies (f i w)) = (identities (w_strategies w))[i := identity (g (w_strategies w ! i))]"
    and g: "\<And>s s'. identity s = identity s' \<Longrightarrow> identity (g s) = identity (g s')"
  shows "identities (w_strategies (dispatch_one ticker persisted f i w)) =
    (identities (w_strategies w))[i := identity
       (if sb_active (fst (w_strategies w ! i)) \<and> tracks_ticker ticker (fst (w_strategies w ! i))
        then g (w_strategies w ! i) else w_strategies w ! i)]"
proof -
  let ?w = "update_base i record_storage_append_failure w"
  have upd: "identities (w_strategies ?w) = identities (w_strategies w)"
    by (simp add: update_base_def update_strategy_identities)
  then have "i < length (w_strategies ?w)" "identity (w_strategies ?w ! i) = identity (w_strategies w ! i)"
    using i identities_length [OF upd] by (auto dest: arg_cong [of _ _ "\<lambda>xs. xs ! i"])
  moreover have "(identities (w_strategies w))[i := identity (w_strategies w ! i)] = identities (w_strategies w)"
    using i by (metis list_update_id nth_map)
  ultimately show ?thesis
    using i f [of w] f [of ?w] g [of "w_strategies ?w ! i" "w_strategies w ! i"] upd
    by (auto simp: dispatch_one_def Let_def)
qed

lemma dispatch_identities:
  assumes f: "\<And>i w. i < length (w_strategies w) \<Longrightarrow>
      identities (w_strategies (f i w)) = (identities (w_strategies w))[i := identity (g (w_strategies w ! i))]"
    and g: "\<And>s s'. identity s = identity s' \<Longrightarrow> identity (g s) = identity (g s')"
  shows "identities (w_strategies (dispatch_to_matching_strategies ticker persisted f w)) =
    identities (map (\<lambda>s. if sb_active (fst s) \<and> tracks_ticker ticker (fst s) then g s else s) (w_strategies w))"
proof -
  let ?h = "\<lambda>s. if sb_active (fst s) \<and> tracks_ticker ticker (fst s) then g s else s"
  let ?ss = "w_strategies w"
  have h: "identity (?h s) = identity (?h s')" if "identity s = identity s'" for s s'
    using identity_fields(1,2) [OF that] g [OF that] that by auto
  have "identities (w_strategies (fold (dispatch_one ticker persisted f) [0..<n] w))
      = identities (map ?h (take n ?ss) @ drop n ?ss)" if "n \<le> length ?ss" for n
    using that
  proof (induction n)
    case (Suc n)
    let ?w = "fold (dispatch_one ticker persisted f) [0..<n] w"
    have IH: "identities (w_strategies ?w) = identities (map ?h (take n ?ss) @ drop n ?ss)" using Suc by simp
    have len: "length (w_strategies ?w) = length ?ss" using identities_length [OF IH] Suc.prems by simp
    have nth: "identity (w_strategies ?w ! n) = identity (?ss ! n)"
      using arg_cong [OF IH, of "\<lambda>xs. xs ! n"] len Suc.prems by (simp add: nth_append)
    have "identities (w_strategies (dispatch_one ticker persisted f n ?w))
        = (identities (w_strategies ?w))[n := identity (?h (w_strategies ?w ! n))]"
      using Suc.prems len by (intro dispatch_one_identities f g) simp_all
    also have "\<dots> = (identities (map ?h (take n ?ss) @ drop n ?ss))[n := identity (?h (?ss ! n))]"
      using IH h [OF nth] by simp
    also have "\<dots> = identities (map ?h (take (Suc n) ?ss) @ drop (Suc n) ?ss)"
      using Suc.prems by (simp add: list_update_append take_Suc_conv_app_nth Cons_nth_drop_Suc [symmetric])
    finally show ?case by simp
  qed simp
  from this [of "length ?ss"] show ?thesis by (simp add: dispatch_to_matching_strategies_def)
qed

lemma on_quote_update_identities:
  "i < length (w_strategies w) \<Longrightarrow>
   identities (w_strategies (on_quote_update cls ops q i w)) = (identities (w_strategies w))
     [i := identity (apfst (\<lambda>b. b\<lparr>sb_quote_events := sb_quote_events b + 1\<rparr>) (w_strategies w ! i))]"
  by (simp add: on_quote_update_def update_base_def identity_update_strategy)

lemma on_trade_event_identities:
  "i < length (w_strategies w) \<Longrightarrow>
   identities (w_strategies (on_trade_event cls ops ev i w)) = (identities (w_strategies w))
     [i := identity (apfst (\<lambda>b. b\<lparr>sb_trade_events := sb_trade_events b + 1\<rparr>) (w_strategies w ! i))]"
  by (simp add: on_trade_event_def update_base_def identity_update_strategy)

lemma timestamped_strategies [simp]: "w_strategies (snd (timestamped ty p w)) = w_strategies w"
  by (simp add: timestamped_def case_prod_beta Let_def)

lemma maybe_append_strategies [simp]:
  "w_strategies (snd (maybe_append_storage_event ap e b w)) = w_strategies w"
  by (simp add: maybe_append_storage_event_def case_prod_beta Let_def)


end
