(* ===== verification/Example_Strategies.thy ===== *)
theory Example_Strategies
  imports Strategy "HOL-Library.Signed_Division"
begin

text \<open>
  \<open>include/strategy/example_strategies.hpp\<close>: the two strategies of the repository as derived
  classes of the strategy interface. \<open>std::chrono::steady_clock\<close> readings are taken from the clock
  of the process, in nanoseconds; a cast to milliseconds truncates towards zero.
\<close>

record SimpleMarketMaker =
  mm_spread_bps :: double
  mm_order_size :: double
  mm_mid_price :: double
  mm_last_update :: i64

record SimpleMomentum =
  mo_threshold_pct :: double
  mo_order_size :: double
  mo_last_price :: double
  mo_reference_price :: double
  mo_trade_count :: i32

datatype example = MarketMaker SimpleMarketMaker | Momentum SimpleMomentum

definition kMinUpdateIntervalMs :: int where "kMinUpdateIntervalMs = 100"

definition new_SimpleMarketMaker ::
  "u32 \<Rightarrow> string \<Rightarrow> double \<Rightarrow> double \<Rightarrow> runtime \<Rightarrow> example strategy \<times> runtime" where
  "new_SimpleMarketMaker i ticker spread_bps order_size rt =
     (let (now, rt) = now_ns rt
      in ((new_StrategyBase i (''MarketMaker_'' @ ticker) [ticker],
           MarketMaker \<lparr>mm_spread_bps = spread_bps, mm_order_size = order_size, mm_mid_price = 0,
                        mm_last_update = now\<rparr>), rt))"

definition new_SimpleMomentum :: "u32 \<Rightarrow> string \<Rightarrow> double \<Rightarrow> double \<Rightarrow> example strategy" where
  "new_SimpleMomentum i ticker threshold_pct order_size =
     (new_StrategyBase i (''Momentum_'' @ ticker) [ticker],
      Momentum \<lparr>mo_threshold_pct = threshold_pct, mo_order_size = order_size, mo_last_price = 0,
                mo_reference_price = 0, mo_trade_count = 0\<rparr>)"

definition market_maker_on_quote ::
  "string \<Rightarrow> double \<Rightarrow> double \<Rightarrow> StrategyBase \<Rightarrow> SimpleMarketMaker \<Rightarrow> runtime \<Rightarrow> SimpleMarketMaker \<times> action list \<times> runtime"
where
  "market_maker_on_quote ticker bid ask b mm rt =
     (if \<not> sb_active b then (mm, [], rt)
      else
        let (now, rt) = now_ns rt;
            elapsed = (now - mm_last_update mm) sdiv 1000000
        in if elapsed < kMinUpdateIntervalMs then (mm, [], rt)
           else
             let mid_price = (bid + ask) / Fin 2;
                 mm = mm\<lparr>mm_last_update := now, mm_mid_price := mid_price\<rparr>;
                 half_spread = mid_price * (mm_spread_bps mm / Fin 10000) / Fin 2;
                 my_bid = mid_price - half_spread;
                 my_ask = mid_price + half_spread
             in (mm, [PlaceLimit ticker BUY (mm_order_size mm) my_bid GTC POST_ONLY,
                      PlaceLimit ticker SELL (mm_order_size mm) my_ask GTC POST_ONLY], rt))"

definition market_maker_on_stop :: "StrategyBase \<Rightarrow> action list" where
  "market_maker_on_stop b = (case sb_tickers b of [] \<Rightarrow> [] | t # _ \<Rightarrow> [CancelAllOrders t])"

definition momentum_on_trade ::
  "string \<Rightarrow> double \<Rightarrow> StrategyBase \<Rightarrow> SimpleMomentum \<Rightarrow> SimpleMomentum \<times> action list" where
  "momentum_on_trade ticker price b mo =
     (if \<not> sb_active b then (mo, [])
      else if double_eq (mo_reference_price mo) 0
      then (mo\<lparr>mo_reference_price := price, mo_last_price := price\<rparr>, [])
      else
        let pct_change = (price - mo_reference_price mo) / mo_reference_price mo * Fin 100;
            (mo, actions) =
              (if mo_threshold_pct mo < pct_change
               then (mo\<lparr>mo_reference_price := price, mo_trade_count := mo_trade_count mo + 1\<rparr>,
                     [PlaceMarket ticker BUY (mo_order_size mo)])
               else if pct_change < - mo_threshold_pct mo
               then (mo\<lparr>mo_reference_price := price, mo_trade_count := mo_trade_count mo + 1\<rparr>,
                     [PlaceMarket ticker SELL (mo_order_size mo)])
               else (mo, []))
        in (mo\<lparr>mo_last_price := price\<rparr>, actions))"

definition example_class :: "example StrategyClass" where
  "example_class =
     \<lparr>cl_on_start = (\<lambda>b u rt. (u, [], rt)),
      cl_on_stop = (\<lambda>b u rt. (u, (case u of MarketMaker _ \<Rightarrow> market_maker_on_stop b | Momentum _ \<Rightarrow> []), rt)),
      cl_on_quote = (\<lambda>ticker bid ask bid_size ask_size b u rt.
        case u of
          MarketMaker mm \<Rightarrow>
            (let (mm, as, rt) = market_maker_on_quote ticker bid ask b mm rt in (MarketMaker mm, as, rt))
        | Momentum mo \<Rightarrow> (Momentum mo, [], rt)),
      cl_on_trade = (\<lambda>ticker price size is_buy b u rt.
        case u of
          MarketMaker mm \<Rightarrow> (MarketMaker mm, [], rt)
        | Momentum mo \<Rightarrow> (let (mo, as) = momentum_on_trade ticker price b mo in (Momentum mo, as, rt))),
      cl_on_order_response = (\<lambda>r b u. u)\<rparr>"

section \<open>The market maker quotes around the mid price\<close>

lemma double_div_nonneg: "0 \<le> a \<Longrightarrow> 0 < b \<Longrightarrow> 0 \<le> round64 (a / b)"
  using round64_mono [of 0 "a / b"] by (simp add: zero_double_def less_eq_double_def)

lemma double_mul_nonneg: "0 \<le> a \<Longrightarrow> 0 \<le> b \<Longrightarrow> 0 \<le> round64 (a * b)"
  using round64_mono [of 0 "a * b"] by (simp add: zero_double_def less_eq_double_def)

text \<open>Moving a double down and up by a nonnegative amount brackets it, after rounding.\<close>

lemma bracket:
  assumes "is_double (Fin m)" and "0 \<le> h"
  shows "Fin m - h \<le> Fin m \<and> Fin m \<le> Fin m + h"
proof (cases h)
  case (Fin x)
  with assms have "0 \<le> x" by (simp add: zero_double_def)
  with assms(1) Fin show ?thesis
    using round64_mono [of "m - x" m] round64_mono [of m "m + x"]
    by (simp add: minus_double_def plus_double_def less_eq_double_def)
qed (use assms in \<open>simp_all add: minus_double_def plus_double_def zero_double_def\<close>)

lemma half_spread_nonneg:
  assumes "0 \<le> m" and "0 \<le> s" and "is_double (Fin s)"
  shows "0 \<le> Fin m * (Fin s / Fin 10000) / Fin 2"
proof -
  have div: "0 \<le> d / Fin b" if "0 \<le> d" "0 < b" for d b
    using that double_div_nonneg
    by (cases d) (auto simp: zero_double_def divide_double_def double_inf_def double_sgn_def)
  have "round64 (s / 10000) \<le> Fin s"
    using round64_mono [of "s / 10000" s] assms by (simp add: less_eq_double_def)
  then have "Fin s / Fin 10000 \<noteq> PInf" by (auto simp: divide_double_def)
  moreover have "0 \<le> Fin m * d" if "0 \<le> d" "d \<noteq> PInf" for d
    using that assms(1) double_mul_nonneg by (cases d) (auto simp: zero_double_def times_double_def)
  ultimately show ?thesis using div [of "Fin s" 10000] div [of _ 2] assms(2) by (simp add: zero_double_def)
qed

text \<open>
  (C19) The market maker quotes on both sides of the mid price: when it is active and at least
  100 ms have passed since its last update it places one buy at or below and one sell at or above
  the mid price of the quote, rounding included, and otherwise nothing.
\<close>

theorem market_maker_brackets_mid:
  assumes spread: "mm_spread_bps mm = Fin s" "is_double (Fin s)" "0 \<le> s"
    and mid: "(bid + ask) / Fin 2 = Fin m" "is_double (Fin m)" "0 \<le> m"
  shows "(case market_maker_on_quote ticker bid ask b mm rt of
      (mm', as, rt') \<Rightarrow>
        if sb_active b \<and> 100 \<le> (fst (now_ns rt) - mm_last_update mm) sdiv 1000000
        then mm_mid_price mm' = Fin m \<and> mm_last_update mm' = fst (now_ns rt) \<and>
          (\<exists>my_bid my_ask. my_bid \<le> Fin m \<and> Fin m \<le> my_ask \<and>
             as = [PlaceLimit ticker BUY (mm_order_size mm) my_bid GTC POST_ONLY,
                   PlaceLimit ticker SELL (mm_order_size mm) my_ask GTC POST_ONLY])
        else as = [] \<and> mm' = mm)"
  using bracket [OF mid(2) half_spread_nonneg [OF mid(3) spread(3,2)]] spread mid
  by (auto simp: market_maker_on_quote_def kMinUpdateIntervalMs_def Let_def split: prod.splits)

theorem market_maker_brackets_mid_witness:
  "let mm = \<lparr>mm_spread_bps = Fin 10, mm_order_size = Fin 1, mm_mid_price = 0, mm_last_update = 0\<rparr>;
       b = (new_StrategyBase 1 ''M'' [''X''])\<lparr>sb_active := True\<rparr>;
       rt = \<lparr>order_id_counter = 0, clk = (\<lambda>n. 200000000)\<rparr>
   in (Fin 100 + Fin 102) / Fin 2 = Fin 101 \<and>
      (case market_maker_on_quote ''X'' (Fin 100) (Fin 102) b mm rt of
         (mm', as, rt') \<Rightarrow> mm_mid_price mm' = Fin 101 \<and> length as = 2)"
proof -
  define mm where "mm = \<lparr>mm_spread_bps = Fin 10, mm_order_size = Fin 1, mm_mid_price = 0, mm_last_update = 0\<rparr>"
  define b where "b = (new_StrategyBase 1 ''M'' [''X''])\<lparr>sb_active := True\<rparr>"
  define rt where "rt = \<lparr>order_id_counter = 0, clk = (\<lambda>n. 200000000)\<rparr>"
  have mid: "(Fin 100 + Fin 102) / Fin 2 = Fin 101" by code_simp
  have dbl: "is_double (Fin 10)" "is_double (Fin 101)" by code_simp+
  have act: "sb_active b \<and> 100 \<le> (fst (now_ns rt) - mm_last_update mm) sdiv 1000000"
    by (simp add: b_def rt_def mm_def now_ns_def)
  have "mm_spread_bps mm = Fin 10" by (simp add: mm_def)
  from market_maker_brackets_mid [OF this dbl(1) _ mid dbl(2), where ticker = "''X''" and b = b and rt = rt] act mid show ?thesis
    unfolding mm_def b_def rt_def Let_def by auto
qed

section \<open>The momentum strategy\<close>

text \<open>
  After the momentum strategy has traded, or set its reference, at a finite price, a further
  trade at the same price makes it place nothing, for any nonnegative threshold: it never
  repeats an order on an unchanged price.
\<close>

theorem momentum_no_repeat:
  assumes "0 \<le> mo_threshold_pct mo" and "price = Fin p"
    and "momentum_on_trade ticker price b mo = (mo', as)" and "mo_reference_price mo' = price"
  shows "snd (momentum_on_trade ticker price b mo') = []"
proof -
  have th: "mo_threshold_pct mo' = mo_threshold_pct mo"
    using assms(3) by (auto simp: momentum_on_trade_def Let_def split: if_splits prod.splits)
  have "- mo_threshold_pct mo \<le> 0"
    using assms(1) by (cases "mo_threshold_pct mo") (auto simp: zero_double_def uminus_double_def)
  moreover have "(price - price) / price * Fin 100 = Fin 0" if "p \<noteq> 0"
    using that assms(2) by (simp add: minus_double_def divide_double_def times_double_def)
  ultimately show ?thesis
    using assms(1,2,4) th
    by (auto simp: momentum_on_trade_def Let_def double_eq_def zero_double_def double_less_le)
qed

theorem momentum_no_repeat_witness:
  "let mo = \<lparr>mo_threshold_pct = Fin 1, mo_order_size = Fin 1, mo_last_price = Fin 100,
             mo_reference_price = Fin 100, mo_trade_count = 0\<rparr>;
       b = (new_StrategyBase 1 ''M'' [''X''])\<lparr>sb_active := True\<rparr>;
       (mo', as) = momentum_on_trade ''X'' (Fin 150) b mo
   in as = [PlaceMarket ''X'' BUY (Fin 1)] \<and> snd (momentum_on_trade ''X'' (Fin 150) b mo') = []"
proof -
  define mo where "mo = \<lparr>mo_threshold_pct = Fin 1, mo_order_size = Fin 1, mo_last_price = Fin 100,
             mo_reference_price = Fin 100, mo_trade_count = 0\<rparr>"
  define b where "b = (new_StrategyBase 1 ''M'' [''X''])\<lparr>sb_active := True\<rparr>"
  have th: "0 \<le> mo_threshold_pct mo" by (simp add: mo_def zero_double_def)
  have as: "snd (momentum_on_trade ''X'' (Fin 150) b mo) = [PlaceMarket ''X'' BUY (Fin 1)]"
    and ref: "mo_reference_price (fst (momentum_on_trade ''X'' (Fin 150) b mo)) = Fin 150"
    unfolding mo_def b_def by code_simp+
  from momentum_no_repeat [OF th refl prod.collapse [symmetric] ref] as show ?thesis
    unfolding mo_def b_def Let_def by (simp add: case_prod_beta)
qed

end
