(* ===== verification/Replay.thy ===== *)
theory Replay
  imports Example_Strategies
begin

text \<open>
  \<open>include/backtest/backtest_replay_driver.hpp\<close> and \<open>include/strategy/storage_replay_driver.hpp\<close>: the
  two drivers that feed a stored event log to the strategies. The log is read through the
  storage's \<open>replay\<close>, which is a parameter; it is a different object from the storage the
  simulated exchange writes to. \<open>std::get\<close> on the wrong alternative throws, which ends a run.
\<close>

section \<open>BacktestReplayDriver\<close>

datatype replay_error = BadVariantAccess

record BacktestReplayStats =
  bs_events_processed :: u64
  bs_quote_events :: u64
  bs_trade_events :: u64
  bs_ignored_execution_events :: u64

definition new_BacktestReplayStats :: BacktestReplayStats where
  "new_BacktestReplayStats =
     \<lparr>bs_events_processed = 0, bs_quote_events = 0, bs_trade_events = 0, bs_ignored_execution_events = 0\<rparr>"

type_synonym ('u, 's) sim_world = "('u, (nat, nat) SimulatedExecutionSink, 's) world"

definition sim_ops :: "'s append_fn \<Rightarrow> ((nat, nat) SimulatedExecutionSink, 's) sink_ops" where
  "sim_ops ap =
     \<lparr>so_submit = sim_submit_trade ap, so_cancel = sim_cancel_order ap, so_cancel_all = sim_cancel_all_orders ap\<rparr>"

text \<open>A call on the simulated exchange, with the callbacks it makes.\<close>

definition sim_call ::
  "'u StrategyClass \<Rightarrow> ((nat, nat, 's) sim \<Rightarrow> (nat, nat, 's) sim \<times> (nat, nat) effect list)
   \<Rightarrow> ('u, 's) sim_world \<Rightarrow> ('u, 's) sim_world"
where
  "sim_call cls f w =
     (let (sink, eff) = f (w_sink w) in w\<lparr>w_sink := sink, w_strategies := run_callbacks cls eff (w_strategies w)\<rparr>)"

definition backtest_event ::
  "'s append_fn \<Rightarrow> 'u StrategyClass \<Rightarrow> StorageEvent \<Rightarrow> BacktestReplayStats \<times> ('u, 's) sim_world
   \<Rightarrow> replay_error + BacktestReplayStats \<times> ('u, 's) sim_world"
where
  "backtest_event ap cls event acc =
     (let (st, w) = acc; st = st\<lparr>bs_events_processed := bs_events_processed st + 1\<rparr>
      in case se_type event of
           QuoteUpdateEvent \<Rightarrow>
             (case se_payload event of
                PQuote quote \<Rightarrow>
                  Inr (st\<lparr>bs_quote_events := bs_quote_events st + 1\<rparr>,
                       replay_quote ap cls (sim_ops ap) quote (sim_call cls (sim_on_quote ap quote) w))
              | _ \<Rightarrow> Inl BadVariantAccess)
         | MarketTrade \<Rightarrow>
             (case se_payload event of
                PMarket trade \<Rightarrow>
                  Inr (st\<lparr>bs_trade_events := bs_trade_events st + 1\<rparr>,
                       replay_trade ap cls (sim_ops ap) trade (sim_call cls (sim_on_trade ap trade) w))
              | _ \<Rightarrow> Inl BadVariantAccess)
         | TradeSubmitted \<Rightarrow> Inr (st\<lparr>bs_ignored_execution_events := bs_ignored_execution_events st + 1\<rparr>, w)
         | OrderResponseEvent \<Rightarrow> Inr (st\<lparr>bs_ignored_execution_events := bs_ignored_execution_events st + 1\<rparr>, w))"

text \<open>An exception leaves the loop: the events after it are not handled.\<close>

definition unless_error :: "('e \<Rightarrow> 'a \<Rightarrow> 'x + 'a) \<Rightarrow> 'e \<Rightarrow> 'x + 'a \<Rightarrow> 'x + 'a" where
  "unless_error f e acc = (case acc of Inl x \<Rightarrow> Inl x | Inr a \<Rightarrow> f e a)"

definition backtest_run ::
  "(ReplayRequest \<Rightarrow> ReplayBatch) \<Rightarrow> 's append_fn \<Rightarrow> 'u StrategyClass \<Rightarrow> ReplayRequest \<Rightarrow> ('u, 's) sim_world
   \<Rightarrow> (replay_error + BacktestReplayStats \<times> ('u, 's) sim_world) option"
where
  "backtest_run replay ap cls request w =
     replay_run (\<lambda>rq _. replay rq) (unless_error (backtest_event ap cls)) request (Inr (new_BacktestReplayStats, w))"

section \<open>StorageReplayDriver\<close>

record ReplayStats =
  rp_events_processed :: u64
  rp_responses_routed :: u64
  rp_unmatched_responses :: u64

definition new_ReplayStats :: ReplayStats where
  "new_ReplayStats = \<lparr>rp_events_processed = 0, rp_responses_routed = 0, rp_unmatched_responses = 0\<rparr>"

record ('u, 'd, 's) replay_state =
  rv_stats :: ReplayStats
  rv_order_to_strategy :: "u64 \<rightharpoonup> u32"
  rv_world :: "('u, 'd, 's) world"

definition storage_replay_event ::
  "'s append_fn \<Rightarrow> 'u StrategyClass \<Rightarrow> ('d, 's) sink_ops \<Rightarrow> StorageEvent \<Rightarrow> ('u, 'd, 's) replay_state
   \<Rightarrow> replay_error + ('u, 'd, 's) replay_state"
where
  "storage_replay_event ap cls ops event rv =
     (let st = rv_stats rv; rv = rv\<lparr>rv_stats := st\<lparr>rp_events_processed := rp_events_processed st + 1\<rparr>\<rparr>
      in case se_type event of
           TradeSubmitted \<Rightarrow>
             (case se_payload event of
                PTrade trade \<Rightarrow>
                  Inr (rv\<lparr>rv_order_to_strategy :=
                            (rv_order_to_strategy rv)(t_client_order_id trade \<mapsto> t_strategy_id trade)\<rparr>)
              | _ \<Rightarrow> Inl BadVariantAccess)
         | OrderResponseEvent \<Rightarrow>
             (case se_payload event of
                PResponse response \<Rightarrow>
                  (case rv_order_to_strategy rv (r_client_order_id response) of
                     None \<Rightarrow>
                       Inr (rv\<lparr>rv_stats := (rv_stats rv)\<lparr>rp_unmatched_responses :=
                                 rp_unmatched_responses (rv_stats rv) + 1\<rparr>\<rparr>)
                   | Some sid \<Rightarrow>
                       Inr (rv\<lparr>rv_world := dispatch_order_response cls sid response (rv_world rv),
                               rv_stats := (rv_stats rv)\<lparr>rp_responses_routed :=
                                 rp_responses_routed (rv_stats rv) + 1\<rparr>\<rparr>))
              | _ \<Rightarrow> Inl BadVariantAccess)
         | MarketTrade \<Rightarrow>
             (case se_payload event of
                PMarket trade \<Rightarrow> Inr (rv\<lparr>rv_world := replay_trade ap cls ops trade (rv_world rv)\<rparr>)
              | _ \<Rightarrow> Inl BadVariantAccess)
         | QuoteUpdateEvent \<Rightarrow>
             (case se_payload event of
                PQuote quote \<Rightarrow> Inr (rv\<lparr>rv_world := replay_quote ap cls ops quote (rv_world rv)\<rparr>)
              | _ \<Rightarrow> Inl BadVariantAccess))"

definition storage_replay_run ::
  "(ReplayRequest \<Rightarrow> ReplayBatch) \<Rightarrow> 's append_fn \<Rightarrow> 'u StrategyClass \<Rightarrow> ('d, 's) sink_ops \<Rightarrow> ReplayRequest
   \<Rightarrow> ('u, 'd, 's) world \<Rightarrow> (replay_error + ('u, 'd, 's) replay_state) option"
where
  "storage_replay_run replay ap cls ops request w =
     replay_run (\<lambda>rq _. replay rq) (unless_error (storage_replay_event ap cls ops)) request
       (Inr \<lparr>rv_stats = new_ReplayStats, rv_order_to_strategy = Map.empty, rv_world = w\<rparr>)"

section \<open>Complete runs\<close>

lemma fold_unless_error:
  assumes "list_all ok es" and "I a"
    and "\<And>e a. ok e \<Longrightarrow> I a \<Longrightarrow> \<exists>a'. f e a = Inr a' \<and> I a'"
  shows "\<exists>a'. fold (unless_error f) es (Inr a) = Inr a' \<and> I a'"
  using assms(1,2)
proof (induction es arbitrary: a)
  case (Cons e es)
  then obtain a' where "f e a = Inr a'" "I a'" using assms(3) [of e a] by auto
  with Cons show ?case by (simp add: unless_error_def [of f e])
qed simp

abbreviation of_type :: "StorageEventType \<Rightarrow> StorageEvent list \<Rightarrow> u64" where
  "of_type ty es \<equiv> of_nat (length (filter (\<lambda>e. se_type e = ty) es))"

lemma payload_cases:
  assumes "payload_matches_type e"
  obtains t where "se_type e = TradeSubmitted" "se_payload e = PTrade t"
  | r where "se_type e = OrderResponseEvent" "se_payload e = PResponse r"
  | m where "se_type e = MarketTrade" "se_payload e = PMarket m"
  | q where "se_type e = QuoteUpdateEvent" "se_payload e = PQuote q"
  using assms by (auto simp: payload_matches_type_def split: StorageEventType.splits StoragePayload.splits)

definition count_event :: "StorageEvent \<Rightarrow> BacktestReplayStats \<Rightarrow> BacktestReplayStats" where
  "count_event e st =
     (let st = st\<lparr>bs_events_processed := bs_events_processed st + 1\<rparr>
      in case se_type e of
           QuoteUpdateEvent \<Rightarrow> st\<lparr>bs_quote_events := bs_quote_events st + 1\<rparr>
         | MarketTrade \<Rightarrow> st\<lparr>bs_trade_events := bs_trade_events st + 1\<rparr>
         | _ \<Rightarrow> st\<lparr>bs_ignored_execution_events := bs_ignored_execution_events st + 1\<rparr>)"

lemma backtest_event_ok:
  "payload_matches_type e \<Longrightarrow> \<exists>w'. backtest_event ap cls e (st, w) = Inr (count_event e st, w')"
  by (erule payload_cases) (simp_all add: backtest_event_def count_event_def Let_def)

lemma backtest_fold:
  "list_all payload_matches_type es \<Longrightarrow>
   \<exists>w'. fold (unless_error (backtest_event ap cls)) es (Inr (st, w)) = Inr (fold count_event es st, w')"
proof (induction es arbitrary: st w)
  case (Cons e es)
  then obtain w' where "backtest_event ap cls e (st, w) = Inr (count_event e st, w')"
    using backtest_event_ok [of e ap cls st w] by auto
  with Cons show ?case by (simp add: unless_error_def [of _ e])
qed simp

lemma fold_count_event:
  "fold count_event es st =
     \<lparr>bs_events_processed = bs_events_processed st + of_nat (length es),
      bs_quote_events = bs_quote_events st + of_type QuoteUpdateEvent es,
      bs_trade_events = bs_trade_events st + of_type MarketTrade es,
      bs_ignored_execution_events = bs_ignored_execution_events st
        + of_type TradeSubmitted es + of_type OrderResponseEvent es\<rparr>"
proof (induction es arbitrary: st)
  case (Cons e es)
  show ?case by (cases "se_type e") (simp_all add: Cons count_event_def [of e])
qed simp

text \<open>
  A backtest over an in-memory log ends without an exception, whatever the page size: every
  matching event is handled exactly once in log order, and the statistics count the events of
  each kind.
\<close>

theorem backtest_run_complete:
  fixes es :: "StorageEvent list" and rt :: runtime and rq :: ReplayRequest
  assumes "length es < 2 ^ 64"
  defines "s \<equiv> fst (append_all in_memory_append es new_InMemoryStorage rt)"
  defines "hits \<equiv> filter (matches_replay_filter rq) (im_events s)"
  shows "\<exists>w'. backtest_run (\<lambda>rq. in_memory_replay rq s) ap cls rq w =
      Some (fold (unless_error (backtest_event ap cls)) hits (Inr (new_BacktestReplayStats, w))) \<and>
    fold (unless_error (backtest_event ap cls)) hits (Inr (new_BacktestReplayStats, w)) =
      Inr (\<lparr>bs_events_processed = of_nat (length hits), bs_quote_events = of_type QuoteUpdateEvent hits,
            bs_trade_events = of_type MarketTrade hits,
            bs_ignored_execution_events = of_type TradeSubmitted hits + of_type OrderResponseEvent hits\<rparr>, w')"
proof -
  note inv = in_memory_log(1) [of es rt, folded s_def] and len = in_memory_log(2) [of es rt, folded s_def]
  have "length (im_events s) < 2 ^ 64" using len assms(1) by (rule le_less_trans)
  note run = in_memory.replay_complete [OF inv this]
  have "list_all payload_matches_type hits"
    using in_memory.typed [OF inv] by (auto simp: hits_def list_all_iff)
  from backtest_fold [OF this, of ap cls new_BacktestReplayStats w] show ?thesis
    by (auto simp: backtest_run_def run hits_def [symmetric] fold_count_event new_BacktestReplayStats_def)
qed

definition example_world :: "(example, InMemoryStorage) sim_world" where
  "example_world =
     \<lparr>w_strategies = [(attach_execution_sink True (new_StrategyBase 1 ''M'' [''X'']),
                       snd (new_SimpleMomentum 1 ''X'' (Fin 1) (Fin 1)))],
      w_sink = (new_SimulatedExecutionSink (example_config True), example_env), w_storage = False\<rparr>"

theorem backtest_run_complete_witness:
  "\<exists>w'. backtest_run (\<lambda>rq. in_memory_replay rq example_log) in_memory_append example_class
          (request_ticker None 1) example_world
    = Some (Inr (\<lparr>bs_events_processed = 3, bs_quote_events = 0, bs_trade_events = 3,
                  bs_ignored_execution_events = 0\<rparr>, w'))"
proof -
  have len: "length [example_market ''X'', (example_market ''X'')\<lparr>se_type := QuoteUpdateEvent\<rparr>,
      example_market ''Y'', example_market ''X''] < 2 ^ 64" by simp
  let ?hits = "filter (matches_replay_filter (request_ticker None 1)) (im_events example_log)"
  have "map se_type ?hits = [MarketTrade, MarketTrade, MarketTrade]" by code_simp
  then obtain a b c where hits: "?hits = [a, b, c]"
    "se_type a = MarketTrade" "se_type b = MarketTrade" "se_type c = MarketTrade"
    by (auto simp: map_eq_Cons_conv)
  from backtest_run_complete [OF len, where rt = "\<lparr>order_id_counter = 0, clk = (\<lambda>n. int n)\<rparr>"
      and rq = "request_ticker None 1" and w = example_world and cls = example_class and ap = in_memory_append,
      folded example_log_def]
  obtain w' where "backtest_run (\<lambda>rq. in_memory_replay rq example_log) in_memory_append example_class
      (request_ticker None 1) example_world =
    Some (fold (unless_error (backtest_event in_memory_append example_class)) ?hits
            (Inr (new_BacktestReplayStats, example_world)))"
    "fold (unless_error (backtest_event in_memory_append example_class)) ?hits
       (Inr (new_BacktestReplayStats, example_world)) =
      Inr (\<lparr>bs_events_processed = of_nat (length ?hits), bs_quote_events = of_type QuoteUpdateEvent ?hits,
            bs_trade_events = of_type MarketTrade ?hits,
            bs_ignored_execution_events = of_type TradeSubmitted ?hits + of_type OrderResponseEvent ?hits\<rparr>, w')"
    by blast
  then show ?thesis unfolding hits(1) using hits(2-4) by simp
qed

section \<open>A simulated session replays without unmatched responses\<close>

text \<open>
  \<open>matched ids es\<close>: every response of the log answers an order in \<open>ids\<close> or submitted before it.
\<close>

fun matched :: "u64 set \<Rightarrow> StoragePayload list \<Rightarrow> bool" where
  "matched ids [] = True"
| "matched ids (PTrade t # ps) = matched (insert (t_client_order_id t) ids) ps"
| "matched ids (PResponse r # ps) \<longleftrightarrow> r_client_order_id r \<in> ids \<and> matched ids ps"
| "matched ids (PMarket m # ps) = matched ids ps"
| "matched ids (PQuote q # ps) = matched ids ps"

fun submitted_ids :: "StoragePayload list \<Rightarrow> u64 set" where
  "submitted_ids [] = {}"
| "submitted_ids (PTrade t # ps) = insert (t_client_order_id t) (submitted_ids ps)"
| "submitted_ids (_ # ps) = submitted_ids ps"

lemma submitted_ids_append [simp]: "submitted_ids (ps @ qs) = submitted_ids ps \<union> submitted_ids qs"
  by (induction ps rule: submitted_ids.induct) auto

lemma matched_append: "matched ids (ps @ qs) \<longleftrightarrow> matched ids ps \<and> matched (ids \<union> submitted_ids ps) qs"
  by (induction ids ps rule: matched.induct) simp_all

text \<open>The simulator's storage is open and its log is matched, also for the orders still resting.\<close>

definition logged :: "('cb, 'f, InMemoryStorage) sim \<Rightarrow> StoragePayload list \<Rightarrow> bool" where
  "logged sim ps \<longleftrightarrow>
     (\<exists>s. env_storage (snd sim) = Some s \<and> in_memory_inv s \<and> \<not> im_closed s \<and> map se_payload (im_events s) = ps)"

definition session_ok :: "('cb, 'f, InMemoryStorage) sim \<Rightarrow> bool" where
  "session_ok sim \<longleftrightarrow>
     (\<exists>ps. logged sim ps \<and> matched {} ps \<and>
        list_all (\<lambda>po. t_client_order_id (po_trade po) \<in> submitted_ids ps) (resting sim))"

lemma logged_rt [simp]: "logged (sx, env\<lparr>env_rt := rt\<rparr>) ps = logged (sx, env) ps"
  by (simp add: logged_def)

lemma logged_sx: "logged (sx, env) ps \<Longrightarrow> logged (sx', env) ps"
  by (simp add: logged_def)

lemma append_event_logged:
  assumes "logged (sx, env) ps" and "payload_matches_type e"
  shows "logged (fst (append_storage_event in_memory_append e f (sx, env))) (ps @ [se_payload e])"
proof -
  from assms(1) obtain s where s: "env_storage env = Some s" "in_memory_inv s" "\<not> im_closed s"
    "map se_payload (im_events s) = ps" by (auto simp: logged_def)
  show ?thesis
  proof (rule in_memory_append_cases [where e = e and s = s and rt = "env_rt env"], goal_cases)
    case 1
    then show ?case using s assms(2) by simp
  next
    case (2 e' rt')
    then show ?case
      using s in_memory_append_inv [OF s(2), of e "env_rt env"]
      by (simp add: append_storage_event_def env_append_def logged_def Let_def)
  qed
qed

lemma storage_event_simps:
  "se_type (fst (storage_event ty p env)) = ty" "se_payload (fst (storage_event ty p env)) = p"
  "\<exists>rt. snd (storage_event ty p env) = env\<lparr>env_rt := rt\<rparr>"
  by (auto simp: storage_event_def env_now_def Let_def split: prod.splits)

lemma publish_logged:
  fixes sim :: "('cb, 'f, InMemoryStorage) sim"
  assumes "logged sim ps"
  shows "logged (fst (publish_response in_memory_append r c f sim)) (ps @ [PResponse r])"
proof -
  obtain sx env where sim: "sim = (sx, env)" by (cases sim)
  let ?e = "storage_event OrderResponseEvent (PResponse r) env"
  obtain rt where "snd ?e = env\<lparr>env_rt := rt\<rparr>" using storage_event_simps(3) by blast
  then have "logged (sx', snd ?e) ps" for sx' :: "('cb, 'f) SimulatedExecutionSink" using assms sim by (auto intro: logged_sx)
  moreover have "payload_matches_type (fst ?e)" by (simp add: payload_matches_type_def storage_event_simps)
  moreover obtain sx' where "publish_response in_memory_append r c f sim
      = (fst (append_storage_event in_memory_append (fst ?e) f (sx', snd ?e)),
         snd (append_storage_event in_memory_append (fst ?e) f (sx', snd ?e)) @ invoke c r)"
    by (simp add: sim publish_response_def case_prod_beta Let_def)
  ultimately show ?thesis
    using append_event_logged [of sx' "snd ?e" ps "fst ?e" f] by (simp add: storage_event_simps)
qed

lemma deliver_logged:
  "logged sim ps \<Longrightarrow> logged (fst (deliver_all in_memory_append ds sim)) (ps @ map (PResponse \<circ> snd) ds)"
proof (induction ds arbitrary: sim ps)
  case (Cons d ds)
  obtain po r where d: "d = (po, r)" by (cases d)
  from Cons.IH [OF publish_logged [OF Cons.prems]] show ?case by (simp add: d case_prod_beta Let_def)
qed simp

lemma matched_responses:
  "matched ids (map PResponse rs) \<longleftrightarrow> list_all (\<lambda>r. r_client_order_id r \<in> ids) rs"
  by (induction rs) simp_all

lemma submitted_ids_responses [simp]: "submitted_ids (map PResponse rs) = {}"
  by (induction rs) simp_all

text \<open>Delivering answers to orders of the session keeps it in order.\<close>

lemma deliver_session:
  assumes "logged sim ps" and "matched {} ps"
    and "list_all (\<lambda>(po, r). answers (po_trade po) r \<and> t_client_order_id (po_trade po) \<in> submitted_ids ps) ds"
    and "list_all (\<lambda>po. t_client_order_id (po_trade po) \<in> submitted_ids ps) (resting sim)"
  shows "session_ok (fst (deliver_all in_memory_append ds sim))"
proof -
  have "list_all (\<lambda>r. r_client_order_id r \<in> submitted_ids ps) (map snd ds)"
    using assms(3) by (auto simp: list_all_iff answers_def)
  then have "matched {} (ps @ map PResponse (map snd ds))"
    using assms(2) by (simp only: matched_append matched_responses Un_empty_left)
  with deliver_logged [OF assms(1), of ds] assms(4) show ?thesis
    unfolding session_ok_def by (intro exI [of _ "ps @ map PResponse (map snd ds)"]) (simp flip: map_map)
qed

lemma logged_storage: "env_storage (snd sim') = env_storage (snd sim) \<Longrightarrow> logged sim' ps = logged sim ps"
  by (simp add: logged_def)

lemma submit_stored_logged:
  fixes sim :: "('cb, 'f, InMemoryStorage) sim"
  assumes "logged sim ps"
  shows "logged (submit_stored in_memory_append t f sim) (ps @ [PTrade t])"
proof -
  let ?e = "storage_event TradeSubmitted (PTrade t) (snd sim)"
  obtain rt where "snd ?e = (snd sim)\<lparr>env_rt := rt\<rparr>" using storage_event_simps(3) by blast
  then have "logged (sx', snd ?e) ps" for sx' :: "('cb, 'f) SimulatedExecutionSink"
    using assms by (cases sim) (auto intro: logged_sx)
  moreover have "payload_matches_type (fst ?e)" by (simp add: payload_matches_type_def storage_event_simps)
  ultimately show ?thesis
    using append_event_logged [of "(fst sim)\<lparr>sx_submitted := sx_submitted (fst sim) + 1\<rparr>" "snd ?e" ps "fst ?e" f]
    by (simp add: submit_stored_def storage_event_simps case_prod_beta Let_def)
qed

lemma submit_session:
  assumes "session_ok sim"
  shows "session_ok (fst (snd (sim_submit_trade in_memory_append t c f sim)))"
proof -
  from assms obtain ps where ps: "logged sim ps" "matched {} ps"
    "list_all (\<lambda>po. t_client_order_id (po_trade po) \<in> submitted_ids ps) (resting sim)"
    unfolding session_ok_def by blast
  note stored = submit_stored_logged [OF ps(1), of t f]
  show ?thesis
  proof (rule submit_cases [where ap = in_memory_append and t = t and c = c and f = f and sim = sim], goal_cases)
    case (1 e r s')
    then have "logged s' (ps @ [PTrade t])" using stored logged_storage [of s'] by blast
    from publish_logged [OF this, of r c f] 1 ps(2,3) show ?case
      unfolding session_ok_def
      by (intro exI [of _ "ps @ [PTrade t] @ [PResponse r]"])
        (auto simp: matched_append answers_def list_all_iff)
  next
    case (2 e po s')
    then have "logged s' (ps @ [PTrade t])" using stored logged_storage [of s'] by blast
    with 2 ps(2,3) show ?case
      unfolding session_ok_def
      by (intro exI [of _ "ps @ [PTrade t]"]) (auto simp: matched_append list_all_iff)
  qed
qed

lemma swept_session:
  assumes "swept sel sim ds s'" and "session_ok sim"
  shows "session_ok (fst (deliver_all in_memory_append ds s'))"
proof -
  from assms(2) obtain ps where ps: "logged sim ps" "matched {} ps"
    "list_all (\<lambda>po. t_client_order_id (po_trade po) \<in> submitted_ids ps) (resting sim)"
    unfolding session_ok_def by blast
  have "logged s' ps" using ps(1) assms(1) logged_storage [of s' sim] by (simp add: swept_def)
  moreover have "fst d \<in> set (resting sim)" if "d \<in> set ds" for d
    using that assms(1) by (metis filter_is_subset image_eqI list.set_map subsetD swept_def)
  ultimately show ?thesis
    using assms(1) ps by (intro deliver_session [of s' ps]) (auto simp: swept_def list_all_iff)
qed

lemma cancel_session:
  "session_ok sim \<Longrightarrow> session_ok (fst (sim_cancel_order in_memory_append i oid cid sim))"
proof (rule cancel_cases [where ap = in_memory_append and i = i and oid = oid and cid = cid and sim = sim], goal_cases)
  case (2 xs po ys r s')
  then obtain ps where ps: "logged sim ps" "matched {} ps"
    "list_all (\<lambda>po. t_client_order_id (po_trade po) \<in> submitted_ids ps) (resting sim)"
    unfolding session_ok_def by blast
  have "logged s' ps" using ps(1) 2 logged_storage [of s' sim] by blast
  from deliver_session [OF this ps(2), of "[(po, r)]"] 2 ps(3) show ?case by simp
qed simp

lemma step_session: "session_ok sim \<Longrightarrow> session_ok (fst (sim_step in_memory_append x sim))"
proof (cases x)
  case (Market y)
  assume ok: "session_ok sim"
  show ?thesis
  proof (cases y)
    case (Quote q)
    obtain ds s' where "swept (\<lambda>po. q_ticker q = t_ticker (po_trade po) \<and> t_type (po_trade po) = LIMIT
          \<and> quote_crosses q (po_trade po)) ((fst sim)\<lparr>sx_quotes := (quotes sim)(q_ticker q \<mapsto> q)\<rparr>, snd sim) ds s'"
      "sim_on_quote in_memory_append q sim = deliver_all in_memory_append ds s'" by (rule on_quote_swept)
    moreover have "session_ok ((fst sim)\<lparr>sx_quotes := (quotes sim)(q_ticker q \<mapsto> q)\<rparr>, snd sim)"
      using ok by (simp add: session_ok_def logged_def)
    ultimately show ?thesis using swept_session Market Quote by fastforce
  next
    case (MarketPrint ev)
    obtain sel ds s' where "swept sel sim ds s'" "sim_on_trade in_memory_append ev sim = deliver_all in_memory_append ds s'"
      by (rule on_trade_swept)
    with swept_session [OF _ ok] Market MarketPrint show ?thesis by simp
  next
    case (CancelAll i)
    obtain sel ds s' where "swept sel sim ds s'"
      "sim_cancel_all_orders in_memory_append i sim = deliver_all in_memory_append ds s'" by (rule cancel_all_swept)
    with swept_session [OF _ ok] Market CancelAll show ?thesis by simp
  qed (use ok Market cancel_session in simp)
qed (simp add: submit_session)

lemma run_session: "session_ok sim \<Longrightarrow> session_ok (fst (sim_run in_memory_append ops sim))"
proof (induction ops arbitrary: sim)
  case (Cons x ops)
  with step_session [of sim x] show ?case by (simp add: case_prod_beta Let_def)
qed simp

lemma storage_replay_fold:
  "list_all payload_matches_type es \<Longrightarrow> matched (dom (rv_order_to_strategy rv)) (map se_payload es) \<Longrightarrow>
   \<exists>rv'. fold (unless_error (storage_replay_event ap cls ops)) es (Inr rv) = Inr rv'
     \<and> rv_stats rv' = (rv_stats rv)\<lparr>rp_events_processed := rp_events_processed (rv_stats rv) + of_nat (length es),
         rp_responses_routed := rp_responses_routed (rv_stats rv) + of_type OrderResponseEvent es\<rparr>"
proof (induction es arbitrary: rv)
  case (Cons e es)
  have "\<exists>rv'. storage_replay_event ap cls ops e rv = Inr rv'
      \<and> rv_stats rv' = (rv_stats rv)\<lparr>rp_events_processed := rp_events_processed (rv_stats rv) + 1,
          rp_responses_routed := rp_responses_routed (rv_stats rv) + of_type OrderResponseEvent [e]\<rparr>
      \<and> matched (dom (rv_order_to_strategy rv')) (map se_payload es)"
  proof -
    have "payload_matches_type e" using Cons.prems by simp
    then show ?thesis
      by (cases rule: payload_cases)
        (use Cons.prems in \<open>auto simp: storage_replay_event_def Let_def domIff split: option.splits\<close>)
  qed
  then obtain rv' where rv': "storage_replay_event ap cls ops e rv = Inr rv'"
    "rv_stats rv' = (rv_stats rv)\<lparr>rp_events_processed := rp_events_processed (rv_stats rv) + 1,
        rp_responses_routed := rp_responses_routed (rv_stats rv) + of_type OrderResponseEvent [e]\<rparr>"
    "matched (dom (rv_order_to_strategy rv')) (map se_payload es)" by blast
  with Cons.IH [of rv'] Cons.prems show ?case by (auto simp: unless_error_def [of _ e])
qed simp



end
