(* ===== verification/Session_Ledger.thy ===== *)
theory Session_Ledger
  imports Replay
begin

text \<open>
  What a whole session of strategies over an execution sink keeps. The locale \<open>world_invariant\<close>
  lifts an invariant that the single calls on the sink keep to everything the manager does with
  the strategies; it is interpreted on the simulated exchange with the order ledger of each
  strategy: the orders it submitted are the responses it received and its orders still resting.
\<close>

section \<open>Invariants of a session\<close>

fun action_ticker :: "action \<Rightarrow> string" where
  "action_ticker (PlaceLimit tk _ _ _ _ _) = tk"
| "action_ticker (PlaceMarket tk _ _) = tk"
| "action_ticker (PlaceStop tk _ _ _ _) = tk"
| "action_ticker (CancelOrder tk _ _) = tk"
| "action_ticker (CancelAllOrders tk) = tk"

text \<open>The fields of a strategy that only the execution sink and its callbacks change.\<close>

definition ledger_fields :: "StrategyBase \<Rightarrow> string list \<times> bool \<times> u64 \<times> u64" where
  "ledger_fields b = (sb_tickers b, sb_execution_sink b, sb_orders_submitted b, sb_order_responses b)"

text \<open>Actions on the instruments of the session; canceling is allowed everywhere.\<close>

definition allowed :: "(string \<Rightarrow> bool) \<Rightarrow> action \<Rightarrow> bool" where
  "allowed legal a \<longleftrightarrow> legal (action_ticker a) \<or> (\<exists>tk. a = CancelAllOrders tk)"

locale world_invariant =
  fixes cls :: "'u StrategyClass" and ops :: "('d, 's) sink_ops" and kind :: "'u \<Rightarrow> bool"
    and legal :: "string \<Rightarrow> bool" and n :: nat and Q :: "('u, 'd, 's) world \<Rightarrow> bool"
  assumes submit_keeps: "Q w \<Longrightarrow> i < n \<Longrightarrow> legal (t_ticker t) \<Longrightarrow> Q (snd (strat_submit_trade cls ops i t w))"
    and cancel_keeps: "Q w \<Longrightarrow> Q (strat_cancel_order cls ops i tk oid cid w)"
    and cancel_all_keeps: "Q w \<Longrightarrow> Q (strat_cancel_all_orders cls ops i tk w)"
    and rt_keeps: "Q w \<Longrightarrow> Q (set_rt rt w)"
    and user_keeps: "Q w \<Longrightarrow> kind u = kind (snd (w_strategies w ! i)) \<Longrightarrow>
      Q (w\<lparr>w_strategies := update_strategy i (\<lambda>(b, _). (b, u)) (w_strategies w)\<rparr>)"
    and base_keeps: "Q w \<Longrightarrow> (\<And>b. ledger_fields (f b) = ledger_fields b) \<Longrightarrow> Q (update_base i f w)"
    and strategies: "Q w \<Longrightarrow> length (w_strategies w) = n"
    and tracked: "Q w \<Longrightarrow> i < n \<Longrightarrow> tracks_ticker tk (fst (w_strategies w ! i)) \<Longrightarrow> legal tk"
    and short: "legal tk \<Longrightarrow> wf_buffer 16 tk"
    and start_kind: "kind (fst (cl_on_start cls b u rt)) = kind u"
    and start_legal: "fst (snd (cl_on_start cls b u rt)) = []"
    and stop_kind: "kind (fst (cl_on_stop cls b u rt)) = kind u"
    and stop_cancels: "a \<in> set (fst (snd (cl_on_stop cls b u rt))) \<Longrightarrow> \<exists>tk. a = CancelAllOrders tk"
    and quote_kind: "kind (fst (cl_on_quote cls tk bid ask bs as b u rt)) = kind u"
    and quote_ticker: "a \<in> set (fst (snd (cl_on_quote cls tk bid ask bs as b u rt))) \<Longrightarrow> action_ticker a = tk"
    and trade_kind: "kind (fst (cl_on_trade cls tk p sz buy b u rt)) = kind u"
    and trade_ticker: "a \<in> set (fst (snd (cl_on_trade cls tk p sz buy b u rt))) \<Longrightarrow> action_ticker a = tk"
begin

lemma copy_legal [simp]: "legal tk \<Longrightarrow> copy_string 16 tk = tk"
  by (intro copy_string_id short)

lemma perform_keeps:
  assumes "Q w" and "allowed legal a" and "i < n"
  shows "Q (perform cls ops i a w)"
  using assms rt_keeps [OF assms(1)]
  by (cases a)
    (auto simp: place_limit_order_def place_market_order_def place_stop_order_def factory_defs allowed_def
      case_prod_beta Let_def intro!: submit_keeps cancel_keeps cancel_all_keeps rt_keeps)

lemma performs_keep: "Q w \<Longrightarrow> list_all (allowed legal) as \<Longrightarrow> i < n \<Longrightarrow> Q (fold (perform cls ops i) as w)"
  by (induction as arbitrary: w) (auto intro: perform_keeps)

lemma call_virtual_keeps:
  assumes "Q w" and "i < n"
    and "\<And>b u rt. w_strategies w ! i = (b, u) \<Longrightarrow> kind (fst (f b u rt)) = kind u"
    and "\<And>b u rt a. w_strategies w ! i = (b, u) \<Longrightarrow> a \<in> set (fst (snd (f b u rt))) \<Longrightarrow> allowed legal a"
  shows "Q (call_virtual cls ops i f w)"
proof -
  obtain b u where s: "w_strategies w ! i = (b, u)" by (rule prod.exhaust)
  obtain u' as rt where f: "f b u (w_rt w) = (u', as, rt)" by (rule prod_cases3)
  have "kind u' = kind u" using assms(3) [OF s, of "w_rt w"] by (simp add: f)
  then have "Q (set_rt rt (w\<lparr>w_strategies := update_strategy i (\<lambda>(b, _). (b, u')) (w_strategies w)\<rparr>))"
    by (intro rt_keeps user_keeps assms(1)) (simp add: s)
  moreover have "list_all (allowed legal) as" using assms(4) [OF s, of _ "w_rt w"] by (simp add: f list_all_iff)
  ultimately show ?thesis using assms(2) by (simp add: call_virtual_def s f performs_keep)
qed

lemma update_base_tickers:
  "tracks_ticker tk (fst (w_strategies (update_base i f w) ! j)) = tracks_ticker tk (fst (w_strategies w ! j))"
  if "\<And>b. sb_tickers (f b) = sb_tickers b"
  using that by (auto simp: update_base_def update_strategy_def tracks_ticker_def nth_list_update)

lemma on_quote_keeps:
  assumes "Q w" and "i < n" and "tracks_ticker (q_ticker q) (fst (w_strategies w ! i))"
  shows "Q (on_quote_update cls ops q i w)"
proof -
  have "Q (update_base i (\<lambda>b. b\<lparr>sb_quote_events := sb_quote_events b + 1\<rparr>) w)"
    by (rule base_keeps [OF assms(1)]) (simp add: ledger_fields_def)
  moreover have "legal (q_ticker q)" using tracked [OF assms] .
  ultimately show ?thesis
    unfolding on_quote_update_def using assms(2) quote_kind
    by (intro call_virtual_keeps) (auto simp: allowed_def dest: quote_ticker)
qed

lemma on_trade_keeps:
  assumes "Q w" and "i < n" and "tracks_ticker (e_ticker ev) (fst (w_strategies w ! i))"
  shows "Q (on_trade_event cls ops ev i w)"
proof -
  have "Q (update_base i (\<lambda>b. b\<lparr>sb_trade_events := sb_trade_events b + 1\<rparr>) w)"
    by (rule base_keeps [OF assms(1)]) (simp add: ledger_fields_def)
  moreover have "legal (e_ticker ev)" using tracked [OF assms] .
  ultimately show ?thesis
    unfolding on_trade_event_def using assms(2) trade_kind
    by (intro call_virtual_keeps) (auto simp: allowed_def dest: trade_ticker)
qed

lemma dispatch_keeps:
  assumes "Q w" and "\<And>w i. Q w \<Longrightarrow> i < n \<Longrightarrow> tracks_ticker tk (fst (w_strategies w ! i)) \<Longrightarrow> Q (f i w)"
  shows "Q (dispatch_to_matching_strategies tk persisted f w)"
proof -
  have one: "Q (dispatch_one tk persisted f i w)" if "Q w" "i < n" for i w
  proof -
    have "Q (update_base i record_storage_append_failure w)"
      by (rule base_keeps [OF that(1)]) (simp add: ledger_fields_def record_storage_append_failure_def)
    then show ?thesis
      using that assms(2) 
      by (simp add: dispatch_one_def update_base_tickers record_storage_append_failure_def Let_def)
  qed
  have "Q (fold (dispatch_one tk persisted f) is w)" if "Q w" "list_all (\<lambda>i. i < n) is" for "is" w
    using that by (induction "is" arbitrary: w) (auto intro: one)
  then show ?thesis
    using assms(1) strategies [OF assms(1)] by (simp add: dispatch_to_matching_strategies_def list_all_iff)
qed

lemma timestamped_keeps: "Q w \<Longrightarrow> Q (snd (timestamped ty p w))"
  using rt_keeps [of w "env_rt (snd (w_sink (snd (timestamped ty p w))))"]
  by (simp add: timestamped_def storage_event_def env_now_def set_rt_def case_prod_beta Let_def)

lemma replay_keeps:
  "Q w \<Longrightarrow> Q (replay_quote ap cls ops q w)" "Q w \<Longrightarrow> Q (replay_trade ap cls ops ev w)"
  unfolding replay_quote_def replay_trade_def dispatch_quote_impl_def dispatch_trade_impl_def
  by (auto simp: maybe_append_storage_event_def case_prod_beta Let_def
      intro!: dispatch_keeps timestamped_keeps on_quote_keeps on_trade_keeps)

lemma start_keeps:
  assumes "Q w" and "i < n" and "sb_execution_sink (fst (w_strategies w ! i))"
  obtains w' where "strategy_start cls ops i w = Inr w'" "Q w'"
proof -
  have "Q (update_base i (\<lambda>b. b\<lparr>sb_active := True\<rparr>) w)"
    by (rule base_keeps [OF assms(1)]) (simp add: ledger_fields_def)
  then have "Q (call_virtual cls ops i (cl_on_start cls) (update_base i (\<lambda>b. b\<lparr>sb_active := True\<rparr>) w))"
    using assms(2) start_kind by (intro call_virtual_keeps) (auto simp: start_legal)
  then show thesis using assms(3) by (intro that) (simp_all add: strategy_start_def Let_def)
qed

lemma stop_keeps: "Q w \<Longrightarrow> i < n \<Longrightarrow> Q (strategy_stop cls ops i w)"
proof -
  assume w: "Q w" and i: "i < n"
  have "Q (update_base i (\<lambda>b. b\<lparr>sb_active := False\<rparr>) w)"
    by (rule base_keeps [OF w]) (simp add: ledger_fields_def)
  then show ?thesis
    unfolding strategy_stop_def using i stop_kind
    by (intro call_virtual_keeps) (auto simp: allowed_def dest: stop_cancels)
qed

lemma start_all_keeps:
  assumes "Q w" and attached: "\<And>w i. Q w \<Longrightarrow> i < n \<Longrightarrow> sb_execution_sink (fst (w_strategies w ! i))"
  obtains w' where "start_all cls ops w = (None, w')" "Q w'"
proof -
  have "\<exists>w'. start_from cls ops is w = (None, w') \<and> Q w'" if "Q w" "list_all (\<lambda>i. i < n) is" for "is" w
    using that
  proof (induction "is" arbitrary: w)
    case (Cons i "is")
    then obtain w1 where "strategy_start cls ops i w = Inr w1" "Q w1"
      using start_keeps [OF Cons.prems(1), of i] attached by auto
    with Cons show ?case by simp
  qed simp
  from this [OF assms(1), of "[0..<length (w_strategies w)]"] show thesis
    using that strategies [OF assms(1)] by (auto simp: start_all_def list_all_iff)
qed

lemma stop_all_keeps: "Q w \<Longrightarrow> Q (stop_all cls ops w)"
proof -
  assume w: "Q w"
  have "Q (fold (strategy_stop cls ops) is w)" if "Q w" "list_all (\<lambda>i. i < n) is" for "is" w
    using that by (induction "is" arbitrary: w) (auto intro: stop_keeps)
  then show ?thesis using w strategies [OF w] by (simp add: stop_all_def list_all_iff)
qed

end

text \<open>With a storage behind the manager, market events are also recorded.\<close>

locale recorded_world_invariant = world_invariant cls ops kind legal n Q
  for cls :: "'u StrategyClass" and ops :: "('d, 's) sink_ops" and kind legal n Q +
  fixes ap :: "'s append_fn"
  assumes append_keeps: "Q w \<Longrightarrow> Q (w\<lparr>w_sink := (fst (w_sink w), snd (env_append ap e (snd (w_sink w))))\<rparr>)"
begin

lemma maybe_append_keeps: "Q w \<Longrightarrow> Q (snd (maybe_append_storage_event ap e persist w))"
  by (simp add: maybe_append_storage_event_def append_keeps case_prod_beta Let_def)

lemma market_keeps:
  "Q w \<Longrightarrow> Q (dispatch_quote ap cls ops q w)" "Q w \<Longrightarrow> Q (dispatch_trade ap cls ops ev w)"
  unfolding dispatch_quote_def dispatch_trade_def dispatch_quote_impl_def dispatch_trade_impl_def
  by (auto simp: case_prod_beta Let_def
      intro!: dispatch_keeps maybe_append_keeps timestamped_keeps on_quote_keeps on_trade_keeps)

end

section \<open>What a step of the exchange does to the ledgers\<close>

abbreviation outstanding :: "nat \<Rightarrow> (nat, 'f) PendingOrder list \<Rightarrow> nat" where
  "outstanding i pos \<equiv> length (filter (\<lambda>po. po_response_callback po = Some i) pos)"

definition answered_to :: "nat \<Rightarrow> (nat, 'f) effect list \<Rightarrow> nat" where
  "answered_to i eff = length (filter (\<lambda>(cb, _). cb = i) (responses eff))"

lemma seen_to: "length (filter (\<lambda>(cb, _). cb = i) (seen as)) = length (filter (\<lambda>q. snd q = Some i) (map fst as))"
  by (induction as) (auto split: option.splits)

lemma accounts_answered:
  assumes "accounts os ns eff os'"
  shows "length (filter (\<lambda>q. snd q = Some i) os) + length (filter (\<lambda>q. snd q = Some i) ns)
    = answered_to i eff + length (filter (\<lambda>q. snd q = Some i) os')"
proof -
  from assms obtain as where as: "responses eff = seen as"
    "mset os + mset ns = mset (map fst as) + mset os'" unfolding accounts_def by blast
  from arg_cong [OF as(2), of "\<lambda>m. size (filter_mset (\<lambda>q. snd q = Some i) m)"]
  have "length (filter (\<lambda>q. snd q = Some i) os) + length (filter (\<lambda>q. snd q = Some i) ns)
      = length (filter (\<lambda>q. snd q = Some i) (map fst as)) + length (filter (\<lambda>q. snd q = Some i) os')"
    by (simp only: mset_filter [symmetric] filter_union_mset size_union size_mset)
  then show ?thesis by (simp only: answered_to_def as(1) seen_to)
qed

lemma accounts_subset: "accounts os ns eff os' \<Longrightarrow> set os' \<subseteq> set os \<union> set ns"
  unfolding accounts_def by (metis mset_subset_eq_add_right set_mset_mono set_mset_mset set_mset_union)

text \<open>A strategy seen from outside: what it trades, whether it has a sink, which class it is of.\<close>

fun maker :: "example \<Rightarrow> bool" where
  "maker (MarketMaker _) = True"
| "maker (Momentum _) = False"

type_synonym profile = "(string list \<times> bool \<times> bool) list"

definition profile_of :: "example strategy list \<Rightarrow> profile" where
  "profile_of ss = map (\<lambda>(b, u). (sb_tickers b, sb_execution_sink b, maker u)) ss"

definition wf_profile :: "profile \<Rightarrow> bool" where
  "wf_profile prof \<longleftrightarrow> list_all (\<lambda>(tks, _). tks \<noteq> [] \<and> list_all (wf_buffer 16) tks) prof"

definition traded :: "profile \<Rightarrow> string \<Rightarrow> bool" where
  "traded prof tk \<longleftrightarrow> wf_buffer 16 tk \<and> list_ex (\<lambda>(tks, _). tk \<in> set tks) prof"

lemma traded_wf: "traded prof tk \<Longrightarrow> wf_buffer 16 tk"
  by (simp add: traded_def)

lemma profile_update:
  assumes "i < length ss \<Longrightarrow> sb_tickers (fst (f (ss ! i))) = sb_tickers (fst (ss ! i))"
    and "i < length ss \<Longrightarrow> sb_execution_sink (fst (f (ss ! i))) = sb_execution_sink (fst (ss ! i))"
    and "i < length ss \<Longrightarrow> maker (snd (f (ss ! i))) = maker (snd (ss ! i))"
  shows "profile_of (update_strategy i f ss) = profile_of ss"
  using assms by (simp add: profile_of_def update_strategy_def map_update list_update_same_conv case_prod_beta)

lemma handle_order_response_facts [simp]:
  "sb_tickers (fst (handle_order_response cls r s)) = sb_tickers (fst s)"
  "sb_execution_sink (fst (handle_order_response cls r s)) = sb_execution_sink (fst s)"
  "sb_orders_submitted (fst (handle_order_response cls r s)) = sb_orders_submitted (fst s)"
  "sb_order_responses (fst (handle_order_response cls r s)) = sb_order_responses (fst s) + 1"
  "snd (handle_order_response example_class r s') = snd s'"
  by (simp_all add: handle_order_response_def Let_def case_prod_beta example_class_def)

lemma record_failure_facts [simp]:
  "sb_tickers (record_storage_append_failure b) = sb_tickers b"
  "sb_execution_sink (record_storage_append_failure b) = sb_execution_sink b"
  "sb_orders_submitted (record_storage_append_failure b) = sb_orders_submitted b"
  "sb_order_responses (record_storage_append_failure b) = sb_order_responses b"
  by (simp_all add: record_storage_append_failure_def)

lemma run_callback_facts:
  "profile_of (run_callback example_class e ss) = profile_of ss"
  "i < length ss \<Longrightarrow> sb_orders_submitted (fst (run_callback example_class e ss ! i)) = sb_orders_submitted (fst (ss ! i))"
  "i < length ss \<Longrightarrow> sb_order_responses (fst (run_callback example_class e ss ! i))
     = sb_order_responses (fst (ss ! i)) + of_nat (answered_to i [e])"
proof -
  show "profile_of (run_callback example_class e ss) = profile_of ss"
    by (cases e) (simp_all add: profile_update)
  assume "i < length ss"
  then show "sb_orders_submitted (fst (run_callback example_class e ss ! i)) = sb_orders_submitted (fst (ss ! i))"
    and "sb_order_responses (fst (run_callback example_class e ss ! i))
      = sb_order_responses (fst (ss ! i)) + of_nat (answered_to i [e])"
    by (cases e; simp add: update_strategy_def nth_list_update answered_to_def)+
qed

lemma profile_length: "profile_of ss = profile_of ss' \<Longrightarrow> length ss = length ss'"
  by (drule arg_cong [of _ _ length]) (simp add: profile_of_def)

lemma run_callbacks_facts:
  "profile_of (run_callbacks example_class eff ss) = profile_of ss"
  "i < length ss \<Longrightarrow>
     sb_orders_submitted (fst (run_callbacks example_class eff ss ! i)) = sb_orders_submitted (fst (ss ! i)) \<and>
     sb_order_responses (fst (run_callbacks example_class eff ss ! i))
       = sb_order_responses (fst (ss ! i)) + of_nat (answered_to i eff)"
proof -
  show "profile_of (run_callbacks example_class eff ss) = profile_of ss"
    unfolding run_callbacks_def by (induction eff arbitrary: ss) (simp_all add: run_callback_facts(1))
  show "sb_orders_submitted (fst (run_callbacks example_class eff ss ! i)) = sb_orders_submitted (fst (ss ! i)) \<and>
     sb_order_responses (fst (run_callbacks example_class eff ss ! i))
       = sb_order_responses (fst (ss ! i)) + of_nat (answered_to i eff)" if "i < length ss"
    using that
  proof (induction eff arbitrary: ss)
    case (Cons e eff)
    have len: "length (run_callback example_class e ss) = length ss"
      by (rule profile_length [OF run_callback_facts(1)])
    have "answered_to i (e # eff) = answered_to i [e] + answered_to i eff"
      by (cases e) (simp_all add: answered_to_def)
    then show ?case
      using Cons.IH [of "run_callback example_class e ss"] Cons.prems len
        run_callback_facts(2,3) [OF Cons.prems, of e]
      by (simp add: run_callbacks_def)
  qed (simp add: run_callbacks_def answered_to_def)
qed

section \<open>Sessions over the simulated exchange\<close>

text \<open>
  The statistics of the exchange add up, its resting orders are on instruments of the strategies,
  and each strategy has been answered for all its orders but those that rest.
\<close>

definition session_inv :: "profile \<Rightarrow> (example, 's) sim_world \<Rightarrow> bool" where
  "session_inv prof w \<longleftrightarrow>
     wf_profile prof \<and> profile_of (w_strategies w) = prof \<and> balanced (w_sink w) \<and>
     list_all (\<lambda>po. traded prof (t_ticker (po_trade po))) (resting (w_sink w)) \<and>
     (\<forall>i < length prof. sb_orders_submitted (fst (w_strategies w ! i)) =
        sb_order_responses (fst (w_strategies w ! i)) + of_nat (outstanding i (resting (w_sink w))))"

lemma sim_step_ledger:
  fixes sim :: "(nat, nat, 's) sim"
  assumes "sim_step ap x sim = (sim', eff)"
  shows "of_nat (outstanding i (resting sim)) + of_nat (length (filter (\<lambda>q. snd q = Some i) (submission x)))
      = (of_nat (answered_to i eff) + of_nat (outstanding i (resting sim')) :: u64)"
    and "balanced sim \<Longrightarrow> balanced sim'"
    and "list_all (\<lambda>po. legal (t_ticker (po_trade po))) (resting sim) \<Longrightarrow>
      list_all (\<lambda>(t, c). legal (t_ticker t)) (submission x) \<Longrightarrow>
      list_all (\<lambda>po. legal (t_ticker (po_trade po))) (resting sim')"
proof -
  have acc: "accounts (map po_order (resting sim)) (submission x) eff (map po_order (resting sim'))"
    using sim.step_accounts [of sim x ap] assms by simp
  have out: "length (filter (\<lambda>q. snd q = Some i) (map po_order pos)) = outstanding i pos" for pos :: "(nat, nat) PendingOrder list"
    by (induction pos) simp_all
  from accounts_answered [OF acc, of i]
  show "of_nat (outstanding i (resting sim)) + of_nat (length (filter (\<lambda>q. snd q = Some i) (submission x)))
      = (of_nat (answered_to i eff) + of_nat (outstanding i (resting sim')) :: u64)"
    unfolding out of_nat_add [symmetric] by (rule arg_cong)
  show "balanced sim'" if "balanced sim" using step_balanced [OF that, of ap x] assms by simp
  show "list_all (\<lambda>po. legal (t_ticker (po_trade po))) (resting sim')"
    if "list_all (\<lambda>po. legal (t_ticker (po_trade po))) (resting sim)"
      "list_all (\<lambda>(t, c). legal (t_ticker t)) (submission x)"
    unfolding list_all_iff
  proof
    fix po assume "po \<in> set (resting sim')"
    then have "po_order po \<in> po_order ` set (resting sim) \<union> set (submission x)"
      using accounts_subset [OF acc] by auto
    then show "legal (t_ticker (po_trade po))" using that by (auto simp: list_all_iff)
  qed
qed

text \<open>Quotes, market trades and cancels: the callbacks they invoke keep the ledgers.\<close>

lemma session_inv_input:
  assumes "session_inv prof w" and "sim_input_step ap x (w_sink w) = (sink, eff)"
  shows "session_inv prof (w\<lparr>w_sink := sink, w_strategies := run_callbacks example_class eff (w_strategies w)\<rparr>)"
proof -
  have step: "sim_step ap (Market x) (w_sink w) = (sink, eff)" using assms(2) by simp
  have len: "length (w_strategies w) = length prof" using assms(1) by (auto simp: session_inv_def profile_of_def)
  show ?thesis
    using assms(1) sim_step_ledger(1,2) [OF step] sim_step_ledger(3) [OF step, of "traded prof"] len
      run_callbacks_facts(1) [of eff "w_strategies w"] run_callbacks_facts(2) [of _ "w_strategies w" eff]
    by (auto simp: session_inv_def)
qed

lemma session_inv_submit:
  assumes "session_inv prof w" and "i < length prof" and "traded prof (t_ticker t)"
  shows "session_inv prof (snd (strat_submit_trade example_class (sim_ops ap) i t w))"
proof -
  obtain sink eff where sub: "sim_submit_trade ap t (Some i) (Some i) (w_sink w) = (True, sink, eff)"
    by (rule submit_cases [where ap = ap and t = t and c = "Some i" and f = "Some i" and sim = "w_sink w"])
      (auto intro: that)
  then have step: "sim_step ap (Submit t (Some i) (Some i)) (w_sink w) = (sink, eff)" by simp
  have len: "length (w_strategies w) = length prof" using assms(1) by (auto simp: session_inv_def profile_of_def)
  let ?ss = "run_callbacks example_class eff (w_strategies w)"
  let ?ss' = "update_strategy i (apfst (\<lambda>b. b\<lparr>sb_orders_submitted := sb_orders_submitted b + 1\<rparr>)) ?ss"
  have len': "length ?ss = length prof" using profile_length [OF run_callbacks_facts(1)] len by simp
  have prof: "profile_of ?ss' = profile_of (w_strategies w)"
    using run_callbacks_facts(1) [of eff "w_strategies w"] by (simp add: profile_update)
  have "sb_orders_submitted (fst (?ss' ! j)) =
      sb_order_responses (fst (?ss' ! j)) + of_nat (outstanding j (resting sink))" if "j < length prof" for j
    using assms(1) that sim_step_ledger(1) [OF step, of j] run_callbacks_facts(2) [of j "w_strategies w" eff] len len'
    by (auto simp: session_inv_def update_strategy_def nth_list_update algebra_simps)
  then show ?thesis
    using assms(1,3) sim_step_ledger(2) [OF step] sim_step_ledger(3) [OF step, of "traded prof"] prof
    by (simp add: session_inv_def strat_submit_trade_def sim_ops_def sub case_prod_beta Let_def)
qed

lemma session_inv_strategies:
  assumes "session_inv prof w" and "profile_of ss = profile_of (w_strategies w)"
    and "\<And>j. j < length prof \<Longrightarrow> ledger_fields (fst (ss ! j)) = ledger_fields (fst (w_strategies w ! j))"
  shows "session_inv prof (w\<lparr>w_strategies := ss\<rparr>)"
  using assms by (simp add: session_inv_def ledger_fields_def)

lemma session_inv_rt: "session_inv prof w \<Longrightarrow> session_inv prof (set_rt rt w)"
  by (simp add: session_inv_def set_rt_def balanced_def tally_def)

lemma world_update_swap: "w\<lparr>w_strategies := ss, w_sink := sink\<rparr> = w\<lparr>w_sink := sink, w_strategies := ss\<rparr>"
  by (cases w) simp

lemma session_inv_cancel:
  assumes "session_inv prof w"
  shows "session_inv prof (strat_cancel_order example_class (sim_ops ap) i tk oid cid w)"
    and "session_inv prof (strat_cancel_all_orders example_class (sim_ops ap) i tk w)"
proof -
  note input = session_inv_input [OF assms, of ap]
  obtain sink eff where c: "sim_cancel_order ap tk oid cid (w_sink w) = (sink, eff)" by (rule prod.exhaust)
  show "session_inv prof (strat_cancel_order example_class (sim_ops ap) i tk oid cid w)"
    using input [of "Cancel tk oid cid"] assms by (simp add: strat_cancel_order_def sim_ops_def c world_update_swap)
  obtain sink' eff' where c': "sim_cancel_all_orders ap tk (w_sink w) = (sink', eff')" by (rule prod.exhaust)
  show "session_inv prof (strat_cancel_all_orders example_class (sim_ops ap) i tk w)"
    using input [of "CancelAll tk"] assms by (simp add: strat_cancel_all_orders_def sim_ops_def c' world_update_swap)
qed

lemma profile_nth:
  "i < length ss \<Longrightarrow> profile_of ss ! i = (sb_tickers (fst (ss ! i)), sb_execution_sink (fst (ss ! i)), maker (snd (ss ! i)))"
  by (simp add: profile_of_def case_prod_beta)

lemma profile_tracked:
  assumes "wf_profile (profile_of ss)" and "i < length ss" and "tracks_ticker tk (fst (ss ! i))"
  shows "traded (profile_of ss) tk"
proof -
  note nth = profile_nth [OF assms(2)]
  have mem: "profile_of ss ! i \<in> set (profile_of ss)" using assms(2) by (simp add: profile_of_def)
  then have "sb_tickers (fst (ss ! i)) \<noteq> []" "list_all (wf_buffer 16) (sb_tickers (fst (ss ! i)))"
    using assms(1) nth by (auto simp: wf_profile_def list_all_iff)
  then have "tk \<in> set (sb_tickers (fst (ss ! i)))" "wf_buffer 16 tk"
    using assms(3) by (auto simp: tracks_ticker_def list_ex_iff list_all_iff)
  then show ?thesis using mem nth by (auto simp: traded_def list_ex_iff)
qed

lemma session_profile:
  assumes "session_inv prof w"
  shows "length (w_strategies w) = length prof" "wf_profile prof" "profile_of (w_strategies w) = prof"
  using assms by (auto simp: session_inv_def profile_of_def)

lemma example_class_facts:
  "cl_on_start example_class b u rt = (u, [], rt)"
  "fst (cl_on_stop example_class b u rt) = u"
  "a \<in> set (fst (snd (cl_on_stop example_class b u rt))) \<Longrightarrow> \<exists>tk. a = CancelAllOrders tk"
  "maker (fst (cl_on_quote example_class tk bid ask bs as b u rt)) = maker u"
  "a \<in> set (fst (snd (cl_on_quote example_class tk bid ask bs as b u rt))) \<Longrightarrow> action_ticker a = tk"
  "maker (fst (cl_on_trade example_class tk p sz buy b u rt)) = maker u"
  "a \<in> set (fst (snd (cl_on_trade example_class tk p sz buy b u rt))) \<Longrightarrow> action_ticker a = tk"
  by (cases u; auto simp: example_class_def market_maker_on_stop_def market_maker_on_quote_def momentum_on_trade_def
      case_prod_beta Let_def split: list.splits if_splits)+

interpretation session: world_invariant example_class "sim_ops ap" maker "traded prof" "length prof" "session_inv prof"
  for ap :: "'s append_fn" and prof
proof
  fix w :: "(example, 's) sim_world" and i
  assume inv: "session_inv prof w"
  note facts = session_profile [OF inv]
  show "length (w_strategies w) = length prof" by (rule facts)
  show "traded prof tk" if "i < length prof" "tracks_ticker tk (fst (w_strategies w ! i))" for tk
    using profile_tracked [of "w_strategies w" i tk] that facts by simp
  show "session_inv prof (w\<lparr>w_strategies := update_strategy i (\<lambda>(b, _). (b, u)) (w_strategies w)\<rparr>)"
    if "maker u = maker (snd (w_strategies w ! i))" for u
    by (rule session_inv_strategies [OF inv], rule profile_update)
      (use that in \<open>auto simp: update_strategy_def nth_list_update case_prod_beta\<close>)
  show "session_inv prof (update_base i f w)" if "\<And>b. ledger_fields (f b) = ledger_fields b" for f
    unfolding update_base_def
    by (rule session_inv_strategies [OF inv], rule profile_update)
      (use that in \<open>auto simp: update_strategy_def nth_list_update ledger_fields_def\<close>)
qed (auto simp: session_inv_submit session_inv_cancel session_inv_rt example_class_facts
    traded_wf dest: example_class_facts(3,5,7))

section \<open>Start, replay and stop\<close>

lemma sim_call_session:
  "session_inv prof w \<Longrightarrow> session_inv prof (sim_call example_class (sim_on_quote ap q) w)"
  "session_inv prof w \<Longrightarrow> session_inv prof (sim_call example_class (sim_on_trade ap ev) w)"
  using session_inv_input [of prof w ap "Quote q"] session_inv_input [of prof w ap "MarketPrint ev"]
  by (simp_all add: sim_call_def case_prod_beta)

lemma backtest_event_session:
  "backtest_event ap example_class e (st, w) = Inr (st', w') \<Longrightarrow> session_inv prof w \<Longrightarrow> session_inv prof w'"
  by (auto simp: backtest_event_def Let_def intro!: session.replay_keeps sim_call_session
      split: StorageEventType.splits StoragePayload.splits)

lemma fold_unless_error_Inl: "fold (unless_error f) es (Inl x) = Inl x"
  by (induction es) (simp_all add: unless_error_def)

lemma backtest_fold_session:
  "fold (unless_error (backtest_event ap example_class)) es (Inr (st, w)) = Inr (st', w') \<Longrightarrow>
   session_inv prof w \<Longrightarrow> session_inv prof w'"
proof (induction es arbitrary: st w)
  case (Cons e es)
  from Cons.prems(1) obtain st1 w1 where e: "backtest_event ap example_class e (st, w) = Inr (st1, w1)"
    by (cases "backtest_event ap example_class e (st, w)") (auto simp: unless_error_def [of _ e] fold_unless_error_Inl)
  with Cons.IH [of st1 w1] Cons.prems backtest_event_session [OF e] show ?case
    by (simp add: unless_error_def [of _ e])
qed simp

lemma profile_attached:
  "list_all (\<lambda>(_, sink, _). sink) (profile_of ss) \<Longrightarrow> i < length ss \<Longrightarrow> sb_execution_sink (fst (ss ! i))"
  using profile_nth [of i ss] by (auto simp: list_all_length profile_of_def)

lemma start_all_session:
  assumes "session_inv prof w" and "list_all (\<lambda>(_, sink, _). sink) prof"
  obtains w' where "start_all example_class (sim_ops ap) w = (None, w')" "session_inv prof w'"
proof (rule session.start_all_keeps [OF assms(1), of ap])
  show "sb_execution_sink (fst (w_strategies w ! i))" if "session_inv prof w" "i < length prof"
    for w :: "(example, 'a) sim_world" and i
    using profile_attached [of "w_strategies w" i] session_profile [OF that(1)] that(2) assms(2) by simp
qed (rule that)

text \<open>A market maker that stops cancels its resting orders; a momentum strategy leaves them.\<close>

lemma cancel_all_resting:
  "tk \<noteq> [] \<Longrightarrow>
   resting (fst (sim_cancel_all_orders ap tk sim)) = filter (\<lambda>po. t_ticker (po_trade po) \<noteq> tk) (resting sim)"
proof -
  assume "tk \<noteq> []"
  let ?sel = "\<lambda>po. \<not> (tk \<noteq> [] \<and> tk \<noteq> t_ticker (po_trade po))"
  obtain ds s' where sw: "sweep_resting ?sel cancel_response sim = (ds, s')" by (rule prod.exhaust)
  have "swept ?sel sim ds s'" by (rule sweep_resting_swept [OF _ _ _ _ _ sw]) simp_all
  then show ?thesis using sw \<open>tk \<noteq> []\<close> by (auto simp: sim_cancel_all_orders_def swept_def intro: filter_cong)
qed

lemma stop_resting:
  assumes "session_inv prof w" and "i < length prof" and "prof ! i = (tk # tks, True, mk)" and "tk \<noteq> []"
  shows "resting (w_sink (strategy_stop example_class (sim_ops ap) i w)) =
    (if mk then filter (\<lambda>po. t_ticker (po_trade po) \<noteq> tk) (resting (w_sink w)) else resting (w_sink w))"
proof -
  obtain b u where s: "w_strategies w ! i = (b, u)" by (rule prod.exhaust)
  have len: "i < length (w_strategies w)" using session.strategies [OF assms(1)] assms(2) by simp
  have b: "sb_tickers b = tk # tks" "sb_execution_sink b" "maker u = mk"
    using profile_nth [OF len] session_profile [OF assms(1)] assms(3) s by simp_all
  show ?thesis
    using b len s cancel_all_resting [OF assms(4), of ap]
    by (cases u) (simp_all add: strategy_stop_def call_virtual_def example_class_def market_maker_on_stop_def
        update_base_def update_strategy_def set_rt_def strat_cancel_all_orders_def sim_ops_def case_prod_beta Let_def)
qed

end
