(* ===== verification/Json.thy ===== *)
theory Json
  imports Double "HOL-Library.Countable"
begin

text \<open>
  The interface of \<open>nlohmann::json\<close>, the library with which the sources read and write JSON. It
  is not part of the repository, so a value of its operations, of type \<open>'j json_lib\<close>, is an
  argument of every definition that uses it. What its documentation promises and the code relies
  on is the predicate \<open>json_laws\<close>; \<open>reference_json\<close>, an implementation over a datatype of JSON
  values, satisfies it (\<open>reference_json_laws\<close>).
\<close>

section \<open>Operations\<close>

text \<open>The enumeration \<open>value_t\<close> that \<open>type()\<close> returns.\<close>

datatype value_t =
    VNull | VObject | VArray | VString | VBoolean | VInteger | VUnsigned | VFloat | VBinary

text \<open>
  Exceptions are \<open>None\<close>: of \<open>parse\<close> (called with \<open>allow_exceptions = false\<close>, it returns a
  discarded value), of \<open>dump\<close> (a string that is not UTF-8), of \<open>get\<close> (a type that does not
  convert) and of \<open>at\<close> (a missing key, or a value that is no object).
\<close>

record 'j json_lib =
  j_parse :: "string \<Rightarrow> 'j option"
  j_dump :: "'j \<Rightarrow> string option"
  j_type :: "'j \<Rightarrow> value_t"
  j_null :: 'j
  j_bool :: "bool \<Rightarrow> 'j"
  j_integer :: "i64 \<Rightarrow> 'j"
  j_unsigned :: "u64 \<Rightarrow> 'j"
  j_float :: "double \<Rightarrow> 'j"
  j_string :: "string \<Rightarrow> 'j"
  j_array :: "'j list \<Rightarrow> 'j"
  j_object :: "(string \<times> 'j) list \<Rightarrow> 'j"
  j_at :: "'j \<Rightarrow> string \<Rightarrow> 'j option"
  j_put :: "'j \<Rightarrow> string \<Rightarrow> 'j \<Rightarrow> 'j"
  j_keys :: "'j \<Rightarrow> string list"
  j_elements :: "'j \<Rightarrow> 'j list"
  j_get_string :: "'j \<Rightarrow> string option"
  j_get_bool :: "'j \<Rightarrow> bool option"
  j_get_double :: "'j \<Rightarrow> double option"
  j_get_u64 :: "'j \<Rightarrow> u64 option"
  j_get_u32 :: "'j \<Rightarrow> u32 option"
  j_get_u8 :: "'j \<Rightarrow> u8 option"
  j_get_i64 :: "'j \<Rightarrow> i64 option"
  j_get_i32 :: "'j \<Rightarrow> i32 option"

text \<open>The type queries, by their documentation; \<open>is_number_integer\<close> holds of unsigned numbers too.\<close>

definition is_unsigned :: "'j json_lib \<Rightarrow> 'j \<Rightarrow> bool" where
  "is_unsigned J v \<longleftrightarrow> j_type J v = VUnsigned"

definition is_integer :: "'j json_lib \<Rightarrow> 'j \<Rightarrow> bool" where
  "is_integer J v \<longleftrightarrow> j_type J v \<in> {VInteger, VUnsigned}"

definition is_number :: "'j json_lib \<Rightarrow> 'j \<Rightarrow> bool" where
  "is_number J v \<longleftrightarrow> j_type J v \<in> {VInteger, VUnsigned, VFloat}"

definition is_primitive :: "'j json_lib \<Rightarrow> 'j \<Rightarrow> bool" where
  "is_primitive J v \<longleftrightarrow> j_type J v \<notin> {VObject, VArray}"

text \<open>\<open>contains\<close>, and \<open>value(key, default)\<close> for a string default, which throws unless the value
  is an object and, when the key is there, unless its value is a string.\<close>

definition contains :: "'j json_lib \<Rightarrow> 'j \<Rightarrow> string \<Rightarrow> bool" where
  "contains J v k \<longleftrightarrow> j_at J v k \<noteq> None"

definition value_string :: "'j json_lib \<Rightarrow> 'j \<Rightarrow> string \<Rightarrow> string \<Rightarrow> string option" where
  "value_string J v k d =
     (if j_type J v \<noteq> VObject then None
      else case j_at J v k of None \<Rightarrow> Some d | Some x \<Rightarrow> j_get_string J x)"

lemmas json_defs = is_unsigned_def is_integer_def is_number_def is_primitive_def contains_def
  value_string_def

section \<open>Documented behaviour\<close>

definition ascii :: "string \<Rightarrow> bool" where
  "ascii s \<longleftrightarrow> list_all (\<lambda>c. (of_char c :: nat) < 128) s"

lemma ascii_simps [simp]: "ascii []" "ascii (c # s) \<longleftrightarrow> (of_char c :: nat) < 128 \<and> ascii s"
  by (simp_all add: ascii_def)

definition finite_double :: "double \<Rightarrow> bool" where
  "finite_double x \<longleftrightarrow> is_double x \<and> x \<notin> {NaN, PInf, NInf}"

definition i64_range :: "int \<Rightarrow> bool" where
  "i64_range i \<longleftrightarrow> - (2 ^ 63) \<le> i \<and> i < 2 ^ 63"

definition i32_range :: "int \<Rightarrow> bool" where
  "i32_range i \<longleftrightarrow> - (2 ^ 31) \<le> i \<and> i < 2 ^ 31"

definition json_type_laws :: "'j json_lib \<Rightarrow> bool" where
  "json_type_laws J \<longleftrightarrow>
     j_type J (j_null J) = VNull \<and>
     (\<forall>b. j_type J (j_bool J b) = VBoolean \<and> j_get_bool J (j_bool J b) = Some b) \<and>
     (\<forall>i. j_type J (j_integer J i) = VInteger) \<and>
     (\<forall>n. j_type J (j_unsigned J n) = VUnsigned) \<and>
     (\<forall>x. j_type J (j_float J x) = VFloat \<and> j_get_double J (j_float J x) = Some x) \<and>
     (\<forall>s. j_type J (j_string J s) = VString \<and> j_get_string J (j_string J s) = Some s) \<and>
     (\<forall>vs. j_type J (j_array J vs) = VArray \<and> j_elements J (j_array J vs) = vs) \<and>
     (\<forall>kvs. j_type J (j_object J kvs) = VObject)"

text \<open>\<open>get\<close> of a number converts it to the requested type the way \<open>static_cast\<close> does.\<close>

definition json_number_laws :: "'j json_lib \<Rightarrow> bool" where
  "json_number_laws J \<longleftrightarrow>
     (\<forall>n. j_get_u64 J (j_unsigned J n) = Some n) \<and>
     (\<forall>n. j_get_u32 J (j_unsigned J n) = Some (ucast n)) \<and>
     (\<forall>n. j_get_u8 J (j_unsigned J n) = Some (ucast n)) \<and>
     (\<forall>n. j_get_i64 J (j_unsigned J n) = Some (sint n)) \<and>
     (\<forall>n. j_get_i32 J (j_unsigned J n) = Some (signed_take_bit 31 (uint n))) \<and>
     (\<forall>i. j_get_u64 J (j_integer J i) = Some (of_int i)) \<and>
     (\<forall>i. j_get_i64 J (j_integer J i) = Some i) \<and>
     (\<forall>i. j_get_i32 J (j_integer J i) = Some (signed_take_bit 31 i))"

definition json_object_laws :: "'j json_lib \<Rightarrow> bool" where
  "json_object_laws J \<longleftrightarrow>
     (\<forall>kvs k. distinct (map fst kvs) \<longrightarrow> j_at J (j_object J kvs) k = map_of kvs k) \<and>
     (\<forall>v k x. j_type J v = VObject \<longrightarrow> j_type J (j_put J v k x) = VObject) \<and>
     (\<forall>v k x k'. j_type J v = VObject \<longrightarrow>
        j_at J (j_put J v k x) k' = (if k' = k then Some x else j_at J v k')) \<and>
     (\<forall>kvs k x. distinct (map fst kvs) \<and> k \<notin> set (map fst kvs) \<longrightarrow>
        j_put J (j_object J kvs) k x = j_object J (kvs @ [(k, x)])) \<and>
     (\<forall>v k. j_type J v \<noteq> VObject \<longrightarrow> j_at J v k = None) \<and>
     (\<forall>v. distinct (j_keys J v) \<and> (\<forall>k. k \<in> set (j_keys J v) \<longleftrightarrow> j_at J v k \<noteq> None))"

text \<open>
  Writing a value and reading it back. A number without a sign is read as an unsigned one,
  whatever it was written from; a double is written with enough digits to be read back exactly,
  but the infinities and NaN have no JSON text (they are written as \<open>null\<close>). The default
  \<open>dump()\<close> writes no line breaks.
\<close>

definition reparse :: "'j json_lib \<Rightarrow> 'j \<Rightarrow> 'j option" where
  "reparse J v = (case j_dump J v of None \<Rightarrow> None | Some s \<Rightarrow> j_parse J s)"

definition json_text_laws :: "'j json_lib \<Rightarrow> bool" where
  "json_text_laws J \<longleftrightarrow>
     (\<forall>v s. j_dump J v = Some s \<longrightarrow> CHR 0x0A \<notin> set s \<and> s \<noteq> []) \<and>
     (\<forall>b. reparse J (j_bool J b) = Some (j_bool J b)) \<and>
     (\<forall>n. reparse J (j_unsigned J n) = Some (j_unsigned J n)) \<and>
     (\<forall>i. i64_range i \<longrightarrow>
        reparse J (j_integer J i) = Some (if i < 0 then j_integer J i else j_unsigned J (of_int i))) \<and>
     (\<forall>x. finite_double x \<longrightarrow> reparse J (j_float J x) = Some (j_float J x)) \<and>
     (\<forall>s. ascii s \<longrightarrow> reparse J (j_string J s) = Some (j_string J s)) \<and>
     (\<forall>vs. list_all (\<lambda>v. reparse J v \<noteq> None) vs \<longrightarrow>
        reparse J (j_array J vs) = Some (j_array J (map (\<lambda>v. the (reparse J v)) vs))) \<and>
     (\<forall>kvs. distinct (map fst kvs) \<and> list_all (\<lambda>(k, v). ascii k \<and> reparse J v \<noteq> None) kvs \<longrightarrow>
        reparse J (j_object J kvs) = Some (j_object J (map (\<lambda>(k, v). (k, the (reparse J v))) kvs)))"

definition json_laws :: "'j json_lib \<Rightarrow> bool" where
  "json_laws J \<longleftrightarrow>
     json_type_laws J \<and> json_number_laws J \<and> json_object_laws J \<and> json_text_laws J"

lemma json_types:
  assumes "json_laws J"
  shows "j_type J (j_null J) = VNull" "j_type J (j_bool J b) = VBoolean" "j_get_bool J (j_bool J b) = Some b"
    "j_type J (j_integer J i) = VInteger" "j_type J (j_unsigned J n) = VUnsigned"
    "j_type J (j_float J x) = VFloat" "j_get_double J (j_float J x) = Some x"
    "j_type J (j_string J s) = VString" "j_get_string J (j_string J s) = Some s"
    "j_type J (j_array J vs) = VArray" "j_elements J (j_array J vs) = vs" "j_type J (j_object J kvs) = VObject"
  using assms by (simp_all add: json_laws_def json_type_laws_def)

lemma json_numbers:
  assumes "json_laws J"
  shows "j_get_u64 J (j_unsigned J n) = Some n" "j_get_u32 J (j_unsigned J n) = Some (ucast n)"
    "j_get_u8 J (j_unsigned J n) = Some (ucast n)" "j_get_i64 J (j_unsigned J n) = Some (sint n)"
    "j_get_i32 J (j_unsigned J n) = Some (signed_take_bit 31 (uint n))"
    "j_get_u64 J (j_integer J i) = Some (of_int i)" "j_get_i64 J (j_integer J i) = Some i"
    "j_get_i32 J (j_integer J i) = Some (signed_take_bit 31 i)"
  using assms by (simp_all add: json_laws_def json_number_laws_def)

lemma json_objects:
  assumes "json_laws J"
  shows "distinct (map fst kvs) \<Longrightarrow> j_at J (j_object J kvs) k = map_of kvs k"
    "j_type J v = VObject \<Longrightarrow> j_type J (j_put J v k x) = VObject"
    "j_type J v = VObject \<Longrightarrow> j_at J (j_put J v k x) k' = (if k' = k then Some x else j_at J v k')"
    "distinct (map fst kvs) \<Longrightarrow> k \<notin> set (map fst kvs) \<Longrightarrow>
       j_put J (j_object J kvs) k x = j_object J (kvs @ [(k, x)])"
    "j_type J v \<noteq> VObject \<Longrightarrow> j_at J v k = None"
    "distinct (j_keys J v)" "k \<in> set (j_keys J v) \<longleftrightarrow> j_at J v k \<noteq> None"
  using assms by (simp_all add: json_laws_def json_object_laws_def)

lemma json_texts:
  assumes "json_laws J"
  shows "j_dump J v = Some t \<Longrightarrow> CHR 0x0A \<notin> set t" "j_dump J v = Some t \<Longrightarrow> t \<noteq> []"
    "reparse J (j_bool J b) = Some (j_bool J b)"
    "reparse J (j_unsigned J n) = Some (j_unsigned J n)"
    "i64_range i \<Longrightarrow> reparse J (j_integer J i) = Some (if i < 0 then j_integer J i else j_unsigned J (of_int i))"
    "finite_double x \<Longrightarrow> reparse J (j_float J x) = Some (j_float J x)"
    "ascii s \<Longrightarrow> reparse J (j_string J s) = Some (j_string J s)"
    "list_all (\<lambda>v. reparse J v \<noteq> None) vs \<Longrightarrow>
       reparse J (j_array J vs) = Some (j_array J (map (\<lambda>v. the (reparse J v)) vs))"
    "distinct (map fst kvs) \<Longrightarrow> list_all (\<lambda>(k, v). ascii k \<and> reparse J v \<noteq> None) kvs \<Longrightarrow>
       reparse J (j_object J kvs) = Some (j_object J (map (\<lambda>(k, v). (k, the (reparse J v))) kvs))"
  using assms by (simp_all add: json_laws_def json_text_laws_def)

text \<open>Values that are read back as they were written.\<close>

lemma reparse_array_stable:
  assumes "json_laws J" and "list_all (\<lambda>v. reparse J v = Some v) vs"
  shows "reparse J (j_array J vs) = Some (j_array J vs)"
proof -
  have "map (\<lambda>v. the (reparse J v)) vs = vs" using assms(2) by (induction vs) simp_all
  moreover have "list_all (\<lambda>v. reparse J v \<noteq> None) vs" using assms(2) by (auto simp: list_all_iff)
  ultimately show ?thesis using json_texts(8) [OF assms(1)] by simp
qed

lemma reparse_object_stable:
  assumes "json_laws J" and "distinct (map fst kvs)" and "list_all (\<lambda>(k, v). ascii k \<and> reparse J v = Some v) kvs"
  shows "reparse J (j_object J kvs) = Some (j_object J kvs)"
proof -
  have "map (\<lambda>(k, v). (k, the (reparse J v))) kvs = kvs" using assms(3) by (induction kvs) auto
  moreover have "list_all (\<lambda>(k, v). ascii k \<and> reparse J v \<noteq> None) kvs" using assms(3) by (auto simp: list_all_iff)
  ultimately show ?thesis using json_texts(9) [OF assms(1,2)] by simp
qed

text \<open>What an \<open>int64_t\<close> and an \<open>int32_t\<close> are read as after the round trip through text.\<close>

abbreviation read_int :: "'j json_lib \<Rightarrow> int \<Rightarrow> 'j" where
  "read_int J i \<equiv> (if i < 0 then j_integer J i else j_unsigned J (of_int i))"

lemma read_int_i64: "json_laws J \<Longrightarrow> i64_range i \<Longrightarrow> j_get_i64 J (read_int J i) = Some i"
  by (auto simp: json_numbers i64_range_def signed_take_bit_int_eq_self signed_of_int)

lemma read_int_i32:
  assumes "json_laws J" "i32_range i"
  shows "j_get_i32 J (read_int J i) = Some i"
proof -
  have "signed_take_bit 31 i = i"
    using assms(2) by (auto simp: i32_range_def signed_take_bit_int_eq_self)
  moreover have "uint (of_int i :: u64) = i" if "0 \<le> i"
    using that assms(2) by (simp add: i32_range_def uint_word_of_int_eq take_bit_int_eq_self)
  ultimately show ?thesis using assms by (auto simp: json_numbers)
qed

lemma i32_i64_range: "i32_range i \<Longrightarrow> i64_range i"
  by (simp add: i32_range_def i64_range_def)

section \<open>The laws can hold\<close>

datatype jval =
    JNull
  | JBool bool
  | JInt int
  | JUInt u64
  | JFloat double
  | JStr string
  | JArr "jval list"
  | JObj "(string \<times> jval) list"

instance double :: countable
  by countable_datatype

instance jval :: countable
  by countable_datatype

text \<open>Reading a number without a sign gives an unsigned one.\<close>

fun as_read :: "jval \<Rightarrow> jval" where
  "as_read (JInt i) = (if i < 0 then JInt i else JUInt (of_int i))"
| "as_read (JArr vs) = JArr (map as_read vs)"
| "as_read (JObj kvs) = JObj (map (\<lambda>(k, v). (k, as_read v)) kvs)"
| "as_read v = v"

fun jval_type :: "jval \<Rightarrow> value_t" where
  "jval_type JNull = VNull"
| "jval_type (JBool _) = VBoolean"
| "jval_type (JInt _) = VInteger"
| "jval_type (JUInt _) = VUnsigned"
| "jval_type (JFloat _) = VFloat"
| "jval_type (JStr _) = VString"
| "jval_type (JArr _) = VArray"
| "jval_type (JObj _) = VObject"

fun jval_at :: "jval \<Rightarrow> string \<Rightarrow> jval option" where
  "jval_at (JObj kvs) k = map_of kvs k"
| "jval_at _ _ = None"

fun jval_put :: "jval \<Rightarrow> string \<Rightarrow> jval \<Rightarrow> jval" where
  "jval_put (JObj kvs) k x = JObj (filter (\<lambda>p. fst p \<noteq> k) kvs @ [(k, x)])"
| "jval_put _ k x = JObj [(k, x)]"

fun jval_keys :: "jval \<Rightarrow> string list" where
  "jval_keys (JObj kvs) = remdups (map fst kvs)"
| "jval_keys _ = []"

fun jval_elements :: "jval \<Rightarrow> jval list" where
  "jval_elements (JArr vs) = vs"
| "jval_elements (JObj kvs) = map snd kvs"
| "jval_elements _ = []"

fun jval_string :: "jval \<Rightarrow> string option" where
  "jval_string (JStr s) = Some s"
| "jval_string _ = None"

fun jval_bool :: "jval \<Rightarrow> bool option" where
  "jval_bool (JBool b) = Some b"
| "jval_bool _ = None"

fun jval_double :: "jval \<Rightarrow> double option" where
  "jval_double (JFloat x) = Some x"
| "jval_double (JUInt n) = Some (round64 (of_int (uint n)))"
| "jval_double (JInt i) = Some (round64 (of_int i))"
| "jval_double _ = None"

fun jval_u64 :: "jval \<Rightarrow> u64 option" where
  "jval_u64 (JUInt n) = Some n"
| "jval_u64 (JInt i) = Some (of_int i)"
| "jval_u64 (JFloat (Fin x)) = Some (of_int \<lfloor>x\<rfloor>)"
| "jval_u64 _ = None"

fun jval_i64 :: "jval \<Rightarrow> i64 option" where
  "jval_i64 (JUInt n) = Some (sint n)"
| "jval_i64 (JInt i) = Some i"
| "jval_i64 (JFloat (Fin x)) = Some \<lfloor>x\<rfloor>"
| "jval_i64 _ = None"

text \<open>The text of a value is any injective code of it without line breaks.\<close>

definition reference_json :: "jval json_lib" where
  "reference_json =
     \<lparr>j_parse = (\<lambda>s. if set s \<noteq> {CHR ''.''} then None else Some (as_read (from_nat (length s - 1)))),
      j_dump = (\<lambda>v. Some (replicate (Suc (to_nat v)) CHR ''.'')),
      j_type = jval_type, j_null = JNull, j_bool = JBool, j_integer = JInt, j_unsigned = JUInt,
      j_float = JFloat, j_string = JStr, j_array = JArr, j_object = JObj, j_at = jval_at,
      j_put = jval_put, j_keys = jval_keys, j_elements = jval_elements,
      j_get_string = jval_string, j_get_bool = jval_bool, j_get_double = jval_double,
      j_get_u64 = jval_u64, j_get_u32 = (\<lambda>v. map_option ucast (jval_u64 v)),
      j_get_u8 = (\<lambda>v. map_option ucast (jval_u64 v)), j_get_i64 = jval_i64,
      j_get_i32 = (\<lambda>v. case v of JUInt n \<Rightarrow> Some (signed_take_bit 31 (uint n))
                              | _ \<Rightarrow> map_option (signed_take_bit 31) (jval_i64 v))\<rparr>"

lemma reference_json_reparse: "reparse reference_json v = Some (as_read v)"
  by (simp add: reparse_def reference_json_def del: replicate.simps)

lemma map_of_put:
  "map_of (filter (\<lambda>p. fst p \<noteq> k) kvs @ [(k, x)]) k' = (if k' = k then Some x else map_of kvs k')"
  by (induction kvs) auto

lemma reference_json_laws: "json_laws reference_json"
proof -
  have put: "jval_at (jval_put v k x) k' = (if k' = k then Some x else jval_at v k')"
    "jval_type (jval_put v k x) = VObject" if "jval_type v = VObject" for v k x k'
    using that by (cases v; simp add: map_of_put del: map_of_append)+
  have fresh: "jval_put (JObj kvs) k x = JObj (kvs @ [(k, x)])" if "k \<notin> set (map fst kvs)" for kvs k x
    using that by (auto simp: filter_id_conv)
  have other: "jval_at v k = None" if "jval_type v \<noteq> VObject" for v k using that by (cases v) simp_all
  have keys: "distinct (jval_keys v) \<and> (\<forall>k. k \<in> set (jval_keys v) \<longleftrightarrow> jval_at v k \<noteq> None)" for v
    by (cases v) (auto simp: map_of_eq_None_iff image_iff dest: map_of_SomeD)
  have "json_type_laws reference_json" "json_number_laws reference_json"
    by (simp_all add: json_type_laws_def json_number_laws_def reference_json_def)
  moreover have "json_object_laws reference_json"
    using put fresh other keys by (simp add: json_object_laws_def reference_json_def)
  moreover have "json_text_laws reference_json"
    by (simp add: json_text_laws_def reference_json_reparse) (simp add: reference_json_def)
  ultimately show ?thesis by (simp add: json_laws_def)
qed

text \<open>The reference implementation of JSON with a short text for the value \<open>r\<close>.\<close>

definition short_json :: "jval \<Rightarrow> jval json_lib" where
  "short_json r = reference_json
     \<lparr>j_parse := (\<lambda>s. if s = ''r'' then Some (as_read r) else j_parse reference_json s),
      j_dump := (\<lambda>v. if v = r then Some ''r'' else j_dump reference_json v)\<rparr>"

lemma short_json_laws: "json_laws (short_json r)"
proof -
  have dump: "j_dump reference_json v \<noteq> Some ''r''" for v
    by (simp add: reference_json_def)
  have "reparse (short_json r) v = Some (as_read v)" for v
    using reference_json_reparse [of v] dump [of v]
    by (auto simp: reparse_def short_json_def split: option.splits)
  moreover have "json_text_laws reference_json" using reference_json_laws by (simp add: json_laws_def)
  moreover have "reparse reference_json v = Some (as_read v)" for v by (rule reference_json_reparse)
  ultimately have "json_text_laws (short_json r)"
    by (auto simp: json_text_laws_def) (auto simp: short_json_def split: if_splits)
  then show ?thesis
    using reference_json_laws
    by (simp add: json_laws_def json_type_laws_def json_number_laws_def json_object_laws_def short_json_def)
qed

end
