(* ===== verification/Jsonl_Codec.thy ===== *)
theory Jsonl_Codec
  imports Storage Json "HOL-Library.Monad_Syntax"
begin

text \<open>
  The first half of \<open>src/storage/jsonl_async_storage.cpp\<close>: the JSON form of the stored events.
  The JSON library is the argument \<open>J\<close>; an exception inside a \<open>..._from_json\<close> function is the
  result \<open>None\<close>, like a returned \<open>false\<close>. \<open>event_roundtrip\<close> is the correctness of the codec:
  an event whose strings are ASCII and whose numbers are finite is read back from its text.
\<close>

section \<open>Enumerations as strings\<close>

definition kSchemaVersion :: i32 where
  "kSchemaVersion = 1"

definition side_to_string :: "OrderSide \<Rightarrow> string" where
  "side_to_string side = (if side = BUY then ''BUY'' else ''SELL'')"

definition side_from_string :: "string \<Rightarrow> OrderSide option" where
  "side_from_string s = (if s = ''BUY'' then Some BUY else if s = ''SELL'' then Some SELL else None)"

fun order_type_to_string :: "OrderType \<Rightarrow> string" where
  "order_type_to_string LIMIT = ''LIMIT''"
| "order_type_to_string MARKET = ''MARKET''"
| "order_type_to_string STOP_LOSS = ''STOP_LOSS''"
| "order_type_to_string STOP_LIMIT = ''STOP_LIMIT''"
| "order_type_to_string TAKE_PROFIT = ''TAKE_PROFIT''"
| "order_type_to_string TAKE_PROFIT_LIMIT = ''TAKE_PROFIT_LIMIT''"

definition order_type_from_string :: "string \<Rightarrow> OrderType option" where
  "order_type_from_string s =
     (if s = ''LIMIT'' then Some LIMIT
      else if s = ''MARKET'' then Some MARKET
      else if s = ''STOP_LOSS'' then Some STOP_LOSS
      else if s = ''STOP_LIMIT'' then Some STOP_LIMIT
      else if s = ''TAKE_PROFIT'' then Some TAKE_PROFIT
      else if s = ''TAKE_PROFIT_LIMIT'' then Some TAKE_PROFIT_LIMIT
      else None)"

fun tif_to_string :: "TimeInForce \<Rightarrow> string" where
  "tif_to_string GTC = ''GTC''"
| "tif_to_string IOC = ''IOC''"
| "tif_to_string FOK = ''FOK''"
| "tif_to_string GTD = ''GTD''"

definition tif_from_string :: "string \<Rightarrow> TimeInForce option" where
  "tif_from_string s =
     (if s = ''GTC'' then Some GTC
      else if s = ''IOC'' then Some IOC
      else if s = ''FOK'' then Some FOK
      else if s = ''GTD'' then Some GTD
      else None)"

definition exec_type_to_string :: "ExecType \<Rightarrow> string" where
  "exec_type_to_string type = (if type = POST_ONLY then ''POST_ONLY'' else ''DEFAULT'')"

definition exec_type_from_string :: "string \<Rightarrow> ExecType option" where
  "exec_type_from_string s =
     (if s = ''POST_ONLY'' then Some POST_ONLY else if s = ''DEFAULT'' then Some DEFAULT else None)"

fun status_to_string :: "OrderStatus \<Rightarrow> string" where
  "status_to_string NEW = ''NEW''"
| "status_to_string FILLED = ''FILLED''"
| "status_to_string PARTIALLY_FILLED = ''PARTIALLY_FILLED''"
| "status_to_string CANCELED = ''CANCELED''"
| "status_to_string REJECTED = ''REJECTED''"
| "status_to_string EXPIRED = ''EXPIRED''"

definition status_from_string :: "string \<Rightarrow> OrderStatus option" where
  "status_from_string s =
     (if s = ''NEW'' then Some NEW
      else if s = ''FILLED'' then Some FILLED
      else if s = ''PARTIALLY_FILLED'' then Some PARTIALLY_FILLED
      else if s = ''CANCELED'' \<or> s = ''CANCELLED'' then Some CANCELED
      else if s = ''REJECTED'' then Some REJECTED
      else if s = ''EXPIRED'' then Some EXPIRED
      else None)"

lemma enum_roundtrips [simp]:
  "side_from_string (side_to_string side) = Some side"
  "order_type_from_string (order_type_to_string type) = Some type"
  "tif_from_string (tif_to_string tif) = Some tif"
  "exec_type_from_string (exec_type_to_string exec) = Some exec"
  "status_from_string (status_to_string status) = Some status"
  "storage_event_type_from_string (event_type_to_string et) = Some et"
proof -
  show "side_from_string (side_to_string side) = Some side"
    by (cases side) (simp_all add: side_from_string_def side_to_string_def)
  show "order_type_from_string (order_type_to_string type) = Some type"
    by (cases type) (simp_all add: order_type_from_string_def)
  show "tif_from_string (tif_to_string tif) = Some tif"
    by (cases tif) (simp_all add: tif_from_string_def)
  show "exec_type_from_string (exec_type_to_string exec) = Some exec"
    by (cases exec) (simp_all add: exec_type_from_string_def exec_type_to_string_def)
  show "status_from_string (status_to_string status) = Some status"
    by (cases status) (simp_all add: status_from_string_def)
  show "storage_event_type_from_string (event_type_to_string et) = Some et"
    by (cases et) (simp_all add: storage_event_type_from_string_def)
qed

section \<open>Reading a member\<close>

text \<open>\<open>j.at(key).get<T>()\<close>\<close>

definition at_string :: "'j json_lib \<Rightarrow> 'j \<Rightarrow> string \<Rightarrow> string option" where
  "at_string J j k = (j_at J j k \<bind> j_get_string J)"

definition at_bool :: "'j json_lib \<Rightarrow> 'j \<Rightarrow> string \<Rightarrow> bool option" where
  "at_bool J j k = (j_at J j k \<bind> j_get_bool J)"

definition at_double :: "'j json_lib \<Rightarrow> 'j \<Rightarrow> string \<Rightarrow> double option" where
  "at_double J j k = (j_at J j k \<bind> j_get_double J)"

definition at_u64 :: "'j json_lib \<Rightarrow> 'j \<Rightarrow> string \<Rightarrow> u64 option" where
  "at_u64 J j k = (j_at J j k \<bind> j_get_u64 J)"

definition at_i64 :: "'j json_lib \<Rightarrow> 'j \<Rightarrow> string \<Rightarrow> i64 option" where
  "at_i64 J j k = (j_at J j k \<bind> j_get_i64 J)"

lemmas at_defs = at_string_def at_bool_def at_double_def at_u64_def at_i64_def

section \<open>The four payloads\<close>

definition trade_to_json :: "'j json_lib \<Rightarrow> Trade \<Rightarrow> 'j" where
  "trade_to_json J t = j_object J
     [(''client_order_id'', j_unsigned J (t_client_order_id t)),
      (''strategy_id'', j_unsigned J (ucast (t_strategy_id t))),
      (''ticker'', j_string J (t_ticker t)),
      (''side'', j_string J (side_to_string (t_side t))),
      (''type'', j_string J (order_type_to_string (t_type t))),
      (''time_in_force'', j_string J (tif_to_string (t_time_in_force t))),
      (''exec_type'', j_string J (exec_type_to_string (t_exec_type t))),
      (''quantity'', j_float J (t_quantity t)),
      (''price'', j_float J (t_price t)),
      (''trigger_price'', j_float J (t_trigger_price t)),
      (''timestamp_ns'', j_integer J (t_timestamp_ns t)),
      (''priority'', j_unsigned J (ucast (t_priority t)))]"

definition trade_from_json :: "'j json_lib \<Rightarrow> 'j \<Rightarrow> Trade option" where
  "trade_from_json J j = do {
     side \<leftarrow> at_string J j ''side'';
     type \<leftarrow> at_string J j ''type'';
     tif \<leftarrow> at_string J j ''time_in_force'';
     exec \<leftarrow> at_string J j ''exec_type'';
     side \<leftarrow> side_from_string side;
     type \<leftarrow> order_type_from_string type;
     tif \<leftarrow> tif_from_string tif;
     exec \<leftarrow> exec_type_from_string exec;
     client_order_id \<leftarrow> at_u64 J j ''client_order_id'';
     strategy_id \<leftarrow> j_at J j ''strategy_id'' \<bind> j_get_u32 J;
     ticker \<leftarrow> at_string J j ''ticker'';
     quantity \<leftarrow> at_double J j ''quantity'';
     price \<leftarrow> at_double J j ''price'';
     trigger_price \<leftarrow> at_double J j ''trigger_price'';
     timestamp_ns \<leftarrow> at_i64 J j ''timestamp_ns'';
     priority \<leftarrow> j_at J j ''priority'' \<bind> j_get_u8 J;
     Some \<lparr>t_client_order_id = client_order_id, t_strategy_id = strategy_id,
           t_ticker = copy_string 16 ticker, t_side = side, t_type = type, t_time_in_force = tif,
           t_exec_type = exec, t_quantity = quantity, t_price = price,
           t_trigger_price = trigger_price, t_timestamp_ns = timestamp_ns, t_priority = priority\<rparr>
   }"

definition response_to_json :: "'j json_lib \<Rightarrow> OrderResponse \<Rightarrow> 'j" where
  "response_to_json J r = j_object J
     [(''client_order_id'', j_unsigned J (r_client_order_id r)),
      (''exchange_order_id'', j_unsigned J (r_exchange_order_id r)),
      (''status'', j_string J (status_to_string (r_status r))),
      (''filled_quantity'', j_float J (r_filled_quantity r)),
      (''remaining_quantity'', j_float J (r_remaining_quantity r)),
      (''avg_price'', j_float J (r_avg_price r)),
      (''fee'', j_float J (r_fee r)),
      (''fee_currency'', j_string J (r_fee_currency r)),
      (''exchange_timestamp_ns'', j_integer J (r_exchange_timestamp_ns r)),
      (''error_code'', j_integer J (r_error_code r)),
      (''error_message'', j_string J (r_error_message r))]"

definition response_from_json :: "'j json_lib \<Rightarrow> 'j \<Rightarrow> OrderResponse option" where
  "response_from_json J j = do {
     status \<leftarrow> at_string J j ''status'';
     status \<leftarrow> status_from_string status;
     client_order_id \<leftarrow> at_u64 J j ''client_order_id'';
     exchange_order_id \<leftarrow> at_u64 J j ''exchange_order_id'';
     filled_quantity \<leftarrow> at_double J j ''filled_quantity'';
     remaining_quantity \<leftarrow> at_double J j ''remaining_quantity'';
     avg_price \<leftarrow> at_double J j ''avg_price'';
     fee \<leftarrow> at_double J j ''fee'';
     fee_currency \<leftarrow> at_string J j ''fee_currency'';
     exchange_timestamp_ns \<leftarrow> at_i64 J j ''exchange_timestamp_ns'';
     error_code \<leftarrow> j_at J j ''error_code'' \<bind> j_get_i32 J;
     error_message \<leftarrow> at_string J j ''error_message'';
     Some \<lparr>r_client_order_id = client_order_id, r_exchange_order_id = exchange_order_id,
           r_status = status, r_filled_quantity = filled_quantity,
           r_remaining_quantity = remaining_quantity, r_avg_price = avg_price, r_fee = fee,
           r_fee_currency = copy_string 8 fee_currency,
           r_exchange_timestamp_ns = exchange_timestamp_ns, r_error_code = error_code,
           r_error_message = copy_string 128 error_message\<rparr>
   }"

definition trade_event_to_json :: "'j json_lib \<Rightarrow> TradeEvent \<Rightarrow> 'j" where
  "trade_event_to_json J e = j_object J
     [(''ticker'', j_string J (e_ticker e)),
      (''price'', j_float J (e_price e)),
      (''quantity'', j_float J (e_quantity e)),
      (''is_buyer_maker'', j_bool J (e_is_buyer_maker e)),
      (''timestamp_ns'', j_integer J (e_timestamp_ns e)),
      (''trade_id'', j_unsigned J (e_trade_id e))]"

definition trade_event_from_json :: "'j json_lib \<Rightarrow> 'j \<Rightarrow> TradeEvent option" where
  "trade_event_from_json J j = do {
     ticker \<leftarrow> at_string J j ''ticker'';
     price \<leftarrow> at_double J j ''price'';
     quantity \<leftarrow> at_double J j ''quantity'';
     is_buyer_maker \<leftarrow> at_bool J j ''is_buyer_maker'';
     timestamp_ns \<leftarrow> at_i64 J j ''timestamp_ns'';
     trade_id \<leftarrow> at_u64 J j ''trade_id'';
     Some \<lparr>e_ticker = copy_string 16 ticker, e_price = price, e_quantity = quantity,
           e_is_buyer_maker = is_buyer_maker, e_timestamp_ns = timestamp_ns, e_trade_id = trade_id\<rparr>
   }"

definition quote_to_json :: "'j json_lib \<Rightarrow> QuoteUpdate \<Rightarrow> 'j" where
  "quote_to_json J q = j_object J
     [(''ticker'', j_string J (q_ticker q)),
      (''bid_price'', j_float J (q_bid_price q)),
      (''bid_size'', j_float J (q_bid_size q)),
      (''ask_price'', j_float J (q_ask_price q)),
      (''ask_size'', j_float J (q_ask_size q)),
      (''timestamp_ns'', j_integer J (q_timestamp_ns q))]"

definition quote_from_json :: "'j json_lib \<Rightarrow> 'j \<Rightarrow> QuoteUpdate option" where
  "quote_from_json J j = do {
     ticker \<leftarrow> at_string J j ''ticker'';
     bid_price \<leftarrow> at_double J j ''bid_price'';
     bid_size \<leftarrow> at_double J j ''bid_size'';
     ask_price \<leftarrow> at_double J j ''ask_price'';
     ask_size \<leftarrow> at_double J j ''ask_size'';
     timestamp_ns \<leftarrow> at_i64 J j ''timestamp_ns'';
     Some \<lparr>q_ticker = copy_string 16 ticker, q_bid_price = bid_price, q_bid_size = bid_size,
           q_ask_price = ask_price, q_ask_size = ask_size, q_timestamp_ns = timestamp_ns\<rparr>
   }"

section \<open>Events\<close>

text \<open>\<open>std::get\<close> on the wrong alternative throws: \<open>None\<close>.\<close>

definition payload_to_json :: "'j json_lib \<Rightarrow> StorageEvent \<Rightarrow> 'j option" where
  "payload_to_json J e =
     (case se_type e of
        TradeSubmitted \<Rightarrow> (case se_payload e of PTrade t \<Rightarrow> Some (trade_to_json J t) | _ \<Rightarrow> None)
      | OrderResponseEvent \<Rightarrow> (case se_payload e of PResponse r \<Rightarrow> Some (response_to_json J r) | _ \<Rightarrow> None)
      | MarketTrade \<Rightarrow> (case se_payload e of PMarket t \<Rightarrow> Some (trade_event_to_json J t) | _ \<Rightarrow> None)
      | QuoteUpdateEvent \<Rightarrow> (case se_payload e of PQuote q \<Rightarrow> Some (quote_to_json J q) | _ \<Rightarrow> None))"

definition storage_event_to_json :: "'j json_lib \<Rightarrow> StorageEvent \<Rightarrow> 'j option" where
  "storage_event_to_json J e = do {
     payload \<leftarrow> payload_to_json J e;
     let serialized = j_object J
       [(''schema_version'', j_integer J kSchemaVersion),
        (''offset'', j_unsigned J (se_offset e)),
        (''ingest_ts_ns'', j_integer J (se_ingest_ts_ns e)),
        (''event_type'', j_string J (event_type_to_string (se_type e))),
        (''payload'', payload)];
     Some (case event_ticker e of
             None \<Rightarrow> serialized
           | Some ticker \<Rightarrow> j_put J serialized ''ticker'' (j_string J ticker))
   }"

definition payload_from_json :: "'j json_lib \<Rightarrow> StorageEventType \<Rightarrow> 'j \<Rightarrow> StoragePayload option" where
  "payload_from_json J type payload =
     (case type of
        TradeSubmitted \<Rightarrow> map_option PTrade (trade_from_json J payload)
      | OrderResponseEvent \<Rightarrow> map_option PResponse (response_from_json J payload)
      | MarketTrade \<Rightarrow> map_option PMarket (trade_event_from_json J payload)
      | QuoteUpdateEvent \<Rightarrow> map_option PQuote (quote_from_json J payload))"

definition storage_event_from_json :: "'j json_lib \<Rightarrow> 'j \<Rightarrow> StorageEvent option" where
  "storage_event_from_json J j =
     (if \<not> contains J j ''offset'' \<or> \<not> contains J j ''ingest_ts_ns'' \<or>
         \<not> contains J j ''event_type'' \<or> \<not> contains J j ''payload'' then None
      else do {
        type \<leftarrow> at_string J j ''event_type'';
        type \<leftarrow> storage_event_type_from_string type;
        offset \<leftarrow> at_u64 J j ''offset'';
        ingest_ts_ns \<leftarrow> at_i64 J j ''ingest_ts_ns'';
        payload \<leftarrow> j_at J j ''payload'';
        payload \<leftarrow> payload_from_json J type payload;
        Some \<lparr>se_offset = offset, se_ingest_ts_ns = ingest_ts_ns, se_type = type, se_payload = payload\<rparr>
      })"

section \<open>Round trips\<close>

text \<open>The events that have a faithful JSON form: ASCII strings that fit their buffers, finite
  doubles and integers in the range of their C++ type.\<close>

definition text_ok :: "nat \<Rightarrow> string \<Rightarrow> bool" where
  "text_ok n s \<longleftrightarrow> wf_buffer n s \<and> ascii s"

fun payload_ok :: "StoragePayload \<Rightarrow> bool" where
  "payload_ok (PTrade t) =
     (text_ok 16 (t_ticker t) \<and> list_all finite_double [t_quantity t, t_price t, t_trigger_price t] \<and>
      i64_range (t_timestamp_ns t))"
| "payload_ok (PResponse r) =
     (text_ok 8 (r_fee_currency r) \<and> text_ok 128 (r_error_message r) \<and>
      list_all finite_double [r_filled_quantity r, r_remaining_quantity r, r_avg_price r, r_fee r] \<and>
      i64_range (r_exchange_timestamp_ns r) \<and> i32_range (r_error_code r))"
| "payload_ok (PMarket e) =
     (text_ok 16 (e_ticker e) \<and> list_all finite_double [e_price e, e_quantity e] \<and> i64_range (e_timestamp_ns e))"
| "payload_ok (PQuote q) =
     (text_ok 16 (q_ticker q) \<and>
      list_all finite_double [q_bid_price q, q_bid_size q, q_ask_price q, q_ask_size q] \<and>
      i64_range (q_timestamp_ns q))"

definition event_ok :: "StorageEvent \<Rightarrow> bool" where
  "event_ok e \<longleftrightarrow> payload_matches_type e \<and> payload_ok (se_payload e) \<and> i64_range (se_ingest_ts_ns e)"

lemma ascii_enums [simp]:
  "ascii (side_to_string side)" "ascii (order_type_to_string type)" "ascii (tif_to_string tif)"
  "ascii (exec_type_to_string exec)" "ascii (status_to_string status)" "ascii (event_type_to_string et)"
proof -
  show "ascii (side_to_string side)" by (simp add: side_to_string_def ascii_def)
  show "ascii (order_type_to_string type)" by (cases type) (simp_all add: ascii_def)
  show "ascii (tif_to_string tif)" by (cases tif) (simp_all add: ascii_def)
  show "ascii (exec_type_to_string exec)" by (simp add: exec_type_to_string_def ascii_def)
  show "ascii (status_to_string status)" by (cases status) (simp_all add: ascii_def)
  show "ascii (event_type_to_string et)" by (cases et) (simp_all add: ascii_def)
qed

lemma ucast_u64 [simp]: "ucast (ucast (x :: u32) :: u64) = x" "ucast (ucast (y :: u8) :: u64) = y"
  by (transfer, simp)+

lemmas read_back = json_types json_numbers json_texts read_int_i64 read_int_i32 json_objects(1)

lemma trade_roundtrip:
  assumes J: "json_laws J" and ok: "payload_ok (PTrade t)"
  shows "\<exists>v. reparse J (trade_to_json J t) = Some v \<and> trade_from_json J v = Some t"
  using ok by (simp add: trade_to_json_def trade_from_json_def read_back [OF J] at_defs text_ok_def)

lemma response_roundtrip:
  assumes J: "json_laws J" and ok: "payload_ok (PResponse r)"
  shows "\<exists>v. reparse J (response_to_json J r) = Some v \<and> response_from_json J v = Some r"
  using ok by (simp add: response_to_json_def response_from_json_def read_back [OF J] at_defs text_ok_def
    i32_i64_range)

lemma trade_event_roundtrip:
  assumes J: "json_laws J" and ok: "payload_ok (PMarket e)"
  shows "\<exists>v. reparse J (trade_event_to_json J e) = Some v \<and> trade_event_from_json J v = Some e"
  using ok by (simp add: trade_event_to_json_def trade_event_from_json_def read_back [OF J] at_defs text_ok_def)

lemma quote_roundtrip:
  assumes J: "json_laws J" and ok: "payload_ok (PQuote q)"
  shows "\<exists>v. reparse J (quote_to_json J q) = Some v \<and> quote_from_json J v = Some q"
  using ok by (simp add: quote_to_json_def quote_from_json_def read_back [OF J] at_defs text_ok_def)

lemma payload_roundtrip:
  assumes J: "json_laws J" and ok: "event_ok e"
  obtains p v where "payload_to_json J e = Some p" "reparse J p = Some v"
    "payload_from_json J (se_type e) v = Some (se_payload e)"
proof -
  have "\<exists>p v. payload_to_json J e = Some p \<and> reparse J p = Some v \<and>
      payload_from_json J (se_type e) v = Some (se_payload e)"
  proof (cases "se_payload e")
    case (PTrade t)
    with ok trade_roundtrip [OF J, of t] show ?thesis
      by (auto simp: event_ok_def payload_matches_type_def payload_to_json_def payload_from_json_def
        split: StorageEventType.splits)
  next
    case (PResponse r)
    with ok response_roundtrip [OF J, of r] show ?thesis
      by (auto simp: event_ok_def payload_matches_type_def payload_to_json_def payload_from_json_def
        split: StorageEventType.splits)
  next
    case (PMarket t)
    with ok trade_event_roundtrip [OF J, of t] show ?thesis
      by (auto simp: event_ok_def payload_matches_type_def payload_to_json_def payload_from_json_def
        split: StorageEventType.splits)
  next
    case (PQuote q)
    with ok quote_roundtrip [OF J, of q] show ?thesis
      by (auto simp: event_ok_def payload_matches_type_def payload_to_json_def payload_from_json_def
        split: StorageEventType.splits)
  qed
  then show ?thesis using that by blast
qed

lemma event_ticker_ascii: "event_ok e \<Longrightarrow> event_ticker e = Some ticker \<Longrightarrow> ascii ticker"
  by (auto simp: event_ok_def event_ticker_def text_ok_def split: StorageEventType.splits StoragePayload.splits)

lemma event_roundtrip:
  assumes J: "json_laws J" and ok: "event_ok e"
  obtains j v where "storage_event_to_json J e = Some j" "reparse J j = Some v"
    "storage_event_from_json J v = Some e"
proof -
  obtain p w where p: "payload_to_json J e = Some p" "reparse J p = Some w"
    "payload_from_json J (se_type e) w = Some (se_payload e)"
    using payload_roundtrip [OF J ok] .
  have ts: "i64_range (se_ingest_ts_ns e)" "i64_range kSchemaVersion"
    using ok by (simp_all add: event_ok_def i64_range_def kSchemaVersion_def)
  have "\<exists>j v. storage_event_to_json J e = Some j \<and> reparse J j = Some v \<and> storage_event_from_json J v = Some e"
  proof (cases "event_ticker e")
    case None
    then show ?thesis
      using p ts by (simp add: storage_event_to_json_def storage_event_from_json_def read_back [OF J] at_defs
        contains_def)
  next
    case (Some ticker)
    with event_ticker_ascii [OF ok] have "ascii ticker" by simp
    with Some show ?thesis
      using p ts by (simp add: storage_event_to_json_def storage_event_from_json_def read_back [OF J] at_defs
        contains_def json_objects(4) [OF J])
  qed
  then show ?thesis using that by blast
qed

section \<open>Lines of the file\<close>

text \<open>What \<open>write_batch\<close> writes for an event, and what \<open>load_existing_file\<close> reads from a line.\<close>

definition event_line :: "'j json_lib \<Rightarrow> StorageEvent \<Rightarrow> string option" where
  "event_line J e = (storage_event_to_json J e \<bind> j_dump J)"

definition line_event :: "'j json_lib \<Rightarrow> string \<Rightarrow> StorageEvent option" where
  "line_event J line = (j_parse J line \<bind> storage_event_from_json J)"

lemma event_line_roundtrip:
  assumes "json_laws J" and "event_ok e"
  obtains line where "event_line J e = Some line" "line_event J line = Some e"
    "line \<noteq> []" "CHR 0x0A \<notin> set line"
proof -
  obtain j v where j: "storage_event_to_json J e = Some j" "reparse J j = Some v"
    "storage_event_from_json J v = Some e"
    using event_roundtrip [OF assms] .
  from j(2) obtain line where line: "j_dump J j = Some line" "j_parse J line = Some v"
    by (auto simp: reparse_def split: option.splits)
  show thesis
  proof (rule that)
    show "event_line J e = Some line" using j(1) line(1) by (simp add: event_line_def)
    show "line_event J line = Some e" using j(3) line(2) by (simp add: line_event_def)
  qed (rule json_texts(1,2) [OF assms(1) line(1)])+
qed

text \<open>
  (C25) The codec of the log is lossless: an event whose strings are ASCII and fit their buffers,
  whose doubles are finite and whose payload has the announced type is written as one non-empty
  line without line breaks, and reading that line gives back the very same event.
\<close>

theorem event_codec_roundtrip:
  assumes "json_laws J" and "event_ok e"
  shows "\<exists>line. event_line J e = Some line \<and> line \<noteq> [] \<and> CHR 0x0A \<notin> set line \<and> line_event J line = Some e"
  by (rule event_line_roundtrip [OF assms]) blast

theorem event_codec_roundtrip_witness:
  "\<exists>line. event_line reference_json (example_market ''X'') = Some line \<and> line \<noteq> [] \<and> CHR 0x0A \<notin> set line \<and>
     line_event reference_json line = Some (example_market ''X'')"
proof -
  have "event_ok (example_market ''X'')"
    by (simp add: event_ok_def example_market_def payload_matches_type_def text_ok_def wf_buffer_def finite_double_def
      i64_range_def is_double_def round64_of_int [of 10, simplified] round64_of_int [of 1, simplified])
  from event_codec_roundtrip [OF reference_json_laws this] show ?thesis .
qed

end
