(* ===== verification/Jsonl_Storage.thy ===== *)
theory Jsonl_Storage
  imports Jsonl_Codec
begin

text \<open>
  The second half of \<open>src/storage/jsonl_async_storage.cpp\<close>: the asynchronous log on disk.
  Appends go to a bounded queue; a flusher thread, or \<open>flush\<close> when there is none, takes batches
  from it, writes one JSON line per event to the file and then adds the batch to the committed
  events, which \<open>replay\<close> reads (with the same filter and paging loop as the in-memory log).

  The operations are functions on the record \<open>JsonlAsyncStorage\<close>. What the threads do between
  two unlocks is one step of the relation \<open>jsonl_step\<close>, so that its runs are the interleavings
  of any number of clients with the flusher.
\<close>

section \<open>Files and streams\<close>

text \<open>
  The file behind the storage and the \<open>std::ofstream\<close> opened on it in append mode. Written
  characters are in the buffer of the stream until \<open>flush\<close>; a stream in a failed state ignores
  what is written to it.
\<close>

record ofstream =
  os_content :: string
  os_buffer :: string
  os_open :: bool
  os_good :: bool

definition stream_write :: "string \<Rightarrow> ofstream \<Rightarrow> ofstream" where
  "stream_write s out = (if os_good out then out\<lparr>os_buffer := os_buffer out @ s\<rparr> else out)"

definition stream_flush :: "ofstream \<Rightarrow> ofstream" where
  "stream_flush out =
     (if os_good out then out\<lparr>os_content := os_content out @ os_buffer out, os_buffer := []\<rparr> else out)"

text \<open>The lines \<open>std::getline\<close> reads one after the other.\<close>

function getlines :: "string \<Rightarrow> string list" where
  "getlines s =
     (if s = [] then []
      else takeWhile (\<lambda>c. c \<noteq> CHR 0x0A) s # getlines (tl (dropWhile (\<lambda>c. c \<noteq> CHR 0x0A) s)))"
  by pat_completeness auto
termination
proof (relation "measure length", simp_all)
  fix s :: string
  assume "s \<noteq> []"
  then show "length (dropWhile (\<lambda>c. c \<noteq> CHR 0x0A) s) - Suc 0 < length s"
    using length_dropWhile_le [of "\<lambda>c. c \<noteq> CHR 0x0A" s] by (cases s) (auto simp: less_Suc_eq_le)
qed

declare getlines.simps [simp del]

section \<open>The storage object\<close>

record JsonlAsyncStorageConfig =
  cf_file_path :: string
  cf_queue_capacity :: u64
  cf_batch_size :: u64
  cf_start_flusher_thread :: bool

record JsonlAsyncStorage =
  js_config :: JsonlAsyncStorageConfig
  js_queue :: "StorageEvent list"
  js_queue_depth :: u64
  js_committed_events :: "StorageEvent list"
  js_output :: ofstream
  js_closed :: bool
  js_next_offset :: u64
  js_accepted :: u64
  js_rejected_backpressure :: u64
  js_committed :: u64
  js_flush_count :: u64
  js_parse_errors :: u64

text \<open>What the constructor finds at \<open>file_path\<close>: the content of the file, if it exists, and
  whether opening it for reading and for appending succeeds.\<close>

record file_at_path =
  fp_content :: "string option"
  fp_readable :: bool
  fp_writable :: bool

datatype storage_error = InvalidArgument | ReadFailed | AppendFailed

text \<open>
  \<open>load_existing_file\<close>: empty lines are skipped, lines that are no event are counted. Of events
  with equal offsets \<open>std::sort\<close> may choose any order; here they keep theirs.
\<close>

definition load_line ::
  "'j json_lib \<Rightarrow> string \<Rightarrow> StorageEvent list \<times> u64 \<Rightarrow> StorageEvent list \<times> u64" where
  "load_line J line acc =
     (let (events, errors) = acc
      in if line = [] then (events, errors)
         else case j_parse J line of
           None \<Rightarrow> (events, errors + 1)
         | Some parsed \<Rightarrow>
             (case storage_event_from_json J parsed of
                None \<Rightarrow> (events, errors + 1)
              | Some event \<Rightarrow> (events @ [event], errors)))"

definition load_existing_file ::
  "'j json_lib \<Rightarrow> file_at_path \<Rightarrow> JsonlAsyncStorage \<Rightarrow> storage_error + JsonlAsyncStorage" where
  "load_existing_file J fp s =
     (case fp_content fp of
        None \<Rightarrow> Inr (s\<lparr>js_next_offset := 0, js_accepted := 0, js_committed := 0\<rparr>)
      | Some chars \<Rightarrow>
          if \<not> fp_readable fp then Inl ReadFailed
          else
            let (events, errors) = fold (load_line J) (getlines chars)
                                     (js_committed_events s, js_parse_errors s);
                events = sort_key se_offset events;
                initial_offset = (if events \<noteq> [] then se_offset (last events) + 1 else 0);
                initial_committed = of_nat (length events)
            in Inr (s\<lparr>js_committed_events := events, js_parse_errors := errors,
                      js_next_offset := initial_offset, js_accepted := initial_committed,
                      js_committed := initial_committed\<rparr>))"

definition open_output_file :: "file_at_path \<Rightarrow> JsonlAsyncStorage \<Rightarrow> storage_error + JsonlAsyncStorage" where
  "open_output_file fp s =
     (if \<not> fp_writable fp then Inl AppendFailed
      else Inr (s\<lparr>js_output := \<lparr>os_content = (case fp_content fp of None \<Rightarrow> [] | Some c \<Rightarrow> c),
                               os_buffer = [], os_open = True, os_good = True\<rparr>\<rparr>))"

definition new_JsonlAsyncStorage ::
  "'j json_lib \<Rightarrow> JsonlAsyncStorageConfig \<Rightarrow> file_at_path \<Rightarrow> storage_error + JsonlAsyncStorage" where
  "new_JsonlAsyncStorage J config fp =
     (if cf_file_path config = [] then Inl InvalidArgument
      else
        let config = (if cf_queue_capacity config = 0 then config\<lparr>cf_queue_capacity := 1\<rparr> else config);
            config = (if cf_batch_size config = 0 then config\<lparr>cf_batch_size := 1\<rparr> else config);
            s = \<lparr>js_config = config, js_queue = [], js_queue_depth = 0, js_committed_events = [],
                 js_output = \<lparr>os_content = [], os_buffer = [], os_open = False, os_good = True\<rparr>,
                 js_closed = False, js_next_offset = 0, js_accepted = 0,
                 js_rejected_backpressure = 0, js_committed = 0, js_flush_count = 0,
                 js_parse_errors = 0\<rparr>
        in case load_existing_file J fp s of Inl err \<Rightarrow> Inl err | Inr s \<Rightarrow> open_output_file fp s)"

definition jsonl_append ::
  "StorageEvent \<Rightarrow> JsonlAsyncStorage \<Rightarrow> runtime \<Rightarrow> bool \<times> JsonlAsyncStorage \<times> runtime" where
  "jsonl_append event s rt =
     (if \<not> payload_matches_type event then (False, s, rt)
      else if js_closed s then (False, s, rt)
      else if unat (cf_queue_capacity (js_config s)) \<le> length (js_queue s)
      then (False, s\<lparr>js_rejected_backpressure := js_rejected_backpressure s + 1\<rparr>, rt)
      else
        let event = event\<lparr>se_offset := js_next_offset s\<rparr>;
            s = s\<lparr>js_next_offset := js_next_offset s + 1\<rparr>;
            (event, rt) = (if se_ingest_ts_ns event \<le> 0
                           then let (now, rt) = now_ns rt in (event\<lparr>se_ingest_ts_ns := now\<rparr>, rt)
                           else (event, rt));
            queue = js_queue s @ [event]
        in (True, s\<lparr>js_queue := queue, js_queue_depth := of_nat (length queue),
                    js_accepted := js_accepted s + 1\<rparr>, rt))"

definition jsonl_replay :: "ReplayRequest \<Rightarrow> JsonlAsyncStorage \<Rightarrow> ReplayBatch" where
  "jsonl_replay request s = replay_events request (js_committed_events s)"

definition jsonl_metrics :: "JsonlAsyncStorage \<Rightarrow> StorageMetrics" where
  "jsonl_metrics s =
     \<lparr>sm_accepted = js_accepted s, sm_rejected_backpressure = js_rejected_backpressure s,
      sm_committed = js_committed s, sm_flush_count = js_flush_count s,
      sm_parse_errors = js_parse_errors s, sm_queue_depth = js_queue_depth s\<rparr>"

section \<open>Draining and writing\<close>

definition drain_queue_batch ::
  "nat \<Rightarrow> JsonlAsyncStorage \<Rightarrow> (StorageEvent list \<times> JsonlAsyncStorage) option" where
  "drain_queue_batch max_items s =
     (if js_queue s = [] then None
      else
        let items = min max_items (length (js_queue s));
            queue = drop items (js_queue s)
        in Some (take items (js_queue s),
                 s\<lparr>js_queue := queue, js_queue_depth := of_nat (length queue)\<rparr>))"

text \<open>
  \<open>write_batch\<close> in its three parts: the lines, under \<open>file_mutex_\<close>; the committed events, under
  \<open>committed_mutex_\<close>; the counter. The first is \<open>(False, _)\<close> when serialising an event throws.
\<close>

fun write_lines :: "'j json_lib \<Rightarrow> StorageEvent list \<Rightarrow> ofstream \<Rightarrow> bool \<times> ofstream" where
  "write_lines J [] out = (True, stream_flush out)"
| "write_lines J (event # batch) out =
     (case event_line J event of
        None \<Rightarrow> (False, out)
      | Some line \<Rightarrow> write_lines J batch (stream_write [CHR 0x0A] (stream_write line out)))"

definition write_file :: "'j json_lib \<Rightarrow> StorageEvent list \<Rightarrow> JsonlAsyncStorage \<Rightarrow> bool \<times> JsonlAsyncStorage" where
  "write_file J batch s =
     (let (returned, out) = write_lines J batch (js_output s) in (returned, s\<lparr>js_output := out\<rparr>))"

definition insert_committed :: "StorageEvent list \<Rightarrow> JsonlAsyncStorage \<Rightarrow> JsonlAsyncStorage" where
  "insert_committed batch s = s\<lparr>js_committed_events := js_committed_events s @ batch\<rparr>"

definition count_committed :: "StorageEvent list \<Rightarrow> JsonlAsyncStorage \<Rightarrow> JsonlAsyncStorage" where
  "count_committed batch s = s\<lparr>js_committed := js_committed s + of_nat (length batch)\<rparr>"

definition write_batch :: "'j json_lib \<Rightarrow> StorageEvent list \<Rightarrow> JsonlAsyncStorage \<Rightarrow> bool \<times> JsonlAsyncStorage" where
  "write_batch J batch s =
     (if batch = [] then (True, s)
      else case write_file J batch s of
        (False, s) \<Rightarrow> (False, s)
      | (True, s) \<Rightarrow> (True, count_committed batch (insert_committed batch s)))"

section \<open>Flushing and closing without a flusher thread\<close>

text \<open>\<open>Threw\<close> is an exception that leaves the function.\<close>

datatype flush_result = Returned bool | Threw

definition flush_satisfied :: "JsonlAsyncStorage \<Rightarrow> bool" where
  "flush_satisfied s \<longleftrightarrow> js_accepted s \<le> js_committed s \<and> js_queue_depth s = 0"

definition flush_output :: "JsonlAsyncStorage \<Rightarrow> bool \<times> JsonlAsyncStorage" where
  "flush_output s = (let out = stream_flush (js_output s) in (os_good out, s\<lparr>js_output := out\<rparr>))"

text \<open>\<open>c\<close> is the steady clock.\<close>

partial_function (option) flush_without_worker ::
  "'j json_lib \<Rightarrow> i64 \<Rightarrow> JsonlAsyncStorage \<Rightarrow> clock \<Rightarrow> (flush_result \<times> JsonlAsyncStorage \<times> clock) option"
where
  [code]: "flush_without_worker J deadline s c =
     (if flush_satisfied s
      then (let (good, s) = flush_output s in Some (Returned good, s, c))
      else
        let (now, c) = read_clock c
        in if deadline < now then Some (Returned False, s, c)
           else case drain_queue_batch (unat (cf_batch_size (js_config s))) s of
             None \<Rightarrow> flush_without_worker J deadline s c
           | Some (batch, s) \<Rightarrow>
               let (returned, s) = write_batch J batch s
               in if returned then flush_without_worker J deadline s c else Some (Threw, s, c))"

definition jsonl_flush ::
  "'j json_lib \<Rightarrow> i64 \<Rightarrow> JsonlAsyncStorage \<Rightarrow> clock \<Rightarrow> (flush_result \<times> JsonlAsyncStorage \<times> clock) option" where
  "jsonl_flush J timeout s c =
     (let s = s\<lparr>js_flush_count := js_flush_count s + 1\<rparr>;
          (now, c) = read_clock c
      in flush_without_worker J (now + timeout) s c)"

definition close_output :: "JsonlAsyncStorage \<Rightarrow> JsonlAsyncStorage" where
  "close_output s =
     (let s = (if os_open (js_output s) then s\<lparr>js_output := (stream_flush (js_output s))\<lparr>os_open := False\<rparr>\<rparr> else s)
      in s\<lparr>js_queue_depth := 0\<rparr>)"

definition jsonl_close ::
  "'j json_lib \<Rightarrow> JsonlAsyncStorage \<Rightarrow> clock \<Rightarrow> (flush_result \<times> JsonlAsyncStorage \<times> clock) option" where
  "jsonl_close J s c =
     (if js_closed s then Some (Returned True, s, c)
      else case jsonl_flush J (5 * 10 ^ 9) (s\<lparr>js_closed := True\<rparr>) c of
        None \<Rightarrow> None
      | Some (Threw, s, c) \<Rightarrow> Some (Threw, s, c)
      | Some (Returned _, s, c) \<Rightarrow> Some (Returned True, close_output s, c))"

section \<open>The flusher thread and its clients\<close>

text \<open>
  Where \<open>flusher_loop\<close> stands between two critical sections, with the batch it holds.
  \<open>Crashed\<close>: an exception left the thread function, which terminates the process.
\<close>

datatype flusher_pc =
    Waiting
  | Writing "StorageEvent list"
  | Inserting "StorageEvent list"
  | Counting "StorageEvent list"
  | Stopped
  | Crashed "StorageEvent list"

text \<open>\<open>sy_log\<close> records the accepted events in the order of acceptance; the code has no such list.\<close>

record jsonl_system =
  sy_storage :: JsonlAsyncStorage
  sy_flusher :: flusher_pc
  sy_rt :: runtime
  sy_log :: "StorageEvent list"

definition flusher_step :: "'j json_lib \<Rightarrow> jsonl_system \<Rightarrow> jsonl_system option" where
  "flusher_step J sy =
     (let s = sy_storage sy
      in case sy_flusher sy of
        Waiting \<Rightarrow>
          (case drain_queue_batch (unat (cf_batch_size (js_config s))) s of
             None \<Rightarrow> if js_closed s then Some (sy\<lparr>sy_flusher := Stopped\<rparr>) else None
           | Some (batch, s) \<Rightarrow> Some (sy\<lparr>sy_storage := s, sy_flusher := Writing batch\<rparr>))
      | Writing batch \<Rightarrow>
          (let (returned, s) = write_file J batch s
           in Some (sy\<lparr>sy_storage := s, sy_flusher := (if returned then Inserting batch else Crashed batch)\<rparr>))
      | Inserting batch \<Rightarrow> Some (sy\<lparr>sy_storage := insert_committed batch s, sy_flusher := Counting batch\<rparr>)
      | Counting batch \<Rightarrow> Some (sy\<lparr>sy_storage := count_committed batch s, sy_flusher := Waiting\<rparr>)
      | Stopped \<Rightarrow> None
      | Crashed _ \<Rightarrow> None)"

text \<open>
  The steps of the system: an append by any client, a step of the flusher, a \<open>flush\<close> call that
  starts and one that finds everything committed and flushes the stream (a \<open>flush\<close> that waits or
  times out changes nothing), the two parts of \<open>close\<close> around the join, and a failure of the
  stream.
\<close>

inductive jsonl_step :: "'j json_lib \<Rightarrow> jsonl_system \<Rightarrow> jsonl_system \<Rightarrow> bool" for J where
  step_append: "jsonl_append event (sy_storage sy) (sy_rt sy) = (accepted, s, rt) \<Longrightarrow>
    jsonl_step J sy (sy\<lparr>sy_storage := s, sy_rt := rt,
                        sy_log := sy_log sy @ (if accepted then [last (js_queue s)] else [])\<rparr>)"
| step_flusher: "flusher_step J sy = Some sy' \<Longrightarrow> jsonl_step J sy sy'"
| step_flush_call:
    "jsonl_step J sy (sy\<lparr>sy_storage := (sy_storage sy)\<lparr>js_flush_count := js_flush_count (sy_storage sy) + 1\<rparr>\<rparr>)"
| step_flush_done: "flush_satisfied (sy_storage sy) \<Longrightarrow>
    jsonl_step J sy (sy\<lparr>sy_storage := snd (flush_output (sy_storage sy))\<rparr>)"
| step_close: "jsonl_step J sy (sy\<lparr>sy_storage := (sy_storage sy)\<lparr>js_closed := True\<rparr>\<rparr>)"
| step_joined: "js_closed (sy_storage sy) \<Longrightarrow> sy_flusher sy = Stopped \<Longrightarrow>
    jsonl_step J sy (sy\<lparr>sy_storage := close_output (sy_storage sy)\<rparr>)"
| step_io_failure: "jsonl_step J sy
    (sy\<lparr>sy_storage := (sy_storage sy)\<lparr>js_output := (js_output (sy_storage sy))\<lparr>os_good := False, os_buffer := []\<rparr>\<rparr>\<rparr>)"

inductive jsonl_reachable :: "'j json_lib \<Rightarrow> JsonlAsyncStorage \<Rightarrow> jsonl_system \<Rightarrow> bool" for J s0 where
  reach_start: "jsonl_reachable J s0 \<lparr>sy_storage = s0, sy_flusher = Waiting, sy_rt = rt, sy_log = []\<rparr>"
| reach_step: "jsonl_reachable J s0 sy \<Longrightarrow> jsonl_step J sy sy' \<Longrightarrow> jsonl_reachable J s0 sy'"

end
