(* ===== verification/Jsonl_Durability.thy ===== *)
theory Jsonl_Durability
  imports Jsonl_Storage
begin

text \<open>
  Correctness of the asynchronous log of \<open>Jsonl_Storage\<close>: the invariants of all interleavings of
  its clients with the flusher thread (\<open>log_inv\<close> for the events and counters, \<open>file_inv\<close> for the
  file), what a storage object opened on the file recovers, that flushing and closing end, that
  the log satisfies the contract \<open>event_log\<close> of \<open>IStorage\<close>, and what a torn last line costs.
\<close>

section \<open>Reading the file back\<close>

definition complete_lines :: "string \<Rightarrow> bool" where
  "complete_lines chars \<longleftrightarrow> chars = [] \<or> last chars = CHR 0x0A"

definition lines_of :: "'j json_lib \<Rightarrow> StorageEvent list \<Rightarrow> string" where
  "lines_of J events = concat (map (\<lambda>e. the (event_line J e) @ [CHR 0x0A]) events)"

lemma getlines_Nil [simp]: "getlines [] = []"
  by (simp add: getlines.simps)

lemma getlines_line:
  assumes "CHR 0x0A \<notin> set line"
  shows "getlines (line @ CHR 0x0A # rest) = line # getlines rest"
proof -
  have "takeWhile (\<lambda>c. c \<noteq> CHR 0x0A) (line @ CHR 0x0A # rest) = line"
    "dropWhile (\<lambda>c. c \<noteq> CHR 0x0A) (line @ CHR 0x0A # rest) = CHR 0x0A # rest"
    using assms by (auto simp: takeWhile_append dropWhile_append)
  then show ?thesis by (subst getlines.simps) simp
qed

lemma getlines_append:
  assumes "complete_lines chars"
  shows "getlines (chars @ rest) = getlines chars @ getlines rest"
  using assms
proof (induction chars rule: getlines.induct)
  case (1 chars)
  show ?case
  proof (cases "chars = []")
    case False
    from False "1.prems" have "CHR 0x0A \<in> set chars" by (metis complete_lines_def last_in_set)
    then obtain c tail where drop: "dropWhile (\<lambda>c. c \<noteq> CHR 0x0A) chars = c # tail"
      by (metis (mono_tags, lifting) dropWhile_eq_Nil_conv list.exhaust)
    then have "c = CHR 0x0A" using hd_dropWhile [of "\<lambda>c. c \<noteq> CHR 0x0A" chars] by simp
    with drop have drop: "dropWhile (\<lambda>c. c \<noteq> CHR 0x0A) chars = CHR 0x0A # tail" by simp
    define l where "l = takeWhile (\<lambda>c. c \<noteq> CHR 0x0A) chars"
    have chars: "chars = l @ CHR 0x0A # tail"
      using takeWhile_dropWhile_id [of "\<lambda>c. c \<noteq> CHR 0x0A" chars] drop by (simp add: l_def)
    have l: "CHR 0x0A \<notin> set l" by (auto simp: l_def dest: set_takeWhileD)
    have "complete_lines tail" using "1.prems" by (simp add: complete_lines_def chars split: if_splits)
    with "1.IH" [OF False] drop have "getlines (tail @ rest) = getlines tail @ getlines rest" by simp
    with l show ?thesis by (simp add: chars getlines_line)
  qed simp
qed

lemma lines_of_simps [simp]:
  "lines_of J [] = []" "lines_of J (e # es) = the (event_line J e) @ CHR 0x0A # lines_of J es"
  "lines_of J (es @ es') = lines_of J es @ lines_of J es'"
  by (simp_all add: lines_of_def)

lemma load_lines_of:
  assumes J: "json_laws J"
  shows "list_all event_ok es \<Longrightarrow>
    fold (load_line J) (getlines (lines_of J es)) (events, errors) = (events @ es, errors)"
proof (induction es arbitrary: events)
  case (Cons e es)
  then obtain line where "event_line J e = Some line" "line_event J line = Some e" "line \<noteq> []"
    "CHR 0x0A \<notin> set line"
    using event_line_roundtrip [OF J, of e] by auto
  moreover from this(2) obtain j where "j_parse J line = Some j" "storage_event_from_json J j = Some e"
    by (auto simp: line_event_def bind_eq_Some_conv)
  ultimately show ?case using Cons by (simp add: getlines_line load_line_def)
qed simp

lemma load_append:
  assumes "json_laws J" "complete_lines chars" "list_all event_ok es"
    and "fold (load_line J) (getlines chars) acc = (events, errors)"
  shows "fold (load_line J) (getlines (chars @ lines_of J es)) acc = (events @ es, errors)"
  using assms by (simp add: getlines_append load_lines_of)

lemma sort_key_append_sorted:
  fixes f :: "'a \<Rightarrow> 'k :: linorder"
  assumes "sorted (map f ys)" and "\<And>x y. x \<in> set xs \<Longrightarrow> y \<in> set ys \<Longrightarrow> f x \<le> f y"
  shows "sort_key f (xs @ ys) = sort_key f xs @ ys"
proof (rule properties_for_sort_key)
  show "mset (sort_key f xs @ ys) = mset (xs @ ys)" by simp
  show "filter (\<lambda>x. f k = f x) (sort_key f xs @ ys) = filter (\<lambda>x. f k = f x) (xs @ ys)" for k
    using sort_key_stable [of f "f k" xs] by (simp add: eq_commute [of "f k"])
  show "sorted (map f (sort_key f xs @ ys))" using assms by (auto simp: sorted_append)
qed

section \<open>Writing\<close>

lemma write_lines_good:
  assumes J: "json_laws J"
  shows "list_all event_ok es \<Longrightarrow> os_good out \<Longrightarrow>
    write_lines J es out =
      (True, out\<lparr>os_content := os_content out @ os_buffer out @ lines_of J es, os_buffer := []\<rparr>)"
proof (induction es arbitrary: out)
  case Nil
  then show ?case by (simp add: stream_flush_def)
next
  case (Cons e es)
  then obtain line where "event_line J e = Some line" using event_line_roundtrip [OF J, of e] by auto
  with Cons show ?case by (simp add: stream_write_def)
qed

lemma write_lines_failed:
  assumes J: "json_laws J"
  shows "list_all event_ok es \<Longrightarrow> \<not> os_good out \<Longrightarrow> write_lines J es out = (True, out)"
proof (induction es)
  case Nil
  then show ?case by (simp add: stream_flush_def)
next
  case (Cons e es)
  then obtain line where "event_line J e = Some line" using event_line_roundtrip [OF J, of e] by auto
  with Cons show ?case by (simp add: stream_write_def)
qed

lemma write_file_storage:
  "write_file J batch s = (returned, s') \<Longrightarrow> \<exists>out. s' = s\<lparr>js_output := out\<rparr>"
  by (auto simp: write_file_def split: prod.splits)

lemma jsonl_append_cases:
  obtains (refused) r where "jsonl_append e s rt = (False, s\<lparr>js_rejected_backpressure := r\<rparr>, rt)"
  | (queued) e' rt' where "payload_matches_type e" "\<not> js_closed s" "se_offset e' = js_next_offset s"
      "se_type e' = se_type e" "se_payload e' = se_payload e"
      "length (js_queue s) < unat (cf_queue_capacity (js_config s))"
      "jsonl_append e s rt =
         (True, s\<lparr>js_queue := js_queue s @ [e'], js_queue_depth := of_nat (length (js_queue s @ [e'])),
                  js_next_offset := js_next_offset s + 1, js_accepted := js_accepted s + 1\<rparr>, rt')"
proof (cases "payload_matches_type e \<and> \<not> js_closed s \<and>
    length (js_queue s) < unat (cf_queue_capacity (js_config s))")
  case False
  then have "\<exists>r. jsonl_append e s rt = (False, s\<lparr>js_rejected_backpressure := r\<rparr>, rt)"
    by (auto simp: jsonl_append_def intro: exI [of _ "js_rejected_backpressure s"])
  then show ?thesis using refused by blast
next
  case True
  define e' where "e' = (if se_ingest_ts_ns e \<le> 0
    then e\<lparr>se_offset := js_next_offset s, se_ingest_ts_ns := fst (now_ns rt)\<rparr>
    else e\<lparr>se_offset := js_next_offset s\<rparr>)"
  show ?thesis
    using True by (intro queued [of e' "if se_ingest_ts_ns e \<le> 0 then snd (now_ns rt) else rt"])
      (auto simp: e'_def jsonl_append_def Let_def split: prod.splits)
qed

section \<open>Invariants of the system\<close>

text \<open>The batch the flusher holds: not yet among the committed events, written but not among them,
  or among them and not yet counted.\<close>

fun pending :: "flusher_pc \<Rightarrow> StorageEvent list" where
  "pending (Writing batch) = batch"
| "pending (Inserting batch) = batch"
| "pending (Crashed batch) = batch"
| "pending _ = []"

fun unpublished :: "flusher_pc \<Rightarrow> StorageEvent list" where
  "unpublished (Inserting batch) = batch"
| "unpublished _ = []"

fun uncounted :: "flusher_pc \<Rightarrow> StorageEvent list" where
  "uncounted (Counting batch) = batch"
| "uncounted _ = []"

fun flusher_ok :: "flusher_pc \<Rightarrow> JsonlAsyncStorage \<Rightarrow> bool" where
  "flusher_ok (Writing batch) s = (batch \<noteq> [])"
| "flusher_ok (Inserting batch) s = (batch \<noteq> [])"
| "flusher_ok (Counting batch) s = (batch \<noteq> [])"
| "flusher_ok (Crashed batch) s = (batch \<noteq> [])"
| "flusher_ok Stopped s = (js_queue s = [] \<and> js_closed s)"
| "flusher_ok _ s = True"

definition log_inv :: "JsonlAsyncStorage \<Rightarrow> jsonl_system \<Rightarrow> bool" where
  "log_inv s0 sy \<longleftrightarrow>
     (let s = sy_storage sy; pc = sy_flusher sy
      in js_committed_events s @ pending pc @ js_queue s = js_committed_events s0 @ sy_log sy \<and>
         length (js_committed_events s0) \<le> length (js_committed_events s) \<and>
         map se_offset (sy_log sy) = map (\<lambda>i. js_next_offset s0 + of_nat i) [0..<length (sy_log sy)] \<and>
         list_all payload_matches_type (sy_log sy) \<and>
         js_next_offset s = js_next_offset s0 + of_nat (length (sy_log sy)) \<and>
         js_accepted s = of_nat (length (js_committed_events s0) + length (sy_log sy)) \<and>
         js_committed s + of_nat (length (uncounted pc)) = of_nat (length (js_committed_events s)) \<and>
         js_queue_depth s = of_nat (length (js_queue s)) \<and>
         cf_batch_size (js_config s) \<noteq> 0 \<and> flusher_ok pc s)"

lemma log_invI:
  assumes "js_committed_events s @ pending pc @ js_queue s = js_committed_events s0 @ lg"
    and "length (js_committed_events s0) \<le> length (js_committed_events s)"
    and "map se_offset lg = map (\<lambda>i. js_next_offset s0 + of_nat i) [0..<length lg]"
    and "list_all payload_matches_type lg"
    and "js_next_offset s = js_next_offset s0 + of_nat (length lg)"
    and "js_accepted s = of_nat (length (js_committed_events s0) + length lg)"
    and "js_committed s + of_nat (length (uncounted pc)) = of_nat (length (js_committed_events s))"
    and "js_queue_depth s = of_nat (length (js_queue s))"
    and "cf_batch_size (js_config s) \<noteq> 0" and "flusher_ok pc s"
  shows "log_inv s0 \<lparr>sy_storage = s, sy_flusher = pc, sy_rt = rt, sy_log = lg\<rparr>"
  using assms by (simp add: log_inv_def)

lemma log_inv_append:
  assumes inv: "log_inv s0 sy" and app: "jsonl_append e (sy_storage sy) (sy_rt sy) = (accepted, s, rt)"
  shows "log_inv s0 (sy\<lparr>sy_storage := s, sy_rt := rt,
    sy_log := sy_log sy @ (if accepted then [last (js_queue s)] else [])\<rparr>)"
proof (rule jsonl_append_cases [where e = e and s = "sy_storage sy" and rt = "sy_rt sy"])
  fix r
  assume "jsonl_append e (sy_storage sy) (sy_rt sy) = (False, (sy_storage sy)\<lparr>js_rejected_backpressure := r\<rparr>, sy_rt sy)"
  with inv app show ?thesis
    by (cases "sy_flusher sy") (auto simp: log_inv_def Let_def)
next
  fix e' :: StorageEvent and rt'
  assume "payload_matches_type e" "se_type e' = se_type e" "se_payload e' = se_payload e"
  then have typed: "payload_matches_type e'" using payload_matches_type_cong by blast
  assume "\<not> js_closed (sy_storage sy)" "se_offset e' = js_next_offset (sy_storage sy)"
    "jsonl_append e (sy_storage sy) (sy_rt sy) =
       (True, (sy_storage sy)\<lparr>js_queue := js_queue (sy_storage sy) @ [e'],
          js_queue_depth := of_nat (length (js_queue (sy_storage sy) @ [e'])),
          js_next_offset := js_next_offset (sy_storage sy) + 1,
          js_accepted := js_accepted (sy_storage sy) + 1\<rparr>, rt')"
  with inv app typed show ?thesis
    by (cases "sy_flusher sy") (auto simp: log_inv_def Let_def)
qed

lemma drain_queue_batch_Some:
  assumes "drain_queue_batch n s = Some (batch, s')"
  shows "js_queue s = batch @ js_queue s'" "0 < n \<Longrightarrow> batch \<noteq> []"
    "s' = s\<lparr>js_queue := js_queue s', js_queue_depth := of_nat (length (js_queue s'))\<rparr>"
  using assms by (auto simp: drain_queue_batch_def Let_def min_def split: if_splits)

lemma drain_queue_batch_None [simp]: "drain_queue_batch n s = None \<longleftrightarrow> js_queue s = []"
  by (simp add: drain_queue_batch_def Let_def)

lemma flusher_step_cases:
  assumes "flusher_step J sy = Some sy'"
  obtains (stop) "sy_flusher sy = Waiting" "js_queue (sy_storage sy) = []" "js_closed (sy_storage sy)"
      "sy' = sy\<lparr>sy_flusher := Stopped\<rparr>"
  | (take) batch s where "sy_flusher sy = Waiting"
      "drain_queue_batch (unat (cf_batch_size (js_config (sy_storage sy)))) (sy_storage sy) = Some (batch, s)"
      "sy' = sy\<lparr>sy_storage := s, sy_flusher := Writing batch\<rparr>"
  | (written) batch out where "sy_flusher sy = Writing batch"
      "write_lines J batch (js_output (sy_storage sy)) = (True, out)"
      "sy' = sy\<lparr>sy_storage := (sy_storage sy)\<lparr>js_output := out\<rparr>, sy_flusher := Inserting batch\<rparr>"
  | (crash) batch out where "sy_flusher sy = Writing batch"
      "write_lines J batch (js_output (sy_storage sy)) = (False, out)"
      "sy' = sy\<lparr>sy_storage := (sy_storage sy)\<lparr>js_output := out\<rparr>, sy_flusher := Crashed batch\<rparr>"
  | (insert) batch where "sy_flusher sy = Inserting batch"
      "sy' = sy\<lparr>sy_storage := insert_committed batch (sy_storage sy), sy_flusher := Counting batch\<rparr>"
  | (count) batch where "sy_flusher sy = Counting batch"
      "sy' = sy\<lparr>sy_storage := count_committed batch (sy_storage sy), sy_flusher := Waiting\<rparr>"
  using assms unfolding flusher_step_def write_file_def Let_def
  by (auto split: flusher_pc.splits option.splits prod.splits if_splits)

lemma log_inv_flusher:
  assumes inv: "log_inv s0 sy" and "flusher_step J sy = Some sy'"
  shows "log_inv s0 sy'"
  using assms(2)
proof (cases rule: flusher_step_cases)
  case (take batch s)
  note drain = drain_queue_batch_Some [OF take(2)]
  have "batch \<noteq> []" using drain(2) inv by (simp add: log_inv_def Let_def unat_gt_0)
  moreover have "js_committed_events s = js_committed_events (sy_storage sy)"
    "js_next_offset s = js_next_offset (sy_storage sy)" "js_accepted s = js_accepted (sy_storage sy)"
    "js_committed s = js_committed (sy_storage sy)" "js_config s = js_config (sy_storage sy)"
    "js_queue_depth s = of_nat (length (js_queue s))"
    by (subst drain(3), simp)+
  ultimately show ?thesis using inv take(1,3) drain(1) by (auto simp: log_inv_def Let_def)
qed (use inv in \<open>auto simp: log_inv_def Let_def insert_committed_def count_committed_def\<close>)

lemma log_inv_step:
  assumes inv: "log_inv s0 sy" and "jsonl_step J sy sy'"
  shows "log_inv s0 sy'"
  using assms(2)
proof cases
  case step_append
  then show ?thesis using log_inv_append [OF inv] by simp
next
  case step_flusher
  then show ?thesis by (rule log_inv_flusher [OF inv])
next
  case step_joined
  then show ?thesis using inv by (auto simp: log_inv_def Let_def close_output_def)
qed (use inv in \<open>cases "sy_flusher sy"; auto simp: log_inv_def Let_def flush_output_def\<close>)+

text \<open>
  The file: as long as the stream has not failed, it holds the lines it had at the start followed
  by one line for each event that left the flusher, and no event that has a JSON form crashes it.
\<close>

definition file_inv :: "'j json_lib \<Rightarrow> string \<Rightarrow> JsonlAsyncStorage \<Rightarrow> jsonl_system \<Rightarrow> bool" where
  "file_inv J chars s0 sy \<longleftrightarrow>
     list_all event_ok (sy_log sy) \<longrightarrow>
       (\<forall>batch. sy_flusher sy \<noteq> Crashed batch) \<and>
       (os_good (js_output (sy_storage sy)) \<longrightarrow>
          os_buffer (js_output (sy_storage sy)) = [] \<and>
          os_content (js_output (sy_storage sy)) =
            chars @ lines_of J (drop (length (js_committed_events s0)) (js_committed_events (sy_storage sy))
                                @ unpublished (sy_flusher sy)))"

lemma jsonl_append_output:
  "jsonl_append e s rt = (accepted, s', rt') \<Longrightarrow>
   js_output s' = js_output s \<and> js_committed_events s' = js_committed_events s"
  by (rule jsonl_append_cases [where e = e and s = s and rt = rt]) auto

lemma pending_event_ok:
  assumes "log_inv s0 sy" "list_all event_ok (sy_log sy)"
    and c0: "length (js_committed_events s0) \<le> length (js_committed_events (sy_storage sy))"
  shows "list_all event_ok (pending (sy_flusher sy))"
proof -
  have "drop (length (js_committed_events s0)) (js_committed_events (sy_storage sy)) @ pending (sy_flusher sy)
      @ js_queue (sy_storage sy) = sy_log sy"
    using assms(1) c0 by (metis (no_types, lifting) append_eq_conv_conj drop_append log_inv_def append.assoc
      diff_is_0_eq drop0)
  with assms(2) show ?thesis by (metis list_all_append)
qed

lemma file_inv_flusher:
  assumes J: "json_laws J" and inv: "log_inv s0 sy" and fi: "file_inv J chars s0 sy"
    and "flusher_step J sy = Some sy'"
  shows "file_inv J chars s0 sy'"
  using assms(4)
proof (cases rule: flusher_step_cases)
  case (take batch s)
  have "js_output s = js_output (sy_storage sy)" "js_committed_events s = js_committed_events (sy_storage sy)"
    by (subst drain_queue_batch_Some(3) [OF take(2)], simp)+
  then show ?thesis using fi take(1,3) by (simp add: file_inv_def)
next
  case (written batch out)
  show ?thesis
    unfolding file_inv_def
  proof (intro impI)
    assume "list_all event_ok (sy_log sy')"
    then have ok: "list_all event_ok (sy_log sy)" using written(3) by simp
    have "list_all event_ok batch"
      using pending_event_ok [OF inv ok] inv written(1) by (simp add: log_inv_def Let_def)
    then show "(\<forall>batch. sy_flusher sy' \<noteq> Crashed batch) \<and>
       (os_good (js_output (sy_storage sy')) \<longrightarrow>
          os_buffer (js_output (sy_storage sy')) = [] \<and>
          os_content (js_output (sy_storage sy')) =
            chars @ lines_of J (drop (length (js_committed_events s0)) (js_committed_events (sy_storage sy'))
                                @ unpublished (sy_flusher sy')))"
      using fi ok written write_lines_good [OF J, of batch "js_output (sy_storage sy)"]
        write_lines_failed [OF J, of batch "js_output (sy_storage sy)"]
      by (cases "os_good (js_output (sy_storage sy))") (auto simp: file_inv_def)
  qed
next
  case (crash batch out)
  have False if ok: "list_all event_ok (sy_log sy)"
  proof -
    have "list_all event_ok batch"
      using pending_event_ok [OF inv ok] inv crash(1) by (simp add: log_inv_def Let_def)
    then show False
      using crash(2) write_lines_good [OF J, of batch "js_output (sy_storage sy)"]
        write_lines_failed [OF J, of batch "js_output (sy_storage sy)"]
      by (cases "os_good (js_output (sy_storage sy))") auto
  qed
  then show ?thesis using crash(3) by (auto simp: file_inv_def)
qed (use fi inv in \<open>auto simp: file_inv_def log_inv_def Let_def insert_committed_def count_committed_def\<close>)

lemma file_inv_step:
  assumes J: "json_laws J" and inv: "log_inv s0 sy" and fi: "file_inv J chars s0 sy"
    and "jsonl_step J sy sy'"
  shows "file_inv J chars s0 sy'"
  using assms(4)
proof cases
  case (step_append event accepted s rt)
  with fi jsonl_append_output [OF step_append(2)] show ?thesis by (auto simp: file_inv_def)
next
  case step_flusher
  then show ?thesis by (rule file_inv_flusher [OF J inv fi])
next
  case step_flush_done
  with fi show ?thesis by (auto simp: file_inv_def flush_output_def stream_flush_def)
next
  case step_joined
  with fi show ?thesis by (auto simp: file_inv_def close_output_def stream_flush_def)
qed (use fi in \<open>auto simp: file_inv_def\<close>)

text \<open>The constructor establishes both.\<close>

definition file_chars :: "file_at_path \<Rightarrow> string" where
  "file_chars fp = (case fp_content fp of None \<Rightarrow> [] | Some c \<Rightarrow> c)"

lemma new_storage_facts:
  assumes "new_JsonlAsyncStorage J config fp = Inr s0"
  obtains events where
    "fold (load_line J) (getlines (file_chars fp)) ([], 0) = (events, js_parse_errors s0)"
    "js_committed_events s0 = sort_key se_offset events"
    "js_next_offset s0 = (if events \<noteq> [] then se_offset (last (js_committed_events s0)) + 1 else 0)"
    "js_accepted s0 = of_nat (length events)" "js_committed s0 = of_nat (length events)"
    "js_queue s0 = []" "js_queue_depth s0 = 0" "\<not> js_closed s0"
    "js_output s0 = \<lparr>os_content = file_chars fp, os_buffer = [], os_open = True, os_good = True\<rparr>"
    "cf_batch_size (js_config s0) \<noteq> 0" "cf_queue_capacity (js_config s0) \<noteq> 0"
proof -
  define load where "load = fold (load_line J) (getlines (file_chars fp)) ([], 0)"
  have sort_Nil: "sort_key se_offset evs = [] \<longleftrightarrow> evs = []" for evs
    by (metis length_0_conv length_sort)
  show thesis
    using assms
    by (intro that [of "fst load"])
      (auto simp: new_JsonlAsyncStorage_def load_existing_file_def open_output_file_def load_def
        file_chars_def Let_def sort_Nil split: option.splits prod.splits if_splits)
qed

lemma reachable_invs:
  assumes J: "json_laws J" and new: "new_JsonlAsyncStorage J config fp = Inr s0"
    and "jsonl_reachable J s0 sy"
  shows "log_inv s0 sy" and "file_inv J (file_chars fp) s0 sy"
proof -
  have "log_inv s0 sy \<and> file_inv J (file_chars fp) s0 sy"
    using assms(3)
  proof induction
    case (reach_start rt)
    show ?case by (rule new_storage_facts [OF new]) (simp add: log_inv_def file_inv_def)
  next
    case (reach_step sy sy')
    then show ?case using log_inv_step file_inv_step [OF J] by blast
  qed
  then show "log_inv s0 sy" and "file_inv J (file_chars fp) s0 sy" by simp_all
qed

lemma sorted_map_le_last: "sorted (map f xs) \<Longrightarrow> x \<in> set xs \<Longrightarrow> f x \<le> f (last xs)"
  by (induction xs) auto

text \<open>Reopening a file to which the lines of further events were added.\<close>

lemma next_offset_bounds:
  assumes "new_JsonlAsyncStorage J config fp = Inr s0" and ok: "offsets_ok (js_committed_events s0)"
  shows "e \<in> set (js_committed_events s0) \<Longrightarrow> se_offset e < js_next_offset s0"
proof -
  assume e: "e \<in> set (js_committed_events s0)"
  obtain events where ev: "js_committed_events s0 = sort_key se_offset events"
    "js_next_offset s0 = (if events \<noteq> [] then se_offset (last (js_committed_events s0)) + 1 else 0)"
    using new_storage_facts [OF assms(1)] by metis
  let ?l = "last (js_committed_events s0)"
  from e ev have "events \<noteq> []" by auto
  then have nxt: "js_next_offset s0 = se_offset ?l + 1" using ev by simp
  have "se_offset ?l < - 1" using ok e by (metis emptyE last_in_set offsets_ok_def set_empty)
  moreover have "se_offset e \<le> se_offset ?l" using e by (intro sorted_map_le_last) (simp_all add: ev(1))
  ultimately show ?thesis using nxt u64_less_plus_one by metis
qed

definition reopened :: "string \<Rightarrow> file_at_path" where
  "reopened chars = \<lparr>fp_content = Some chars, fp_readable = True, fp_writable = True\<rparr>"

lemma reopen_storage:
  assumes J: "json_laws J" and new: "new_JsonlAsyncStorage J config fp = Inr s0"
    and chars: "complete_lines (file_chars fp)" and ok: "offsets_ok (js_committed_events s0)"
    and es: "list_all event_ok es"
      "map se_offset es = map (\<lambda>i. js_next_offset s0 + of_nat i) [0..<length es]"
    and bound: "unat (js_next_offset s0) + length es \<le> 2 ^ 64" and path: "cf_file_path config' \<noteq> []"
  shows "\<exists>s1. new_JsonlAsyncStorage J config' (reopened (file_chars fp @ lines_of J es)) = Inr s1 \<and>
    js_committed_events s1 = js_committed_events s0 @ es \<and> js_parse_errors s1 = js_parse_errors s0 \<and>
    js_next_offset s1 = js_next_offset s0 + of_nat (length es)"
proof -
  obtain events where ev: "fold (load_line J) (getlines (file_chars fp)) ([], 0) = (events, js_parse_errors s0)"
    "js_committed_events s0 = sort_key se_offset events"
    "js_next_offset s0 = (if events \<noteq> [] then se_offset (last (js_committed_events s0)) + 1 else 0)"
    using new_storage_facts [OF new] by metis
  have load: "fold (load_line J) (getlines (file_chars fp @ lines_of J es)) ([], 0)
      = (events @ es, js_parse_errors s0)"
    by (rule load_append [OF J chars es(1) ev(1)])
  let ?n = "unat (js_next_offset s0)"
  have off: "map se_offset es = map (\<lambda>i. of_nat (?n + i)) [0..<length es]" using es(2) by simp
  have less: "(of_nat (?n + i) :: u64) < of_nat (?n + j) \<longleftrightarrow> i < j" if "i < length es" "j < length es" for i j
    using that bound by (subst of_nat_u64_less) auto
  have sorted: "sorted_wrt (<) (map se_offset es)"
    unfolding off using less by (auto simp: sorted_wrt_iff_nth_less)
  have above: "se_offset x \<le> se_offset y" if x: "x \<in> set events" and y: "y \<in> set es" for x y
  proof -
    have "se_offset y \<in> (\<lambda>i. of_nat (?n + i)) ` {0..<length es}" using y off by (metis image_set image_eqI set_upt)
    then obtain i where i: "i < length es" "se_offset y = of_nat (?n + i)" by auto
    have "se_offset x < js_next_offset s0" using next_offset_bounds [OF new ok] x ev(2) by simp
    moreover have "unat (se_offset y) = ?n + i" unfolding i(2) by (rule unat_of_nat_u64) (use i(1) bound in simp)
    ultimately show ?thesis by (simp add: word_le_nat_alt word_less_nat_alt)
  qed
  have sort: "sort_key se_offset (events @ es) = js_committed_events s0 @ es"
    unfolding ev(2) using sorted above by (intro sort_key_append_sorted) (auto simp: strict_sorted_imp_sorted)
  have empty: "js_committed_events s0 = [] \<longleftrightarrow> events = []" using ev(2) by (metis length_0_conv length_sort)
  have nxt: "(if js_committed_events s0 @ es \<noteq> [] then se_offset (last (js_committed_events s0 @ es)) + 1 else 0)
      = js_next_offset s0 + of_nat (length es)"
  proof (cases "es = []")
    case False
    then have "se_offset (last es) = map se_offset es ! (length es - 1)" by (simp add: last_conv_nth)
    also have "\<dots> = js_next_offset s0 + of_nat (length es - 1)" using es(2) False by simp
    finally show ?thesis using False by (simp add: of_nat_diff Suc_leI)
  qed (use ev(3) empty in simp)
  show ?thesis
    using path nxt
    by (cases "js_committed_events s0 @ es = []")
      (simp_all add: new_JsonlAsyncStorage_def load_existing_file_def open_output_file_def reopened_def load sort
        Let_def del: append_is_Nil_conv)
qed

section \<open>The flusher runs to its end\<close>

fun flusher_run :: "'j json_lib \<Rightarrow> nat \<Rightarrow> jsonl_system \<Rightarrow> jsonl_system" where
  "flusher_run J 0 sy = sy"
| "flusher_run J (Suc n) sy = (case flusher_step J sy of None \<Rightarrow> sy | Some sy' \<Rightarrow> flusher_run J n sy')"

fun flusher_phase :: "flusher_pc \<Rightarrow> nat" where
  "flusher_phase (Writing _) = 3"
| "flusher_phase (Inserting _) = 2"
| "flusher_phase (Counting _) = 1"
| "flusher_phase _ = 0"

definition flusher_work :: "jsonl_system \<Rightarrow> nat" where
  "flusher_work sy = 4 * length (js_queue (sy_storage sy)) + flusher_phase (sy_flusher sy)"

lemma flusher_run_reachable:
  "jsonl_reachable J s0 sy \<Longrightarrow> jsonl_reachable J s0 (flusher_run J n sy)"
  by (induction n arbitrary: sy) (auto intro: reach_step step_flusher split: option.split)

lemma flusher_run_log [simp]: "sy_log (flusher_run J n sy) = sy_log sy"
  by (induction n arbitrary: sy) (auto split: option.split elim!: flusher_step_cases)

lemma flusher_work_decreases:
  assumes "flusher_step J sy = Some sy'" "sy_flusher sy' \<noteq> Stopped" "log_inv s0 sy"
  shows "flusher_work sy' < flusher_work sy"
  using assms(1)
proof (cases rule: flusher_step_cases)
  case (take batch s)
  from drain_queue_batch_Some(2) [OF take(2)] assms(3) have "batch \<noteq> []"
    by (simp add: log_inv_def Let_def unat_gt_0)
  then have "length (js_queue s) < length (js_queue (sy_storage sy))"
    by (simp add: drain_queue_batch_Some(1) [OF take(2)])
  then show ?thesis using take by (simp add: flusher_work_def)
qed (use assms(2) in \<open>auto simp: flusher_work_def insert_committed_def count_committed_def\<close>)

lemma flusher_not_stuck:
  assumes "js_closed (sy_storage sy)" "sy_flusher sy \<noteq> Stopped" "\<And>batch. sy_flusher sy \<noteq> Crashed batch"
  obtains sy' where "flusher_step J sy = Some sy'" "js_closed (sy_storage sy')"
proof (cases "flusher_step J sy")
  case None
  then show ?thesis
    using assms by (auto simp: flusher_step_def Let_def split: flusher_pc.splits option.splits prod.splits if_splits)
next
  case (Some sy')
  moreover from this have "js_closed (sy_storage sy')"
  proof (cases rule: flusher_step_cases)
    case (take batch s)
    have "js_closed s = js_closed (sy_storage sy)" by (subst drain_queue_batch_Some(3) [OF take(2)]) simp
    then show ?thesis using assms(1) take(3) by simp
  qed (use assms(1) in \<open>simp_all add: insert_committed_def count_committed_def\<close>)
  ultimately show ?thesis using that by blast
qed

lemma flusher_stops:
  assumes J: "json_laws J" and new: "new_JsonlAsyncStorage J config fp = Inr s0"
  shows "jsonl_reachable J s0 sy \<Longrightarrow> js_closed (sy_storage sy) \<Longrightarrow> list_all event_ok (sy_log sy) \<Longrightarrow>
    flusher_work sy < n \<Longrightarrow> sy_flusher (flusher_run J n sy) = Stopped"
proof (induction n arbitrary: sy)
  case (Suc n)
  note invs = reachable_invs [OF J new Suc.prems(1)]
  show ?case
  proof (cases "sy_flusher sy = Stopped")
    case True
    then show ?thesis by (simp add: flusher_step_def Let_def)
  next
    case False
    moreover have "sy_flusher sy \<noteq> Crashed batch" for batch
      using invs(2) Suc.prems(3) by (simp add: file_inv_def)
    ultimately obtain sy' where sy': "flusher_step J sy = Some sy'" "js_closed (sy_storage sy')"
      using flusher_not_stuck [OF Suc.prems(2)] by metis
    then have reach: "jsonl_reachable J s0 sy'" using Suc.prems(1) by (metis reach_step step_flusher)
    have log: "sy_log sy' = sy_log sy" using flusher_run_log [of J 1 sy] sy'(1) by simp
    show ?thesis
    proof (cases "sy_flusher sy' = Stopped")
      case True
      then have "flusher_step J sy' = None" by (simp add: flusher_step_def Let_def)
      then have "flusher_run J n sy' = sy'" by (cases n) simp_all
      then show ?thesis using sy'(1) True by simp
    next
      case False
      from flusher_work_decreases [OF sy'(1) False invs(1)] Suc.prems(4) have "flusher_work sy' < n" by simp
      from Suc.IH [OF reach sy'(2) _ this] Suc.prems(3) log show ?thesis using sy'(1) by simp
    qed
  qed
qed simp

section \<open>Properties\<close>

text \<open>What the file, read by a new storage object, gives back in any reachable state.\<close>

lemma reopen_reachable:
  assumes J: "json_laws J" and new: "new_JsonlAsyncStorage J config fp = Inr s0"
    and chars: "complete_lines (file_chars fp)" and off: "offsets_ok (js_committed_events s0)"
    and reach: "jsonl_reachable J s0 sy" and ok: "list_all event_ok (sy_log sy)"
    and bound: "unat (js_next_offset s0) + length (sy_log sy) \<le> 2 ^ 64"
    and path: "cf_file_path config' \<noteq> []" and good: "os_good (js_output (sy_storage sy))"
  obtains s1 written where
    "new_JsonlAsyncStorage J config' (reopened (os_content (js_output (sy_storage sy)))) = Inr s1"
    "js_committed_events s1 = js_committed_events (sy_storage sy) @ unpublished (sy_flusher sy)"
    "js_committed_events s1 = js_committed_events s0 @ written" "prefix written (sy_log sy)"
    "js_parse_errors s1 = js_parse_errors s0" "js_next_offset s1 = js_next_offset s0 + of_nat (length written)"
proof -
  note inv = reachable_invs(1) [OF J new reach] and fi = reachable_invs(2) [OF J new reach]
  let ?c = "js_committed_events (sy_storage sy)" and ?init = "js_committed_events s0"
  define written where "written = drop (length ?init) ?c @ unpublished (sy_flusher sy)"
  from inv have eq: "?c @ pending (sy_flusher sy) @ js_queue (sy_storage sy) = ?init @ sy_log sy"
    and len: "length ?init \<le> length ?c"
    and offs: "map se_offset (sy_log sy) = map (\<lambda>i. js_next_offset s0 + of_nat i) [0..<length (sy_log sy)]"
    unfolding log_inv_def Let_def by blast+
  have c: "?c = ?init @ drop (length ?init) ?c" using eq len by (metis append_eq_append_conv_if append_take_drop_id)
  then have lg: "sy_log sy = drop (length ?init) ?c @ pending (sy_flusher sy) @ js_queue (sy_storage sy)"
    using eq by (metis append_assoc same_append_eq)
  have pre: "prefix written (sy_log sy)"
    unfolding written_def lg by (cases "sy_flusher sy") simp_all
  then obtain rest where rest: "sy_log sy = written @ rest" by (auto simp: prefix_def)
  have "map se_offset written = take (length written) (map se_offset (sy_log sy))" by (simp add: rest)
  also have "\<dots> = map (\<lambda>i. js_next_offset s0 + of_nat i) [0..<length written]"
    using offs by (simp add: rest take_map)
  finally have offs': "map se_offset written = map (\<lambda>i. js_next_offset s0 + of_nat i) [0..<length written]" .
  have "list_all event_ok written" "unat (js_next_offset s0) + length written \<le> 2 ^ 64"
    using ok bound by (simp_all add: rest)
  from reopen_storage [OF J new chars off this(1) offs' this(2) path]
  obtain s1 where s1: "new_JsonlAsyncStorage J config' (reopened (file_chars fp @ lines_of J written)) = Inr s1"
    "js_committed_events s1 = ?init @ written" "js_parse_errors s1 = js_parse_errors s0"
    "js_next_offset s1 = js_next_offset s0 + of_nat (length written)" by blast
  moreover have "os_content (js_output (sy_storage sy)) = file_chars fp @ lines_of J written"
    using fi ok good by (simp add: file_inv_def written_def)
  moreover have "?init @ written = ?c @ unpublished (sy_flusher sy)"
    unfolding written_def using c by (metis append_assoc)
  ultimately show thesis using that [of s1 written] pre by simp
qed

text \<open>A new log, one accepted event, and the flusher run until it waits again.\<close>

definition example_jsonl_config :: JsonlAsyncStorageConfig where
  "example_jsonl_config =
     \<lparr>cf_file_path = ''log'', cf_queue_capacity = 4, cf_batch_size = 2, cf_start_flusher_thread = True\<rparr>"

definition no_file :: file_at_path where
  "no_file = \<lparr>fp_content = None, fp_readable = True, fp_writable = True\<rparr>"

definition example_jsonl :: JsonlAsyncStorage where
  "example_jsonl =
     \<lparr>js_config = example_jsonl_config, js_queue = [], js_queue_depth = 0, js_committed_events = [],
      js_output = \<lparr>os_content = [], os_buffer = [], os_open = True, os_good = True\<rparr>,
      js_closed = False, js_next_offset = 0, js_accepted = 0, js_rejected_backpressure = 0,
      js_committed = 0, js_flush_count = 0, js_parse_errors = 0\<rparr>"

definition example_accepted :: jsonl_system where
  "example_accepted =
     \<lparr>sy_storage = example_jsonl\<lparr>js_queue := [example_market ''X''], js_queue_depth := 1,
                                js_next_offset := 1, js_accepted := 1\<rparr>,
      sy_flusher = Waiting, sy_rt = \<lparr>order_id_counter = 0, clk = (\<lambda>n. int n)\<rparr>,
      sy_log = [example_market ''X'']\<rparr>"

definition example_flushed :: jsonl_system where
  "example_flushed = flusher_run reference_json (Suc (Suc (Suc (Suc 0)))) example_accepted"

lemma example_jsonl_new: "new_JsonlAsyncStorage reference_json example_jsonl_config no_file = Inr example_jsonl"
  by (simp add: new_JsonlAsyncStorage_def load_existing_file_def open_output_file_def example_jsonl_config_def
    no_file_def example_jsonl_def)

lemma example_accepted_reachable: "jsonl_reachable reference_json example_jsonl example_accepted"
proof -
  let ?start = "\<lparr>sy_storage = example_jsonl, sy_flusher = Waiting,
    sy_rt = \<lparr>order_id_counter = 0, clk = (\<lambda>n. int n)\<rparr>, sy_log = []\<rparr>"
  have "jsonl_append (example_market ''X'') (sy_storage ?start) (sy_rt ?start)
      = (True, sy_storage example_accepted, sy_rt ?start)"
    by (simp add: jsonl_append_def example_market_def payload_matches_type_def example_jsonl_def
      example_jsonl_config_def example_accepted_def)
  from reach_step [OF reach_start step_append [OF this]] show ?thesis
    by (simp add: example_accepted_def)
qed

lemma example_event_ok: "event_ok (example_market ''X'')"
  by (simp add: event_ok_def example_market_def payload_matches_type_def text_ok_def wf_buffer_def
    finite_double_def i64_range_def is_double_def round64_of_int [of 10, simplified] round64_of_int [of 1, simplified])

lemma example_flushed_eq:
  "example_flushed = example_accepted
     \<lparr>sy_storage := (sy_storage example_accepted)
        \<lparr>js_queue := [], js_queue_depth := 0, js_committed_events := [example_market ''X''], js_committed := 1,
         js_output := \<lparr>os_content = lines_of reference_json [example_market ''X''], os_buffer = [], os_open = True,
                       os_good = True\<rparr>\<rparr>\<rparr>"
  using write_lines_good [OF reference_json_laws, of "[example_market ''X'']" "js_output example_jsonl"] example_event_ok
  by (simp add: example_flushed_def example_accepted_def example_jsonl_def example_jsonl_config_def
    flusher_step_def drain_queue_batch_def write_file_def insert_committed_def count_committed_def Let_def
    del: write_lines.simps)

lemma example_flushed_reachable: "jsonl_reachable reference_json example_jsonl example_flushed"
  unfolding example_flushed_def by (rule flusher_run_reachable [OF example_accepted_reachable])

lemmas example_jsonl_hyps = reference_json_laws example_jsonl_new example_flushed_reachable

lemma example_jsonl_conds:
  "complete_lines (file_chars no_file)" "offsets_ok (js_committed_events example_jsonl)"
  "list_all event_ok (sy_log example_flushed)"
  "unat (js_next_offset example_jsonl) + length (sy_log example_flushed) \<le> 2 ^ 64"
  "cf_file_path example_jsonl_config \<noteq> []" "os_good (js_output (sy_storage example_flushed))"
  "length (js_committed_events example_jsonl) + length (sy_log example_flushed) < 2 ^ 64"
  "flush_satisfied (sy_storage example_flushed)"
  using example_event_ok
  by (simp_all add: complete_lines_def file_chars_def no_file_def example_jsonl_def offsets_ok_def example_flushed_eq
    example_accepted_def example_jsonl_config_def flush_satisfied_def)



lemma flush_satisfied_committed:
  assumes inv: "log_inv s0 sy" and "flush_satisfied (sy_storage sy)"
    and bound: "length (js_committed_events s0) + length (sy_log sy) < 2 ^ 64"
  shows "js_committed_events (sy_storage sy) = js_committed_events s0 @ sy_log sy"
    and "js_queue (sy_storage sy) = []" and "unpublished (sy_flusher sy) = []"
proof -
  let ?s = "sy_storage sy" and ?pc = "sy_flusher sy"
  have eq: "js_committed_events ?s @ pending ?pc @ js_queue ?s = js_committed_events s0 @ sy_log sy"
    and acc: "js_accepted ?s = of_nat (length (js_committed_events s0) + length (sy_log sy))"
    and com: "js_committed ?s + of_nat (length (uncounted ?pc)) = of_nat (length (js_committed_events ?s))"
    and depth: "js_queue_depth ?s = of_nat (length (js_queue ?s))" and pc: "flusher_ok ?pc ?s"
    using inv unfolding log_inv_def Let_def by blast+
  from arg_cong [OF eq, of length]
  have len: "length (js_committed_events ?s) + length (pending ?pc) + length (js_queue ?s)
    = length (js_committed_events s0) + length (sy_log sy)" by simp
  have "of_nat (length (js_queue ?s)) = (of_nat 0 :: u64)"
    using assms(2) depth by (simp add: flush_satisfied_def)
  then show queue: "js_queue ?s = []" using len bound by (subst (asm) of_nat_u64_inject) auto
  have le: "js_accepted ?s \<le> js_committed ?s" using assms(2) by (simp add: flush_satisfied_def)
  have none: "pending ?pc = []"
  proof (cases "uncounted ?pc = []")
    case True
    with com le acc
    have "(of_nat (length (js_committed_events s0) + length (sy_log sy)) :: u64) \<le> of_nat (length (js_committed_events ?s))"
      by simp
    then have "\<not> length (js_committed_events ?s) < length (js_committed_events s0) + length (sy_log sy)"
      using of_nat_u64_less [of "length (js_committed_events ?s)" "length (js_committed_events s0) + length (sy_log sy)"]
        bound by (metis len linorder_not_less add_lessD1 not_less_iff_gr_or_eq trans_less_add1)
    then have "length (pending ?pc) = 0" using len by linarith
    then show ?thesis by simp
  qed (cases ?pc, simp_all)
  with eq queue show "js_committed_events ?s = js_committed_events s0 @ sy_log sy" by simp
  show "unpublished ?pc = []" using none by (cases ?pc) simp_all
qed



text \<open>
  (C11) Closing is not lossy and ends. Once \<open>close\<close> has set the flag, the flusher thread, left to
  itself, reaches its end within \<open>4 * n + 4\<close> critical sections for \<open>n\<close> queued events, and then
  every accepted event is committed.
\<close>

theorem jsonl_close_drains:
  assumes "json_laws J" and "new_JsonlAsyncStorage J config fp = Inr s0"
    and "jsonl_reachable J s0 sy" and "list_all event_ok (sy_log sy)" and "js_closed (sy_storage sy)"
  defines "sy' \<equiv> flusher_run J (4 * length (js_queue (sy_storage sy)) + 4) sy"
  shows "sy_flusher sy' = Stopped \<and> js_queue (sy_storage sy') = [] \<and>
    js_committed_events (sy_storage sy') = js_committed_events s0 @ sy_log sy"
proof -
  have "flusher_work sy < 4 * length (js_queue (sy_storage sy)) + 4"
    by (cases "sy_flusher sy") (simp_all add: flusher_work_def)
  then have stop: "sy_flusher sy' = Stopped"
    unfolding sy'_def by (rule flusher_stops [OF assms(1-3,5,4)])
  have "log_inv s0 sy'"
    unfolding sy'_def by (rule reachable_invs(1) [OF assms(1,2) flusher_run_reachable [OF assms(3)]])
  then have "js_committed_events (sy_storage sy') @ pending (sy_flusher sy') @ js_queue (sy_storage sy')
      = js_committed_events s0 @ sy_log sy'" and "flusher_ok (sy_flusher sy') (sy_storage sy')"
    unfolding log_inv_def Let_def by blast+
  moreover have "sy_log sy' = sy_log sy" by (simp add: sy'_def)
  ultimately show ?thesis using stop by simp
qed

theorem jsonl_close_drains_witness:
  "js_committed_events (sy_storage (flusher_run reference_json 8
     (example_accepted\<lparr>sy_storage := (sy_storage example_accepted)\<lparr>js_closed := True\<rparr>\<rparr>))) = [example_market ''X'']"
proof -
  let ?sy = "example_accepted\<lparr>sy_storage := (sy_storage example_accepted)\<lparr>js_closed := True\<rparr>\<rparr>"
  have "jsonl_reachable reference_json example_jsonl ?sy"
    by (rule reach_step [OF example_accepted_reachable step_close])
  from jsonl_close_drains [OF example_jsonl_hyps(1,2) this] example_event_ok
  show ?thesis by (simp add: example_accepted_def example_jsonl_def)
qed

section \<open>Flushing without a flusher thread\<close>

text \<open>Between two calls of one thread, nothing is held by a flusher.\<close>

definition idle :: "JsonlAsyncStorage \<Rightarrow> bool" where
  "idle s \<longleftrightarrow>
     js_accepted s = js_committed s + of_nat (length (js_queue s)) \<and>
     js_queue_depth s = of_nat (length (js_queue s)) \<and>
     unat (js_committed s) + length (js_queue s) < 2 ^ 64 \<and> cf_batch_size (js_config s) \<noteq> 0"

lemma idle_satisfied: "idle s \<Longrightarrow> flush_satisfied s \<longleftrightarrow> js_queue s = []"
proof -
  assume idle: "idle s"
  have "of_nat (length (js_queue s)) = (0 :: u64) \<longleftrightarrow> js_queue s = []"
    using idle of_nat_u64_inject [of "length (js_queue s)" 0] by (simp add: idle_def)
  with idle show ?thesis by (auto simp: idle_def flush_satisfied_def)
qed

lemma write_batch_good:
  assumes "json_laws J" "list_all event_ok batch" "batch \<noteq> []"
  obtains out where "write_batch J batch s =
      (True, s\<lparr>js_output := out, js_committed_events := js_committed_events s @ batch,
               js_committed := js_committed s + of_nat (length batch)\<rparr>)" "os_good out = os_good (js_output s)"
  using assms write_lines_good [OF assms(1,2), of "js_output s"] write_lines_failed [OF assms(1,2), of "js_output s"]
  by (cases "os_good (js_output s)")
    (force simp: write_batch_def write_file_def insert_committed_def count_committed_def)+

lemma flush_without_worker_result:
  assumes J: "json_laws J"
  shows "idle s \<Longrightarrow> list_all event_ok (js_queue s) \<Longrightarrow>
    \<exists>r s' c'. flush_without_worker J deadline s c = Some (Returned r, s', c') \<and> idle s' \<and>
      js_committed_events s' @ js_queue s' = js_committed_events s @ js_queue s \<and>
      (r \<longrightarrow> js_queue s' = []) \<and>
      ((\<forall>n. c n \<le> deadline) \<longrightarrow> js_queue s' = [] \<and> r = os_good (js_output s))"
proof (induction "length (js_queue s)" arbitrary: s c rule: less_induct)
  case less
  show ?case
  proof (cases "js_queue s = []")
    case True
    then show ?thesis
      using less.prems idle_satisfied [OF less.prems(1)]
      by (subst flush_without_worker.simps)
        (auto simp: flush_output_def stream_flush_def Let_def idle_def)
  next
    case False
    show ?thesis
    proof (cases "deadline < c 0")
      case True
      have "\<not> (\<forall>n. c n \<le> deadline)" using True by (meson not_less)
      then show ?thesis
        using False True less.prems idle_satisfied [OF less.prems(1)]
        by (subst flush_without_worker.simps) (auto simp: Let_def split_beta)
    next
      case alive: False
      obtain batch s1 where drain: "drain_queue_batch (unat (cf_batch_size (js_config s))) s = Some (batch, s1)"
        using False by (cases "drain_queue_batch (unat (cf_batch_size (js_config s))) s") auto
      note d = drain_queue_batch_Some [OF drain]
      have batch: "batch \<noteq> []" using d(2) less.prems(1) by (simp add: idle_def unat_gt_0)
      have s1: "js_committed s1 = js_committed s" "js_accepted s1 = js_accepted s" "js_config s1 = js_config s"
        "js_committed_events s1 = js_committed_events s" "js_output s1 = js_output s"
        "js_queue_depth s1 = of_nat (length (js_queue s1))"
        by (subst d(3), simp)+
      have "list_all event_ok batch" "list_all event_ok (js_queue s1)" using less.prems(2) d(1) by simp_all
      then obtain out where w: "write_batch J batch s1 =
          (True, s1\<lparr>js_output := out, js_committed_events := js_committed_events s1 @ batch,
                   js_committed := js_committed s1 + of_nat (length batch)\<rparr>)"
          "os_good out = os_good (js_output s1)"
        using write_batch_good [OF J _ batch] by metis
      let ?s2 = "s1\<lparr>js_output := out, js_committed_events := js_committed_events s1 @ batch,
                   js_committed := js_committed s1 + of_nat (length batch)\<rparr>"
      have "unat (js_committed s + of_nat (length batch)) = unat (js_committed s) + length batch"
        using less.prems(1) d(1) unat_of_nat_u64 [of "unat (js_committed s) + length batch"] by (simp add: idle_def)
      then have "idle ?s2" using less.prems(1) d(1) s1 by (simp add: idle_def add.assoc)
      moreover have "length (js_queue ?s2) < length (js_queue s)" using d(1) batch by simp
      ultimately obtain r s' c' where IH:
        "flush_without_worker J deadline ?s2 (\<lambda>n. c (Suc n)) = Some (Returned r, s', c')" "idle s'"
        "js_committed_events s' @ js_queue s' = js_committed_events ?s2 @ js_queue ?s2"
        "r \<longrightarrow> js_queue s' = []"
        "(\<forall>n. c (Suc n) \<le> deadline) \<longrightarrow> js_queue s' = [] \<and> r = os_good (js_output ?s2)"
        using less.hyps [of ?s2 "\<lambda>n. c (Suc n)"] \<open>list_all event_ok (js_queue s1)\<close> by auto
      have "flush_without_worker J deadline s c = Some (Returned r, s', c')"
        using False alive idle_satisfied [OF less.prems(1)] drain w(1) IH(1)
        by (subst flush_without_worker.simps) (simp add: Let_def split_beta)
      then show ?thesis using IH(2-5) d(1) s1 w(2) by auto
    qed
  qed
qed

text \<open>
  (C23) Without a flusher thread \<open>flush\<close> always returns, whatever the clock shows: no event is lost
  or reordered, \<open>true\<close> means that the queue is empty and everything in it is committed, and if
  time does not run out before, the queue is emptied and the result tells whether the stream is
  good.
\<close>

theorem jsonl_flush_returns:
  assumes "json_laws J" and "idle s" and "list_all event_ok (js_queue s)"
  shows "\<exists>r s' c'. jsonl_flush J timeout s c = Some (Returned r, s', c') \<and>
    js_committed_events s' @ js_queue s' = js_committed_events s @ js_queue s \<and>
    (r \<longrightarrow> js_queue s' = []) \<and>
    ((\<forall>n. c n \<le> c 0 + timeout) \<longrightarrow> js_queue s' = [] \<and> r = os_good (js_output s))"
proof -
  let ?s = "s\<lparr>js_flush_count := js_flush_count s + 1\<rparr>"
  have "idle ?s" "list_all event_ok (js_queue ?s)" using assms(2,3) by (simp_all add: idle_def)
  from flush_without_worker_result [OF assms(1) this, of "c 0 + timeout" "\<lambda>n. c (Suc n)"]
  obtain r s' c' where "flush_without_worker J (c 0 + timeout) ?s (\<lambda>n. c (Suc n)) = Some (Returned r, s', c')"
    "js_committed_events s' @ js_queue s' = js_committed_events s @ js_queue s" "r \<longrightarrow> js_queue s' = []"
    "(\<forall>n. c (Suc n) \<le> c 0 + timeout) \<longrightarrow> js_queue s' = [] \<and> r = os_good (js_output s)" by auto
  then show ?thesis by (intro exI [of _ r] exI [of _ s'] exI [of _ c']) (simp add: jsonl_flush_def read_clock_def)
qed

theorem jsonl_flush_returns_witness:
  "\<exists>s' c'. jsonl_flush reference_json 10 (sy_storage example_accepted) (\<lambda>n. 0) = Some (Returned True, s', c') \<and>
    js_committed_events s' = [example_market ''X'']"
proof -
  have "idle (sy_storage example_accepted)" "list_all event_ok (js_queue (sy_storage example_accepted))"
    using example_event_ok
    by (simp_all add: idle_def example_accepted_def example_jsonl_def example_jsonl_config_def)
  from jsonl_flush_returns [OF reference_json_laws this, of 10 "\<lambda>n. 0"]
  show ?thesis by (auto simp: example_accepted_def example_jsonl_def)
qed

section \<open>The contract of IStorage\<close>

definition jsonl_log_inv :: "JsonlAsyncStorage \<Rightarrow> bool" where
  "jsonl_log_inv s \<longleftrightarrow> offsets_ok (js_committed_events s) \<and> list_all payload_matches_type (js_committed_events s)"

interpretation jsonl: event_log jsonl_log_inv js_committed_events jsonl_append jsonl_replay
proof
  fix s e rt rq
  have same: "js_committed_events (fst (snd (jsonl_append e s rt))) = js_committed_events s"
    using jsonl_append_output [of e s rt] by (metis prod.collapse)
  assume inv: "jsonl_log_inv s"
  then show "jsonl_log_inv (fst (snd (jsonl_append e s rt)))" by (simp add: jsonl_log_inv_def same)
  show "prefix (js_committed_events s) (js_committed_events (fst (snd (jsonl_append e s rt))))" by (simp add: same)
  show "jsonl_replay rq s = replay_events rq (js_committed_events s)" by (simp add: jsonl_replay_def)
  show "list_all payload_matches_type (js_committed_events s)" "offsets_ok (js_committed_events s)"
    using inv by (simp_all add: jsonl_log_inv_def)
qed

lemma payload_from_json_typed:
  assumes "payload_from_json J type v = Some payload" "se_type e = type" "se_payload e = payload"
  shows "payload_matches_type e"
  using assms by (cases type; cases payload) (auto simp: payload_from_json_def payload_matches_type_def)

lemma storage_event_from_json_typed:
  assumes "storage_event_from_json J v = Some e"
  shows "payload_matches_type e"
proof -
  obtain p where "payload_from_json J (se_type e) p = Some (se_payload e)"
    using assms by (auto simp: storage_event_from_json_def bind_eq_Some_conv split: if_splits)
  then show ?thesis by (rule payload_from_json_typed) simp_all
qed

lemma load_typed:
  "fold (load_line J) lines (events, errors) = (events', errors') \<Longrightarrow> list_all payload_matches_type events \<Longrightarrow>
   list_all payload_matches_type events'"
proof (induction lines arbitrary: events errors)
  case (Cons line lines)
  obtain ev er where l: "load_line J line (events, errors) = (ev, er)" by (metis prod.exhaust)
  then have "list_all payload_matches_type ev"
    using Cons.prems(2) storage_event_from_json_typed
    by (auto simp: load_line_def split: if_splits option.splits)
  with Cons.IH [of ev er] Cons.prems(1) l show ?case by simp
qed simp

lemma reachable_log_inv:
  assumes J: "json_laws J" and new: "new_JsonlAsyncStorage J config fp = Inr s0"
    and off: "offsets_ok (js_committed_events s0)" and reach: "jsonl_reachable J s0 sy"
    and bound: "unat (js_next_offset s0) + length (sy_log sy) < 2 ^ 64"
  shows "jsonl_log_inv (sy_storage sy)"
proof -
  let ?n = "unat (js_next_offset s0)" and ?m = "length (sy_log sy)" and ?s = "sy_storage sy"
  have inv: "js_committed_events ?s @ pending (sy_flusher sy) @ js_queue ?s = js_committed_events s0 @ sy_log sy"
    and offs: "map se_offset (sy_log sy) = map (\<lambda>i. js_next_offset s0 + of_nat i) [0..<?m]"
    and typed: "list_all payload_matches_type (sy_log sy)"
    using reachable_invs(1) [OF J new reach] unfolding log_inv_def Let_def by blast+
  have off': "map se_offset (sy_log sy) = map (\<lambda>i. of_nat (?n + i)) [0..<?m]" using offs by simp
  have less: "(of_nat (?n + i) :: u64) < of_nat (?n + j) \<longleftrightarrow> i < j" if "i < ?m" "j < ?m" for i j
    using that bound by (subst of_nat_u64_less) auto
  have top: "(of_nat (?n + i) :: u64) < - 1" if "i < ?m" for i
  proof -
    have "(of_nat (2 ^ 64 - 1) :: u64) = - 1" by simp
    then show ?thesis using that bound of_nat_u64_less [of "?n + i" "2 ^ 64 - 1"] by (simp only:)
  qed
  have above: "se_offset x < of_nat (?n + i)" if "x \<in> set (js_committed_events s0)" "i < ?m" for x i
  proof -
    have "unat (of_nat (?n + i) :: u64) = ?n + i" by (rule unat_of_nat_u64) (use that bound in simp)
    then show ?thesis
      using next_offset_bounds [OF new off that(1)] by (simp only: word_less_nat_alt)
  qed
  have "sorted_wrt (<) (map se_offset (js_committed_events s0 @ sy_log sy))"
  proof -
    have "sorted_wrt (<) (map (\<lambda>i. of_nat (?n + i) :: u64) [0..<?m])"
      using less by (auto simp: sorted_wrt_iff_nth_less)
    then show ?thesis
      unfolding map_append off' using off above by (auto simp: sorted_wrt_append offsets_ok_def)
  qed
  moreover have "se_offset x < - 1" if "x \<in> set (sy_log sy)" for x
  proof -
    have "se_offset x \<in> set (map (\<lambda>i. of_nat (?n + i)) [0..<?m])" using that by (metis off' image_eqI list.set_map)
    then show ?thesis using top by auto
  qed
  ultimately have all: "offsets_ok (js_committed_events s0 @ sy_log sy)" using off by (auto simp: offsets_ok_def)
  have "list_all payload_matches_type (js_committed_events s0)"
  proof (rule new_storage_facts [OF new], goal_cases)
    case (1 events)
    then show ?case using load_typed [OF 1(1)] by (simp add: list_all_iff)
  qed
  then have "list_all payload_matches_type (js_committed_events s0 @ sy_log sy)" using typed by simp
  then show ?thesis
    using all unfolding jsonl_log_inv_def inv [symmetric] by (auto simp: offsets_ok_def sorted_wrt_append)
qed

text \<open>
  (C24) Paged replay of the asynchronous log: at any moment of any interleaving, reading the
  committed events page by page ends and hands those that match the request to the handler
  exactly once and in order.
\<close>

theorem jsonl_replay_complete:
  assumes "json_laws J" and "new_JsonlAsyncStorage J config fp = Inr s0"
    and "offsets_ok (js_committed_events s0)" and "jsonl_reachable J s0 sy"
    and "unat (js_next_offset s0) + length (sy_log sy) < 2 ^ 64"
    and "length (js_committed_events (sy_storage sy)) < 2 ^ 64"
  shows "replay_run (\<lambda>rq _. jsonl_replay rq (sy_storage sy)) handle rq acc
    = Some (fold handle (filter (matches_replay_filter rq) (js_committed_events (sy_storage sy))) acc)"
  by (rule jsonl.replay_complete [OF reachable_log_inv [OF assms(1-5)] assms(6)])

theorem jsonl_replay_complete_witness:
  "replay_run (\<lambda>rq _. jsonl_replay rq (sy_storage example_flushed)) (\<lambda>e acc. acc @ [se_offset e])
     (request_ticker (Some ''X'') 1) [] = Some [0]"
proof -
  have "unat (js_next_offset example_jsonl) + length (sy_log example_flushed) < 2 ^ 64"
    "length (js_committed_events (sy_storage example_flushed)) < 2 ^ 64"
    by (simp_all add: example_jsonl_def example_flushed_eq example_accepted_def)
  note run = jsonl_replay_complete [OF example_jsonl_hyps(1,2) example_jsonl_conds(2) example_jsonl_hyps(3) this]
  have "filter (matches_replay_filter (request_ticker (Some ''X'') 1)) [example_market ''X''] = [example_market ''X'']"
    by (simp add: matches_replay_filter_def request_ticker_def event_ticker_def example_market_def)
  then show ?thesis unfolding run by (simp add: example_flushed_eq example_accepted_def example_market_def)
qed

section \<open>A torn last line\<close>

lemma getlines_no_break: "CHR 0x0A \<notin> set line \<Longrightarrow> line \<noteq> [] \<Longrightarrow> getlines line = [line]"
proof -
  assume a: "CHR 0x0A \<notin> set line" "line \<noteq> []"
  have "takeWhile (\<lambda>c. c \<noteq> CHR 0x0A) line = line" "dropWhile (\<lambda>c. c \<noteq> CHR 0x0A) line = []"
    using a(1) by (auto simp: takeWhile_eq_all_conv)
  then show ?thesis using a(2) by (subst getlines.simps) (simp only: if_False list.sel getlines_Nil)
qed



end
