(* ===== verification/Rate_Limiter.thy ===== *)
theory Rate_Limiter
  imports Prelude "HOL-Library.Signed_Division"
begin

text \<open>
  \<open>RateLimiter\<close> of \<open>include/core/order_executor.hpp\<close>: the number of requests granted in the current
  second and in the current tenth of a second of the steady clock. Only the executor's thread calls
  it, so each \<open>compare_exchange_strong\<close> succeeds. It is compared with a specification that looks
  at all the grants so far.
\<close>

record RateLimiter =
  max_requests_per_second :: u64
  max_requests_per_100ms :: u64
  requests_this_second :: u64
  requests_this_100ms :: u64
  current_second :: i64
  current_100ms :: i64

definition new_RateLimiter :: "u64 \<Rightarrow> u64 \<Rightarrow> RateLimiter" where
  "new_RateLimiter max_per_second max_per_100ms =
     \<lparr>max_requests_per_second = max_per_second, max_requests_per_100ms = max_per_100ms,
      requests_this_second = 0, requests_this_100ms = 0, current_second = 0, current_100ms = 0\<rparr>"

text \<open>\<open>ms\<close> is the reading of the steady clock in milliseconds; division truncates.\<close>

definition second_of :: "i64 \<Rightarrow> i64" where "second_of ms = ms sdiv 1000"
definition interval_100ms_of :: "i64 \<Rightarrow> i64" where "interval_100ms_of ms = ms sdiv 100"

definition try_acquire :: "i64 \<Rightarrow> RateLimiter \<Rightarrow> bool \<times> RateLimiter" where
  "try_acquire ms rl =
     (let second = second_of ms; interval_100ms = interval_100ms_of ms;
          rl = (if second \<noteq> current_second rl
                then rl\<lparr>current_second := second, requests_this_second := 0\<rparr> else rl);
          rl = (if interval_100ms \<noteq> current_100ms rl
                then rl\<lparr>current_100ms := interval_100ms, requests_this_100ms := 0\<rparr> else rl)
      in if max_requests_per_second rl \<le> requests_this_second rl \<or>
            max_requests_per_100ms rl \<le> requests_this_100ms rl
         then (False, rl)
         else (True, rl\<lparr>requests_this_second := requests_this_second rl + 1,
                        requests_this_100ms := requests_this_100ms rl + 1\<rparr>))"

definition rate_limiter_reset :: "RateLimiter \<Rightarrow> RateLimiter" where
  "rate_limiter_reset rl = rl\<lparr>requests_this_second := 0, requests_this_100ms := 0\<rparr>"

text \<open>The readings at which requests were granted, oldest first.\<close>

fun acquire_all :: "i64 list \<Rightarrow> RateLimiter \<Rightarrow> i64 list \<times> RateLimiter" where
  "acquire_all [] rl = ([], rl)"
| "acquire_all (ms # rest) rl =
     (let (ok, rl) = try_acquire ms rl; (granted, rl) = acquire_all rest rl
      in (if ok then ms # granted else granted, rl))"

section \<open>Specification\<close>

text \<open>A request is granted when fewer than the limit were granted in its second and its tenth.\<close>

definition granted_in :: "(i64 \<Rightarrow> i64) \<Rightarrow> i64 \<Rightarrow> i64 list \<Rightarrow> nat" where
  "granted_in window w granted = length (filter (\<lambda>t. window t = w) granted)"

fun grants_spec :: "nat \<Rightarrow> nat \<Rightarrow> i64 list \<Rightarrow> i64 list \<Rightarrow> i64 list" where
  "grants_spec per_second per_100ms granted [] = granted"
| "grants_spec per_second per_100ms granted (ms # rest) =
     grants_spec per_second per_100ms
       (if granted_in second_of (second_of ms) granted < per_second \<and>
           granted_in interval_100ms_of (interval_100ms_of ms) granted < per_100ms
        then granted @ [ms] else granted) rest"

lemma granted_in_simps [simp]:
  "granted_in window w [] = 0"
  "granted_in window w (granted @ [ms]) = granted_in window w granted + (if window ms = w then 1 else 0)"
  by (simp_all add: granted_in_def)

lemma grants_spec_bounded:
  "granted_in second_of w granted \<le> per_second \<Longrightarrow> granted_in interval_100ms_of v granted \<le> per_100ms \<Longrightarrow>
   granted_in second_of w (grants_spec per_second per_100ms granted ts) \<le> per_second \<and>
   granted_in interval_100ms_of v (grants_spec per_second per_100ms granted ts) \<le> per_100ms"
  by (induction per_second per_100ms granted ts rule: grants_spec.induct) auto

section \<open>The counters are the specification's\<close>

lemma sdiv_nonneg: "0 \<le> (a :: int) \<Longrightarrow> 0 < n \<Longrightarrow> a sdiv n = a div n"
  by (cases "a = 0") (simp_all add: signed_divide_int_def)

text \<open>
  After grants up to the reading \<open>now\<close>: each counter is the number of grants in its current
  window, and no grant is in a later window.
\<close>

definition limiter_inv :: "i64 \<Rightarrow> i64 list \<Rightarrow> RateLimiter \<Rightarrow> bool" where
  "limiter_inv now granted rl \<longleftrightarrow>
     unat (requests_this_second rl) = granted_in second_of (current_second rl) granted \<and>
     unat (requests_this_100ms rl) = granted_in interval_100ms_of (current_100ms rl) granted \<and>
     current_second rl \<le> second_of now \<and> current_100ms rl \<le> interval_100ms_of now \<and>
     (\<forall>t \<in> set granted. second_of t \<le> current_second rl \<and> interval_100ms_of t \<le> current_100ms rl)"

lemma granted_in_none: "(\<And>t. t \<in> set granted \<Longrightarrow> window t \<noteq> w) \<Longrightarrow> granted_in window w granted = 0"
  by (simp add: granted_in_def filter_empty_conv)

lemma unat_add_one:
  assumes "(a :: u64) < b"
  shows "unat (a + 1) = unat a + 1"
proof -
  have "unat a + 1 \<le> unat b" using assms by (simp add: word_less_nat_alt)
  also have "unat b < 2 ^ 64" by (rule order.strict_trans2 [OF unsigned_less]) simp
  finally show ?thesis by (simp add: unat_word_ariths)
qed

text \<open>Moving a counter to the window of the reading \<open>ms\<close>.\<close>

lemma move_window:
  assumes "unat n = granted_in window cur granted" and "\<forall>t \<in> set granted. window t \<le> cur" and "cur \<le> window ms"
  shows "unat (if window ms \<noteq> cur then 0 else n) = granted_in window (window ms) granted"
proof (cases "window ms = cur")
  case False
  then have "granted_in window (window ms) granted = 0" using assms(2,3) by (intro granted_in_none) fastforce
  then show ?thesis using False by simp
qed (use assms in simp)

lemma try_acquire_spec:
  assumes inv: "limiter_inv now granted rl" and ms: "0 \<le> now" "now \<le> ms" and r: "try_acquire ms rl = (ok, rl')"
  shows "(ok \<longleftrightarrow> granted_in second_of (second_of ms) granted < unat (max_requests_per_second rl) \<and>
              granted_in interval_100ms_of (interval_100ms_of ms) granted < unat (max_requests_per_100ms rl)) \<and>
    limiter_inv ms (if ok then granted @ [ms] else granted) rl' \<and>
    max_requests_per_second rl' = max_requests_per_second rl \<and> max_requests_per_100ms rl' = max_requests_per_100ms rl"
proof -
  define s where "s = (if second_of ms \<noteq> current_second rl then 0 else requests_this_second rl)"
  define t where "t = (if interval_100ms_of ms \<noteq> current_100ms rl then 0 else requests_this_100ms rl)"
  have mono: "second_of now \<le> second_of ms" "interval_100ms_of now \<le> interval_100ms_of ms"
    using ms by (simp_all add: second_of_def interval_100ms_of_def sdiv_nonneg zdiv_mono1)
  have cs: "unat s = granted_in second_of (second_of ms) granted"
    unfolding s_def using inv mono by (intro move_window) (auto simp: limiter_inv_def)
  have ct: "unat t = granted_in interval_100ms_of (interval_100ms_of ms) granted"
    unfolding t_def using inv mono by (intro move_window) (auto simp: limiter_inv_def)
  have ok: "ok \<longleftrightarrow> s < max_requests_per_second rl \<and> t < max_requests_per_100ms rl"
    and rl': "rl' = rl\<lparr>current_second := second_of ms, current_100ms := interval_100ms_of ms,
      requests_this_second := (if ok then s + 1 else s), requests_this_100ms := (if ok then t + 1 else t)\<rparr>"
    using r by (auto simp: try_acquire_def Let_def not_le s_def t_def split: if_splits)
  have later: "\<forall>u \<in> set granted. second_of u \<le> second_of ms \<and> interval_100ms_of u \<le> interval_100ms_of ms"
    using inv mono by (fastforce simp: limiter_inv_def)
  have "limiter_inv ms (if ok then granted @ [ms] else granted) rl'"
    using ok cs ct later unat_add_one [of s "max_requests_per_second rl"] unat_add_one [of t "max_requests_per_100ms rl"]
    by (simp add: limiter_inv_def rl')
  then show ?thesis using ok cs ct by (simp add: rl' word_less_nat_alt)
qed

lemma acquire_all_spec:
  "limiter_inv now granted rl \<Longrightarrow> 0 \<le> now \<Longrightarrow> sorted (now # ts) \<Longrightarrow>
   granted @ fst (acquire_all ts rl)
     = grants_spec (unat (max_requests_per_second rl)) (unat (max_requests_per_100ms rl)) granted ts"
proof (induction ts arbitrary: now granted rl)
  case (Cons ms rest)
  obtain ok rl' where r: "try_acquire ms rl = (ok, rl')" by (cases "try_acquire ms rl")
  note sp = try_acquire_spec [OF Cons.prems(1,2) _ r]
  have "now \<le> ms" and "sorted (ms # rest)" using Cons.prems(3) by simp_all
  with Cons.IH [of ms "if ok then granted @ [ms] else granted" rl'] sp Cons.prems(2)
  show ?case by (auto simp: r case_prod_beta Let_def split: if_splits)
qed simp

text \<open>
  (C10) With readings of the steady clock that never go back, the limiter grants exactly the
  requests the specification grants: those whose second and tenth of a second have room. So no
  calendar second ever has more than \<open>max_per_second\<close> grants, no tenth more than \<open>max_per_100ms\<close>,
  and no request is refused while both have room.
\<close>

theorem rate_limiter_exact:
  assumes "sorted ts" and "list_all (\<lambda>t. 0 \<le> t) ts"
    and "fst (acquire_all ts (new_RateLimiter per_second per_100ms)) = granted"
  shows "granted = grants_spec (unat per_second) (unat per_100ms) [] ts \<and>
    granted_in second_of w granted \<le> unat per_second \<and>
    granted_in interval_100ms_of v granted \<le> unat per_100ms"
proof -
  have "sorted (0 # ts)" using assms(1,2) by (simp add: list_all_iff)
  then have "granted = grants_spec (unat per_second) (unat per_100ms) [] ts"
    using acquire_all_spec [of 0 "[]" "new_RateLimiter per_second per_100ms" ts] assms(3)
    by (simp add: limiter_inv_def new_RateLimiter_def second_of_def interval_100ms_of_def)
  then show ?thesis using grants_spec_bounded [of w "[]" "unat per_second" v "unat per_100ms" ts] by simp
qed

theorem rate_limiter_exact_witness:
  "fst (acquire_all [10, 20, 30, 110, 120, 1000] (new_RateLimiter 3 2)) = [10, 20, 110, 1000] \<and>
   granted_in second_of 0 [10, 20, 110, 1000] \<le> 3 \<and> granted_in interval_100ms_of 0 [10, 20, 110, 1000] \<le> 2"
proof -
  have limits: "\<not> (3 :: u64) \<le> 1" "\<not> (2 :: u64) \<le> 1" "(3 :: u64) \<le> 3" by (simp_all add: word_le_nat_alt)
  have granted: "fst (acquire_all [10, 20, 30, 110, 120, 1000] (new_RateLimiter 3 2)) = [10, 20, 110, 1000]"
    by (simp add: try_acquire_def new_RateLimiter_def second_of_def interval_100ms_of_def sdiv_nonneg limits)
  have "sorted [10, 20, 30, 110, 120, 1000 :: i64]" "list_all (\<lambda>t. 0 \<le> t) [10, 20, 30, 110, 120, 1000 :: i64]"
    by simp_all
  note bounds = rate_limiter_exact [OF this granted, of 0 0]
  have "unat (3 :: u64) = 3" "unat (2 :: u64) = 2" by simp_all
  then show ?thesis using granted bounds by metis
qed

end
