(* ===== verification/Number_Text.thy ===== *)
theory Number_Text
  imports Double
begin

text \<open>
  Numbers as text, the parts of the C++ standard library that the exchange protocol uses:
  \<open>std::to_string\<close> on unsigned integers, \<open>std::stoull\<close>, \<open>std::stoll\<close>, \<open>std::stod\<close> (exceptions
  are \<open>None\<close>; all three ignore what follows the number) and the conversion \<open>%.8f\<close> of
  \<open>snprintf\<close>.
\<close>

section \<open>Decimal digits\<close>

definition digit :: "nat \<Rightarrow> char" where
  "digit n = char_of (48 + n)"

definition is_digit :: "char \<Rightarrow> bool" where
  "is_digit c \<longleftrightarrow> (48 :: nat) \<le> of_char c \<and> of_char c \<le> (57 :: nat)"

definition digit_val :: "char \<Rightarrow> nat" where
  "digit_val c = of_char c - 48"

fun decimal :: "nat \<Rightarrow> string" where
  "decimal n = (if n < 10 then [digit n] else decimal (n div 10) @ [digit (n mod 10)])"

declare decimal.simps [simp del]

definition decimal_val :: "string \<Rightarrow> nat" where
  "decimal_val s = foldl (\<lambda>a c. 10 * a + digit_val c) 0 s"

definition u64_to_string :: "u64 \<Rightarrow> string" where
  "u64_to_string n = decimal (unat n)"

lemma of_char_digit: "n < 10 \<Longrightarrow> (of_char (digit n) :: nat) = 48 + n"
  by (simp add: digit_def)

lemma digit_facts [simp]: "n < 10 \<Longrightarrow> is_digit (digit n)" "n < 10 \<Longrightarrow> digit_val (digit n) = n"
  by (simp_all add: is_digit_def digit_val_def of_char_digit)

lemma decimal_val_simps [simp]:
  "decimal_val [] = 0" "decimal_val (s @ [c]) = 10 * decimal_val s + digit_val c"
  by (simp_all add: decimal_val_def)

lemma decimal_digits [simp]: "list_all is_digit (decimal n)"
proof (induction n rule: decimal.induct)
  case (1 n)
  then show ?case by (cases "n < 10") (subst decimal.simps, simp)+
qed

lemma decimal_not_Nil [simp]: "decimal n \<noteq> []"
  by (subst decimal.simps) simp

lemma decimal_val_decimal [simp]: "decimal_val (decimal n) = n"
proof (induction n rule: decimal.induct)
  case (1 n)
  have "decimal_val [digit n] = n" if "n < 10" using that decimal_val_simps(2) [of "[]"] by simp
  with 1 show ?case by (cases "n < 10") (subst decimal.simps, simp)+
qed

lemma decimal_length: "n < 10 ^ k \<Longrightarrow> 0 < k \<Longrightarrow> length (decimal n) \<le> k"
proof (induction n arbitrary: k rule: decimal.induct)
  case (1 n)
  show ?case
  proof (cases "n < 10")
    case True
    then show ?thesis using "1.prems" by (subst decimal.simps) simp
  next
    case False
    then obtain m where k: "k = Suc (Suc m)" using "1.prems"
      by (cases k; cases "k - 1") auto
    then have "length (decimal (n div 10)) \<le> Suc m"
      using False "1.prems" by (intro "1.IH") (auto simp: less_mult_imp_div_less)
    then show ?thesis using False k by (subst decimal.simps) simp
  qed
qed

section \<open>Scanning\<close>

definition isspace :: "char \<Rightarrow> bool" where
  "isspace c \<longleftrightarrow> (of_char c :: nat) \<in> {9, 10, 11, 12, 13, 32}"

definition take_sign :: "string \<Rightarrow> bool \<times> string" where
  "take_sign s =
     (case s of
        [] \<Rightarrow> (False, s)
      | c # r \<Rightarrow> if c = CHR ''-'' then (True, r) else if c = CHR ''+'' then (False, r) else (False, s))"

definition scan_sign :: "string \<Rightarrow> bool \<times> string" where
  "scan_sign s = take_sign (dropWhile isspace (c_str s))"

text \<open>\<open>strtoull\<close> accepts a minus sign and negates modulo \<open>2 ^ 64\<close>.\<close>

definition stoull :: "string \<Rightarrow> u64 option" where
  "stoull s =
     (let (neg, r) = scan_sign s; ds = takeWhile is_digit r; v = decimal_val ds
      in if ds = [] then None
         else if 2 ^ 64 \<le> v then None
         else Some (if neg then - of_nat v else of_nat v))"

definition stoll :: "string \<Rightarrow> i64 option" where
  "stoll s =
     (let (neg, r) = scan_sign s; ds = takeWhile is_digit r; v = int (decimal_val ds)
      in if ds = [] then None
         else if neg then (if 2 ^ 63 < v then None else Some (- v))
         else (if 2 ^ 63 \<le> v then None else Some v))"

text \<open>The exponent part of a floating-point number: \<open>e\<close>, a sign and digits, or nothing.\<close>

definition scan_exponent :: "char set \<Rightarrow> string \<Rightarrow> int" where
  "scan_exponent marks s =
     (case s of
        [] \<Rightarrow> 0
      | c # r \<Rightarrow>
          if c \<notin> marks then 0
          else
            let (neg, r) = take_sign r; ds = takeWhile is_digit r; v = int (decimal_val ds)
            in if neg then - v else v)"

definition scan_decimal :: "string \<Rightarrow> rat option" where
  "scan_decimal r =
     (let ds = takeWhile is_digit r; r = dropWhile is_digit r;
          (fs, r) = (case r of
                       [] \<Rightarrow> ([], r)
                     | c # r' \<Rightarrow> if c = CHR ''.'' then (takeWhile is_digit r', dropWhile is_digit r') else ([], r));
          e = scan_exponent {CHR ''e'', CHR ''E''} r
      in if ds = [] \<and> fs = [] then None
         else Some (of_nat (decimal_val (ds @ fs)) * 10 powi (e - int (length fs))))"

definition is_hex_digit :: "char \<Rightarrow> bool" where
  "is_hex_digit c \<longleftrightarrow> is_digit c \<or> c \<in> set ''abcdefABCDEF''"

definition hex_digit_val :: "char \<Rightarrow> nat" where
  "hex_digit_val c =
     (if is_digit c then digit_val c
      else if (97 :: nat) \<le> of_char c then of_char c - 87 else of_char c - 55)"

definition hex_val :: "string \<Rightarrow> nat" where
  "hex_val s = foldl (\<lambda>a c. 16 * a + hex_digit_val c) 0 s"

definition scan_hex :: "string \<Rightarrow> rat option" where
  "scan_hex r =
     (let ds = takeWhile is_hex_digit r; r = dropWhile is_hex_digit r;
          (fs, r) = (case r of
                       [] \<Rightarrow> ([], r)
                     | c # r' \<Rightarrow> if c = CHR ''.'' then (takeWhile is_hex_digit r', dropWhile is_hex_digit r')
                                else ([], r));
          e = scan_exponent {CHR ''p'', CHR ''P''} r
      in if ds = [] \<and> fs = [] then None
         else Some (of_nat (hex_val (ds @ fs)) * 2 powi (e - 4 * int (length fs))))"

definition to_lower :: "char \<Rightarrow> char" where
  "to_lower c = (if (65 :: nat) \<le> of_char c \<and> of_char c \<le> (90 :: nat) then char_of ((of_char c :: nat) + 32) else c)"

text \<open>
  \<open>stod\<close> throws when there is no number, when it is too large, and when it is so small that the
  nearest double is subnormal and differs from it (\<open>ERANGE\<close>). The prefix \<open>0x\<close> starts a
  hexadecimal number when a hexadecimal digit follows; otherwise the number is the \<open>0\<close>.
\<close>

definition scan_number :: "string \<Rightarrow> rat option" where
  "scan_number r =
     (if map to_lower (take 2 r) = ''0x'' \<and> scan_hex (drop 2 r) \<noteq> None then scan_hex (drop 2 r)
      else scan_decimal r)"

definition stod :: "string \<Rightarrow> double option" where
  "stod s =
     (let (neg, r) = scan_sign s
      in if map to_lower (take 3 r) = ''inf'' then Some (if neg then NInf else PInf)
         else if map to_lower (take 3 r) = ''nan'' then Some NaN
         else case scan_number r of
           None \<Rightarrow> None
         | Some x \<Rightarrow>
             let x = (if neg then - x else x)
             in case round64 x of
                  Fin y \<Rightarrow> if y \<noteq> x \<and> \<bar>x\<bar> < 2 powi (- 1022) then None else Some (Fin y)
                | _ \<Rightarrow> None)"

lemma take_sign_digit: "is_digit c \<Longrightarrow> take_sign (c # r) = (False, c # r)"
  by (auto simp: take_sign_def is_digit_def)

lemma is_digit_not: "is_digit c \<Longrightarrow> \<not> isspace c \<and> c \<noteq> CHR 0x00 \<and> c \<noteq> CHR ''.'' \<and> c \<noteq> CHR ''-''"
  by (auto simp: is_digit_def isspace_def)

lemma scan_sign_digits:
  assumes "ds \<noteq> []" "list_all is_digit ds" "CHR 0x00 \<notin> set r"
  shows "scan_sign (ds @ r) = (False, ds @ r)"
proof -
  obtain c ds' where ds: "ds = c # ds'" and c: "is_digit c" using assms by (cases ds) auto
  have "CHR 0x00 \<notin> set (ds @ r)" using assms(2,3) is_digit_not by (auto simp: list_all_iff)
  then show ?thesis using ds c is_digit_not [OF c] by (simp add: scan_sign_def take_sign_digit)
qed

lemma scan_sign_minus:
  assumes "ds \<noteq> []" "list_all is_digit ds" "CHR 0x00 \<notin> set r"
  shows "scan_sign (CHR ''-'' # ds @ r) = (True, ds @ r)"
proof -
  have "CHR 0x00 \<notin> set (CHR ''-'' # ds @ r)" using assms(2,3) is_digit_not by (auto simp: list_all_iff)
  then show ?thesis by (simp add: scan_sign_def isspace_def take_sign_def)
qed

lemma takeWhile_digits: "list_all is_digit ds \<Longrightarrow> takeWhile is_digit (ds @ r) = ds @ takeWhile is_digit r"
  by (induction ds) auto

lemma dropWhile_digits: "list_all is_digit ds \<Longrightarrow> dropWhile is_digit (ds @ r) = dropWhile is_digit r"
  by (induction ds) auto

lemma stoull_to_string [simp]: "stoull (u64_to_string n) = Some n"
proof -
  have "unat n < 2 ^ 64" by (rule order.strict_trans2 [OF unsigned_less]) simp
  then show ?thesis
    using scan_sign_digits [of "decimal (unat n)" "[]"]
    by (simp add: stoull_def u64_to_string_def not_le takeWhile_digits [of "decimal (unat n)" "[]", simplified append_Nil2]
      del: takeWhile_eq_all_conv)
qed

section \<open>The conversion \<open>%.8f\<close>\<close>

text \<open>
  \<open>printf\<close> rounds the exact value to eight decimals, ties to even. \<open>snprintf(buf, 32, \<dots>)\<close>
  keeps the first 31 characters.
\<close>

definition pad8 :: "string \<Rightarrow> string" where
  "pad8 s = replicate (8 - length s) CHR ''0'' @ s"

definition fixed8 :: "rat \<Rightarrow> nat" where
  "fixed8 v = nat (round_half_even (\<bar>v\<bar> * 10 ^ 8))"

definition print_f8 :: "double \<Rightarrow> string" where
  "print_f8 x =
     (case x of
        NaN \<Rightarrow> ''nan''
      | PInf \<Rightarrow> ''inf''
      | NInf \<Rightarrow> ''-inf''
      | Fin v \<Rightarrow>
          (if v < 0 then ''-'' else []) @ decimal (fixed8 v div 10 ^ 8) @ CHR ''.'' #
          pad8 (decimal (fixed8 v mod 10 ^ 8)))"

definition snprintf_f8 :: "nat \<Rightarrow> double \<Rightarrow> string" where
  "snprintf_f8 n x = take (n - 1) (print_f8 x)"

text \<open>\<open>find\<close> and \<open>find_last_not_of\<close> of \<open>std::string\<close>; \<open>npos\<close> is \<open>None\<close>.\<close>

definition find_char :: "char \<Rightarrow> string \<Rightarrow> nat option" where
  "find_char c s = (let n = length (takeWhile (\<lambda>d. d \<noteq> c) s) in if n = length s then None else Some n)"

definition find_last_not_of :: "char \<Rightarrow> string \<Rightarrow> nat option" where
  "find_last_not_of c s = (let n = length (dropWhile (\<lambda>d. d = c) (rev s)) in if n = 0 then None else Some (n - 1))"

lemma find_char_append: "c \<notin> set a \<Longrightarrow> find_char c (a @ c # b) = Some (length a)"
proof -
  assume "c \<notin> set a"
  then have "takeWhile (\<lambda>d. d \<noteq> c) (a @ c # b) = a" by (simp add: takeWhile_append takeWhile_eq_all_conv)
  then show ?thesis by (simp add: find_char_def)
qed

lemma find_last_not_of_append:
  "d \<noteq> c \<Longrightarrow> find_last_not_of c (a @ d # replicate k c) = Some (length a)"
proof -
  assume "d \<noteq> c"
  moreover have "dropWhile (\<lambda>d. d = c) (replicate k c @ b) = dropWhile (\<lambda>d. d = c) b" for b
    by (induction k) auto
  ultimately have "dropWhile (\<lambda>d. d = c) (rev (a @ d # replicate k c)) = d # rev a" by simp
  then show ?thesis by (simp add: find_last_not_of_def)
qed

lemma decimal_val_append: "decimal_val (a @ b) = decimal_val a * 10 ^ length b + decimal_val b"
proof (induction b rule: rev_induct)
  case (snoc c b)
  then show ?case
    by (simp del: append_assoc add: append_assoc [symmetric] add: algebra_simps)
qed simp

lemma decimal_val_Cons: "decimal_val (c # s) = digit_val c * 10 ^ length s + decimal_val s"
  using decimal_val_append [of "[c]" s] decimal_val_simps(2) [of "[]" c] by simp

lemma decimal_val_zeros: "decimal_val (replicate k CHR ''0'') = 0"
  by (induction k) (simp_all add: decimal_val_Cons digit_val_def)

lemma pad8_facts:
  assumes "n < 10 ^ 8"
  shows "length (pad8 (decimal n)) = 8" "decimal_val (pad8 (decimal n)) = n" "list_all is_digit (pad8 (decimal n))"
proof -
  show "length (pad8 (decimal n)) = 8" using decimal_length [OF assms] by (simp add: pad8_def)
  show "decimal_val (pad8 (decimal n)) = n" by (simp add: pad8_def decimal_val_append decimal_val_zeros)
  show "list_all is_digit (pad8 (decimal n))"
    using decimal_digits [of n] by (auto simp: pad8_def list_all_iff is_digit_def)
qed

text \<open>Digits followed by zeros.\<close>

lemma strip_zeros:
  obtains fs k where "ds = fs @ replicate k CHR ''0''" "fs = [] \<or> last fs \<noteq> CHR ''0''"
proof (induction ds rule: rev_induct)
  case (snoc c ds)
  show ?case
  proof (cases "c = CHR ''0''")
    case True
    show ?thesis
    proof (rule snoc.IH)
      fix fs k
      assume "ds = fs @ replicate k CHR ''0''" "fs = [] \<or> last fs \<noteq> CHR ''0''"
      with True show ?thesis by (intro snoc.prems [of fs "Suc k"]) (simp_all add: replicate_append_same)
    qed
  qed (use snoc.prems [of "ds @ [c]" 0] in simp)
qed (metis append_Nil replicate_0)

lemma scan_decimal_fraction:
  assumes "ds \<noteq> []" "list_all is_digit ds" "list_all is_digit fs"
  shows "scan_decimal (ds @ CHR ''.'' # fs) = Some (of_nat (decimal_val (ds @ fs)) * 10 powi - int (length fs))"
    and "scan_decimal ds = Some (of_nat (decimal_val ds))"
proof -
  have dot: "\<not> is_digit CHR ''.''" by (simp add: is_digit_def)
  have all: "takeWhile is_digit fs = fs" "dropWhile is_digit fs = []" "takeWhile is_digit ds = ds"
    "dropWhile is_digit ds = []"
    using assms by (auto simp: takeWhile_eq_all_conv dropWhile_eq_Nil_conv list_all_iff)
  show "scan_decimal (ds @ CHR ''.'' # fs) = Some (of_nat (decimal_val (ds @ fs)) * 10 powi - int (length fs))"
    and "scan_decimal ds = Some (of_nat (decimal_val ds))"
    using assms(1)
    by (simp_all add: scan_decimal_def scan_exponent_def dot all takeWhile_digits [OF assms(2)]
      dropWhile_digits [OF assms(2)] del: takeWhile_eq_all_conv dropWhile_eq_Nil_conv)
qed

section \<open>Rounding to a decimal and back\<close>

lemma round_half_even_error: "\<bar>of_int (round_half_even x) - x\<bar> \<le> 1 / 2"
proof -
  define f where "f = rat_of_int \<lfloor>x\<rfloor>"
  have "f \<le> x" "x < f + 1" unfolding f_def by linarith+
  then show ?thesis by (auto simp: round_half_even_def Let_def abs_if f_def [symmetric])
qed

lemma round_half_even_near: "\<bar>x - of_int n\<bar> < 1 / 2 \<Longrightarrow> round_half_even x = n"
proof -
  assume near: "\<bar>x - of_int n\<bar> < 1 / 2"
  show ?thesis
  proof (cases "of_int n \<le> x")
    case True
    then have "\<lfloor>x\<rfloor> = n" using near by (intro floor_unique) auto
    then show ?thesis using near True by (simp add: round_half_even_def Let_def)
  next
    case False
    then have "\<lfloor>x\<rfloor> = n - 1" using near by (intro floor_unique) auto
    then show ?thesis using near False by (simp add: round_half_even_def Let_def abs_if split: if_splits)
  qed
qed

lemma nearest_error: "\<bar>nearest r - r\<bar> \<le> 2 powi (expo r - 53)"
proof -
  let ?u = "(2 :: rat) powi (expo r - 52)"
  have "nearest r - r = (of_int (mant r) - r / ?u) * ?u" by (simp add: nearest_def left_diff_distrib)
  then have "\<bar>nearest r - r\<bar> = \<bar>of_int (mant r) - r / ?u\<bar> * ?u" by (simp add: abs_mult)
  also have "\<dots> \<le> 1 / 2 * ?u"
    unfolding mant_def by (intro mult_right_mono round_half_even_error) (simp add: less_imp_le)
  also have "\<dots> = 2 powi (expo r - 53)" using powi_Suc [of "expo r - 53"] by simp
  finally show ?thesis .
qed

lemma nearest_relative_error:
  assumes "0 < r" "-1022 < expo r"
  shows "\<bar>nearest r - r\<bar> \<le> r / 2 ^ 53"
proof -
  have "2 powi (expo r) = 2 ^ 53 * (2 :: rat) powi (expo r - 53)"
    using power_int_add [of "2 :: rat" 53 "expo r - 53"] by simp
  then show ?thesis using nearest_error [of r] expo_lower [OF assms] by (simp add: field_simps)
qed

text \<open>
  A decimal with eight places below \<open>2 ^ 52\<close> units is recovered from the double nearest to it.
\<close>

lemma fixed8_nearest:
  assumes "0 \<le> k" "k < 2 ^ 52"
  shows "fixed8 (nearest (of_int k / 10 ^ 8)) = nat k"
proof (cases "k = 0")
  case False
  let ?r = "of_int k / 10 ^ 8 :: rat"
  have r: "0 < ?r" using False assms by simp
  have "(2 :: rat) powi -30 \<le> ?r"
    using False assms by (simp add: power_int_minus field_simps)
  then have "-30 \<le> ilog2 ?r" using ilog2_bounds [OF r] by (meson powi_less_iff le_less_trans not_less zle_add1_eq_le)
  then have "-1022 < expo ?r" using r by (simp add: expo_def)
  from nearest_relative_error [OF r this]
  have "\<bar>nearest ?r * 10 ^ 8 - of_int k\<bar> \<le> of_int k / 2 ^ 53" by (simp add: abs_le_iff field_simps)
  also have "\<dots> < 1 / 2"
  proof -
    have "(of_int k :: rat) < of_int (2 ^ 52)" using assms(2) by (simp only: of_int_less_iff)
    then show ?thesis by simp
  qed
  finally have "round_half_even (nearest ?r * 10 ^ 8) = k" by (rule round_half_even_near)
  moreover have "0 \<le> nearest ?r" by (rule nearest_nonneg) (use r in simp)
  ultimately show ?thesis by (simp add: fixed8_def)
qed (simp add: fixed8_def round_half_even_of_int [of 0, simplified])

lemma fixed8_uminus [simp]: "fixed8 (- v) = fixed8 v"
  by (simp add: fixed8_def)

end
