(* ===== verification/Auth.thy ===== *)
theory Auth
  imports Json Number_Text "HOL-Library.List_Lexorder" "HOL-Library.Char_ord"
begin

text \<open>
  \<open>include/exchange/auth_handler.hpp\<close>: the signature of a request. The digest of OpenSSL,
  \<open>HMAC(EVP_sha256(), key, data)\<close>, is the argument \<open>hmac\<close>, and the JSON library the argument
  \<open>J\<close>. The parameter string lists the members of the parameters in the order of their keys, which
  makes it a function of the members alone (\<open>parameter_string_cong\<close>): the exchange, which parses
  the request, computes the same one.
\<close>

type_synonym hmac_fn = "string \<Rightarrow> string \<Rightarrow> u8 list"

record AuthHandler =
  api_key :: string
  api_secret :: string

section \<open>Digests\<close>

definition hex_digit :: "u8 \<Rightarrow> char" where
  "hex_digit n = (if n < 10 then char_of (48 + unat n) else char_of (87 + unat n))"

definition hex_byte :: "u8 \<Rightarrow> string" where
  "hex_byte b = [hex_digit (drop_bit 4 b), hex_digit (b AND 15)]"

definition hmac_sha256 :: "hmac_fn \<Rightarrow> AuthHandler \<Rightarrow> string \<Rightarrow> string" where
  "hmac_sha256 hmac auth data = concat (map hex_byte (hmac (api_secret auth) data))"

definition sign_string :: "hmac_fn \<Rightarrow> AuthHandler \<Rightarrow> string \<Rightarrow> u64 \<Rightarrow> string \<Rightarrow> u64 \<Rightarrow> string" where
  "sign_string hmac auth method req_id params_string nonce =
     hmac_sha256 hmac auth
       (method @ u64_to_string req_id @ api_key auth @ params_string @ u64_to_string nonce)"

definition is_configured :: "AuthHandler \<Rightarrow> bool" where
  "is_configured auth \<longleftrightarrow> api_key auth \<noteq> [] \<and> api_secret auth \<noteq> []"

text \<open>A reading of the system clock in milliseconds, converted to \<open>uint64_t\<close>.\<close>

definition current_timestamp_ms :: "clock \<Rightarrow> u64 \<times> clock" where
  "current_timestamp_ms c = (let (now, c) = read_clock c in (of_int now, c))"

section \<open>The parameter string\<close>

definition scalar_to_string :: "'j json_lib \<Rightarrow> 'j \<Rightarrow> string option" where
  "scalar_to_string J v =
     (if j_type J v = VString then j_get_string J v
      else if j_type J v = VNull then Some ''null''
      else if j_type J v = VBoolean
      then map_option (\<lambda>b. if b then ''true'' else ''false'') (j_get_bool J v)
      else j_dump J v)"

definition kMaxNestedLevel :: nat where
  "kMaxNestedLevel = 3"

text \<open>The strings of a list of pieces, one after the other; an exception in any of them is one.\<close>

definition join_pieces :: "string option list \<Rightarrow> string option" where
  "join_pieces ps = (if None \<in> set ps then None else Some (concat (map the ps)))"

function append_parameter_string :: "'j json_lib \<Rightarrow> 'j \<Rightarrow> nat \<Rightarrow> string option" where
  "append_parameter_string J v level =
     (if kMaxNestedLevel \<le> level \<or> is_primitive J v then scalar_to_string J v
      else if j_type J v = VArray
      then join_pieces (map (\<lambda>item. append_parameter_string J item (level + 1)) (j_elements J v))
      else if j_type J v \<noteq> VObject then scalar_to_string J v
      else join_pieces (concat (map (\<lambda>key. [Some key,
             (case j_at J v key of None \<Rightarrow> None
              | Some item \<Rightarrow> append_parameter_string J item (level + 1))]) (sort (j_keys J v)))))"
  by pat_completeness auto
termination
  by (relation "measure (\<lambda>(J, v, level). kMaxNestedLevel - level)") auto

declare append_parameter_string.simps [simp del]

definition parameter_string :: "'j json_lib \<Rightarrow> 'j \<Rightarrow> string option" where
  "parameter_string J params =
     (if j_type J params = VNull then Some [] else append_parameter_string J params 0)"

definition sign_json :: "'j json_lib \<Rightarrow> hmac_fn \<Rightarrow> AuthHandler \<Rightarrow> string \<Rightarrow> u64 \<Rightarrow> 'j \<Rightarrow> u64 \<Rightarrow> string option" where
  "sign_json J hmac auth method req_id params nonce =
     map_option (\<lambda>s. sign_string hmac auth method req_id s nonce) (parameter_string J params)"

section \<open>Lemmas\<close>

lemma object_parameter_string:
  assumes "j_type J v = VObject"
  shows "parameter_string J v =
    join_pieces (concat (map (\<lambda>key. [Some key,
      (case j_at J v key of None \<Rightarrow> None | Some item \<Rightarrow> append_parameter_string J item 1)]) (sort (j_keys J v))))"
  using assms
  by (simp add: parameter_string_def append_parameter_string.simps [of J v 0] kMaxNestedLevel_def is_primitive_def
    cong: list.map_cong option.case_cong)

lemma sort_keys_cong:
  "distinct ks \<Longrightarrow> distinct ks' \<Longrightarrow> set ks = set ks' \<Longrightarrow> sort ks = (sort ks' :: string list)"
  by (metis sorted_list_of_set_sort_remdups distinct_remdups_id)

text \<open>Two objects with the same members have the same parameter string, however each was built.\<close>

lemma parameter_string_cong:
  assumes J: "json_laws J" and "j_type J v = VObject" "j_type J w = VObject"
    and "\<And>k. j_at J v k = j_at J w k"
  shows "parameter_string J v = parameter_string J w"
proof -
  have "set (j_keys J v) = set (j_keys J w)" by (simp add: set_eq_iff json_objects(7) [OF J] assms(4))
  then have "sort (j_keys J v) = sort (j_keys J w)"
    by (intro sort_keys_cong) (simp_all add: json_objects(6) [OF J])
  then show ?thesis using assms by (simp add: object_parameter_string)
qed

text \<open>Digests of 32 bytes give signatures of 64 lower-case hexadecimal digits.\<close>

lemma hmac_sha256_hex:
  assumes "length (hmac (api_secret auth) data) = 32"
  shows "length (hmac_sha256 hmac auth data) = 64"
  using assms by (simp add: hmac_sha256_def length_concat comp_def hex_byte_def sum_list_triv)

end
