(* ===== verification/Exchange_Api.thy ===== *)
theory Exchange_Api
  imports Auth Trade "HOL-Library.Monad_Syntax"
begin

text \<open>
  \<open>include/exchange/crypto_com_api.hpp\<close>: the messages of the exchange. \<open>CryptoComMessageBuilder\<close>
  makes the signed requests, \<open>CryptoComResponseParser\<close> reads the answers. The JSON library \<open>J\<close>
  and the digest \<open>hmac\<close> are arguments; an exception is \<open>None\<close>.
\<close>

section \<open>Words of the protocol\<close>

fun api_order_type_to_string :: "OrderType \<Rightarrow> string" where
  "api_order_type_to_string LIMIT = ''LIMIT''"
| "api_order_type_to_string MARKET = ''MARKET''"
| "api_order_type_to_string STOP_LOSS = ''STOP_LOSS''"
| "api_order_type_to_string STOP_LIMIT = ''STOP_LIMIT''"
| "api_order_type_to_string TAKE_PROFIT = ''TAKE_PROFIT''"
| "api_order_type_to_string TAKE_PROFIT_LIMIT = ''TAKE_PROFIT_LIMIT''"

fun time_in_force_to_string :: "TimeInForce \<Rightarrow> string" where
  "time_in_force_to_string GTC = ''GOOD_TILL_CANCEL''"
| "time_in_force_to_string IOC = ''IMMEDIATE_OR_CANCEL''"
| "time_in_force_to_string FOK = ''FILL_OR_KILL''"
| "time_in_force_to_string GTD = ''GOOD_TILL_DATE''"

definition format_double :: "double \<Rightarrow> string" where
  "format_double x =
     (let s = snprintf_f8 32 x
      in case find_char CHR ''.'' s of
           None \<Rightarrow> s
         | Some dot \<Rightarrow>
             (case find_last_not_of CHR ''0'' s of
                None \<Rightarrow> s
              | Some last_pos \<Rightarrow>
                  if dot < last_pos then take (last_pos + 1) s
                  else if last_pos = dot then take dot s
                  else s))"

section \<open>Requests\<close>

record CryptoComMessageBuilder =
  mb_request_id :: u64

definition new_CryptoComMessageBuilder :: CryptoComMessageBuilder where
  "new_CryptoComMessageBuilder = \<lparr>mb_request_id = 1\<rparr>"

definition next_id :: "CryptoComMessageBuilder \<Rightarrow> u64 \<times> CryptoComMessageBuilder" where
  "next_id mb = (mb_request_id mb, mb\<lparr>mb_request_id := mb_request_id mb + 1\<rparr>)"

text \<open>The object every private request is.\<close>

definition request_object :: "'j json_lib \<Rightarrow> u64 \<Rightarrow> string \<Rightarrow> 'j \<Rightarrow> string \<Rightarrow> u64 \<Rightarrow> 'j" where
  "request_object J req_id method params sig nonce = j_object J
     [(''id'', j_unsigned J req_id), (''method'', j_string J method), (''params'', params),
      (''sig'', j_string J sig), (''nonce'', j_unsigned J nonce)]"

definition build_auth_request ::
  "'j json_lib \<Rightarrow> hmac_fn \<Rightarrow> AuthHandler \<Rightarrow> CryptoComMessageBuilder \<Rightarrow> clock
     \<Rightarrow> 'j option \<times> CryptoComMessageBuilder \<times> clock" where
  "build_auth_request J hmac auth mb c =
     (let (req_id, mb) = next_id mb;
          (nonce, c) = current_timestamp_ms c;
          method = ''public/auth'';
          sig = sign_string hmac auth method req_id [] nonce
      in (Some (j_object J
            [(''id'', j_unsigned J req_id), (''method'', j_string J method),
             (''api_key'', j_string J (api_key auth)), (''sig'', j_string J sig),
             (''nonce'', j_unsigned J nonce)]), mb, c))"

definition create_order_params :: "'j json_lib \<Rightarrow> Trade \<Rightarrow> 'j" where
  "create_order_params J trade =
     (let params = j_object J
            [(''instrument_name'', j_string J (t_ticker trade)),
             (''side'', j_string J (if t_side trade = BUY then ''BUY'' else ''SELL'')),
             (''type'', j_string J (api_order_type_to_string (t_type trade))),
             (''quantity'', j_string J (format_double (t_quantity trade))),
             (''client_oid'', j_string J (u64_to_string (t_client_order_id trade)))];
          params = (if t_type trade \<in> {LIMIT, STOP_LIMIT, TAKE_PROFIT_LIMIT}
                    then j_put J params ''price'' (j_string J (format_double (t_price trade))) else params);
          params = (if t_type trade \<in> {STOP_LOSS, STOP_LIMIT, TAKE_PROFIT, TAKE_PROFIT_LIMIT}
                    then j_put J params ''trigger_price'' (j_string J (format_double (t_trigger_price trade)))
                    else params);
          params = j_put J params ''time_in_force'' (j_string J (time_in_force_to_string (t_time_in_force trade)))
      in if t_exec_type trade = POST_ONLY
         then j_put J params ''exec_inst'' (j_array J [j_string J ''POST_ONLY'']) else params)"

text \<open>The end the requests share: sign the parameters and make the object.\<close>

definition signed_request ::
  "'j json_lib \<Rightarrow> hmac_fn \<Rightarrow> AuthHandler \<Rightarrow> string \<Rightarrow> 'j \<Rightarrow> CryptoComMessageBuilder \<Rightarrow> clock
     \<Rightarrow> 'j option \<times> CryptoComMessageBuilder \<times> clock" where
  "signed_request J hmac auth method params mb c =
     (let (req_id, mb) = next_id mb;
          (nonce, c) = current_timestamp_ms c
      in (map_option (\<lambda>sig. request_object J req_id method params sig nonce)
            (sign_json J hmac auth method req_id params nonce), mb, c))"

definition build_create_order ::
  "'j json_lib \<Rightarrow> hmac_fn \<Rightarrow> AuthHandler \<Rightarrow> Trade \<Rightarrow> CryptoComMessageBuilder \<Rightarrow> clock
     \<Rightarrow> 'j option \<times> CryptoComMessageBuilder \<times> clock" where
  "build_create_order J hmac auth trade =
     signed_request J hmac auth ''private/create-order'' (create_order_params J trade)"

definition build_cancel_order ::
  "'j json_lib \<Rightarrow> hmac_fn \<Rightarrow> AuthHandler \<Rightarrow> string \<Rightarrow> u64 \<Rightarrow> u64 \<Rightarrow> CryptoComMessageBuilder \<Rightarrow> clock
     \<Rightarrow> 'j option \<times> CryptoComMessageBuilder \<times> clock" where
  "build_cancel_order J hmac auth instrument_name order_id client_oid =
     (let params = j_object J [(''instrument_name'', j_string J instrument_name)];
          params = (if client_oid \<noteq> 0 then j_put J params ''client_oid'' (j_string J (u64_to_string client_oid))
                    else j_put J params ''order_id'' (j_string J (u64_to_string order_id)))
      in signed_request J hmac auth ''private/cancel-order'' params)"

text \<open>The requests about all orders sign the empty string when there are no parameters.\<close>

definition optional_instrument_request ::
  "'j json_lib \<Rightarrow> hmac_fn \<Rightarrow> AuthHandler \<Rightarrow> string \<Rightarrow> string \<Rightarrow> CryptoComMessageBuilder \<Rightarrow> clock
     \<Rightarrow> 'j option \<times> CryptoComMessageBuilder \<times> clock" where
  "optional_instrument_request J hmac auth method instrument_name mb c =
     (let (req_id, mb) = next_id mb;
          (nonce, c) = current_timestamp_ms c;
          params = j_object J [];
          params = (if instrument_name \<noteq> [] then j_put J params ''instrument_name'' (j_string J instrument_name)
                    else params);
          params_string = (if j_keys J params = [] then Some [] else parameter_string J params)
      in (map_option (\<lambda>s. request_object J req_id method params (sign_string hmac auth method req_id s nonce) nonce)
            params_string, mb, c))"

definition build_cancel_all_orders ::
  "'j json_lib \<Rightarrow> hmac_fn \<Rightarrow> AuthHandler \<Rightarrow> string \<Rightarrow> CryptoComMessageBuilder \<Rightarrow> clock
     \<Rightarrow> 'j option \<times> CryptoComMessageBuilder \<times> clock" where
  "build_cancel_all_orders J hmac auth = optional_instrument_request J hmac auth ''private/cancel-all-orders''"

definition build_get_open_orders ::
  "'j json_lib \<Rightarrow> hmac_fn \<Rightarrow> AuthHandler \<Rightarrow> string \<Rightarrow> CryptoComMessageBuilder \<Rightarrow> clock
     \<Rightarrow> 'j option \<times> CryptoComMessageBuilder \<times> clock" where
  "build_get_open_orders J hmac auth = optional_instrument_request J hmac auth ''private/get-open-orders''"

definition build_heartbeat_response :: "'j json_lib \<Rightarrow> u64 \<Rightarrow> 'j" where
  "build_heartbeat_response J request_id = j_object J
     [(''id'', j_unsigned J request_id), (''method'', j_string J ''public/respond-heartbeat'')]"

definition build_subscribe_user_order ::
  "'j json_lib \<Rightarrow> hmac_fn \<Rightarrow> AuthHandler \<Rightarrow> string \<Rightarrow> CryptoComMessageBuilder \<Rightarrow> clock
     \<Rightarrow> 'j option \<times> CryptoComMessageBuilder \<times> clock" where
  "build_subscribe_user_order J hmac auth instrument_name =
     signed_request J hmac auth ''subscribe'' (j_object J
       [(''channels'', j_array J [j_string J
          (if instrument_name = [] then ''user.order'' else ''user.order.'' @ instrument_name)])])"

definition build_subscribe_user_trade ::
  "'j json_lib \<Rightarrow> hmac_fn \<Rightarrow> AuthHandler \<Rightarrow> string \<Rightarrow> CryptoComMessageBuilder \<Rightarrow> clock
     \<Rightarrow> 'j option \<times> CryptoComMessageBuilder \<times> clock" where
  "build_subscribe_user_trade J hmac auth instrument_name =
     signed_request J hmac auth ''subscribe'' (j_object J
       [(''channels'', j_array J [j_string J
          (if instrument_name = [] then ''user.trade'' else ''user.trade.'' @ instrument_name)])])"

section \<open>Answers\<close>

definition order_payload :: "'j json_lib \<Rightarrow> 'j \<Rightarrow> 'j option" where
  "order_payload J response =
     (case j_at J response ''result'' of
        None \<Rightarrow> None
      | Some result \<Rightarrow>
          let first = (\<lambda>v. if j_type J v = VArray \<and> j_elements J v \<noteq> [] \<and> j_type J (hd (j_elements J v)) = VObject
                           then Some (hd (j_elements J v)) else None)
          in case (case j_at J result ''data'' of None \<Rightarrow> None | Some data \<Rightarrow> first data) of
               Some front \<Rightarrow> Some front
             | None \<Rightarrow> if j_type J result = VObject then Some result else first result)"

definition json_to_u64 :: "'j json_lib \<Rightarrow> 'j \<Rightarrow> u64 option" where
  "json_to_u64 J v =
     (if is_unsigned J v then j_get_u64 J v
      else if is_integer J v then map_option (\<lambda>parsed. if 0 < parsed then of_int parsed else 0) (j_get_i64 J v)
      else if j_type J v = VString
      then map_option (\<lambda>s. case stoull s of None \<Rightarrow> 0 | Some n \<Rightarrow> n) (j_get_string J v)
      else Some 0)"

definition json_to_i64 :: "'j json_lib \<Rightarrow> 'j \<Rightarrow> i64 option" where
  "json_to_i64 J v =
     (if is_integer J v then j_get_i64 J v
      else if j_type J v = VString
      then map_option (\<lambda>s. case stoll s of None \<Rightarrow> 0 | Some n \<Rightarrow> n) (j_get_string J v)
      else Some 0)"

definition json_to_double :: "'j json_lib \<Rightarrow> 'j \<Rightarrow> double option" where
  "json_to_double J v =
     (if is_number J v then j_get_double J v
      else if j_type J v = VString
      then map_option (\<lambda>s. case stod s of None \<Rightarrow> 0 | Some x \<Rightarrow> x) (j_get_string J v)
      else Some 0)"

definition exchange_time_to_ns :: "u64 \<Rightarrow> i64" where
  "exchange_time_to_ns raw_time =
     (if raw_time = 0 then 0
      else if 10000000000000000 < raw_time then sint raw_time
      else if 10000000000000 < raw_time then sint (raw_time * 1000)
      else sint (raw_time * 1000000))"

definition parse_status :: "string \<Rightarrow> OrderStatus" where
  "parse_status status =
     (if status = ''NEW'' \<or> status = ''PENDING'' \<or> status = ''ACTIVE'' then NEW
      else if status = ''FILLED'' then FILLED
      else if status = ''PARTIALLY_FILLED'' then PARTIALLY_FILLED
      else if status = ''CANCELED'' \<or> status = ''CANCELLED'' then CANCELED
      else if status = ''REJECTED'' then REJECTED
      else if status = ''EXPIRED'' then EXPIRED
      else NEW)"

text \<open>\<open>if (res->contains(key)) result.field = convert((*res)[key]);\<close>\<close>

definition read_member ::
  "'j json_lib \<Rightarrow> 'j \<Rightarrow> string \<Rightarrow> ('j \<Rightarrow> 'v option) \<Rightarrow> ('v \<Rightarrow> OrderResponse \<Rightarrow> OrderResponse)
     \<Rightarrow> OrderResponse \<Rightarrow> OrderResponse option" where
  "read_member J res key convert assign result =
     (case j_at J res key of
        None \<Rightarrow> Some result
      | Some v \<Rightarrow> map_option (\<lambda>x. assign x result) (convert v))"

text \<open>
  \<open>junk\<close> are the last bytes of the two character arrays of a new \<open>OrderResponse\<close>, which neither
  its constructor nor \<open>strncpy\<close> writes.
\<close>

definition order_fields :: "'j json_lib \<Rightarrow> char \<times> char \<Rightarrow> 'j \<Rightarrow> (OrderResponse \<Rightarrow> OrderResponse option) list" where
  "order_fields J junk res =
     [read_member J res ''client_oid'' (json_to_u64 J) (\<lambda>x r. r\<lparr>r_client_order_id := x\<rparr>),
      read_member J res ''order_id'' (json_to_u64 J) (\<lambda>x r. r\<lparr>r_exchange_order_id := x\<rparr>),
      read_member J res ''cumulative_quantity'' (json_to_double J) (\<lambda>x r. r\<lparr>r_filled_quantity := x\<rparr>),
      if contains J res ''remaining_quantity''
      then read_member J res ''remaining_quantity'' (json_to_double J) (\<lambda>x r. r\<lparr>r_remaining_quantity := x\<rparr>)
      else read_member J res ''quantity'' (json_to_double J)
             (\<lambda>x r. r\<lparr>r_remaining_quantity := std_max 0 (x - r_filled_quantity r)\<rparr>),
      read_member J res ''avg_price'' (json_to_double J) (\<lambda>x r. r\<lparr>r_avg_price := x\<rparr>),
      read_member J res ''cumulative_fee'' (json_to_double J) (\<lambda>x r. r\<lparr>r_fee := x\<rparr>),
      read_member J res (if contains J res ''fee_currency'' then ''fee_currency'' else ''fee_instrument_name'')
        (j_get_string J) (\<lambda>x r. r\<lparr>r_fee_currency := strncpy_buffer 8 (fst junk) x\<rparr>),
      if contains J res ''transaction_time_ns''
      then read_member J res ''transaction_time_ns'' (json_to_i64 J) (\<lambda>x r. r\<lparr>r_exchange_timestamp_ns := x\<rparr>)
      else if contains J res ''update_time_ns''
      then read_member J res ''update_time_ns'' (json_to_i64 J) (\<lambda>x r. r\<lparr>r_exchange_timestamp_ns := x\<rparr>)
      else read_member J res ''update_time'' (json_to_u64 J)
             (\<lambda>x r. r\<lparr>r_exchange_timestamp_ns := exchange_time_to_ns x\<rparr>),
      read_member J res ''reason'' (json_to_i64 J) (\<lambda>x r. r\<lparr>r_error_code := signed_take_bit 31 x\<rparr>),
      read_member J res ''status'' (j_get_string J)
        (\<lambda>x r. r\<lparr>r_status := (if parse_status x = NEW \<and> 0 < r_filled_quantity r then PARTIALLY_FILLED
                             else parse_status x)\<rparr>)]"

definition read_order :: "'j json_lib \<Rightarrow> char \<times> char \<Rightarrow> 'j \<Rightarrow> OrderResponse \<Rightarrow> OrderResponse option" where
  "read_order J junk res result = fold (\<lambda>field acc. acc \<bind> field) (order_fields J junk res) (Some result)"

definition parse_order_response :: "'j json_lib \<Rightarrow> char \<times> char \<Rightarrow> 'j \<Rightarrow> OrderResponse option" where
  "parse_order_response J junk response = do {
     let result = new_OrderResponse;
     code \<leftarrow> (case j_at J response ''code'' of None \<Rightarrow> Some 0 | Some v \<Rightarrow> j_get_i32 J v);
     if code \<noteq> 0
     then read_member J response ''message'' (j_get_string J)
            (\<lambda>msg r. r\<lparr>r_error_message := strncpy_buffer 128 (snd junk) msg\<rparr>)
            (result\<lparr>r_status := REJECTED, r_error_code := code\<rparr>)
     else (case order_payload J response of None \<Rightarrow> Some result | Some res \<Rightarrow> read_order J junk res result)
   }"

text \<open>\<open>msg["method"] == "\<dots>"\<close> compares with a JSON string.\<close>

definition method_is :: "'j json_lib \<Rightarrow> string \<Rightarrow> 'j \<Rightarrow> bool" where
  "method_is J method msg =
     (case j_at J msg ''method'' of None \<Rightarrow> False
      | Some v \<Rightarrow> j_type J v = VString \<and> j_get_string J v = Some method)"

definition is_heartbeat :: "'j json_lib \<Rightarrow> 'j \<Rightarrow> bool" where
  "is_heartbeat J = method_is J ''public/heartbeat''"

definition get_heartbeat_id :: "'j json_lib \<Rightarrow> 'j \<Rightarrow> u64 option" where
  "get_heartbeat_id J msg = (case j_at J msg ''id'' of None \<Rightarrow> Some 0 | Some v \<Rightarrow> j_get_u64 J v)"

definition is_subscription_response :: "'j json_lib \<Rightarrow> 'j \<Rightarrow> bool" where
  "is_subscription_response J = method_is J ''subscribe''"

fun find_substring :: "string \<Rightarrow> string \<Rightarrow> bool" where
  "find_substring needle [] = (needle = [])"
| "find_substring needle (c # s) = (take (length needle) (c # s) = needle \<or> find_substring needle s)"

definition result_channel :: "'j json_lib \<Rightarrow> 'j \<Rightarrow> string option" where
  "result_channel J msg =
     (case j_at J msg ''result'' of
        None \<Rightarrow> Some []
      | Some result \<Rightarrow> if j_type J result \<noteq> VObject then Some [] else value_string J result ''channel'' [])"

definition is_order_update :: "'j json_lib \<Rightarrow> 'j \<Rightarrow> bool option" where
  "is_order_update J msg =
     map_option (\<lambda>ch. find_substring ''user.order'' ch \<or> find_substring ''user.advanced.order'' ch)
       (result_channel J msg)"

definition is_trade_update :: "'j json_lib \<Rightarrow> 'j \<Rightarrow> bool option" where
  "is_trade_update J msg = map_option (find_substring ''user.trade'') (result_channel J msg)"

section \<open>Numbers on the wire\<close>

lemma format_double_text:
  assumes "fixed8 v < 10 ^ 29"
  obtains ds fs where "ds \<noteq> []" "list_all is_digit ds" "list_all is_digit fs"
    "format_double (Fin v) = (if v < 0 then ''-'' else []) @ ds @ (if fs = [] then [] else CHR ''.'' # fs)"
    "of_nat (decimal_val (ds @ fs)) * (10 :: rat) powi - int (length fs) = of_nat (fixed8 v) / 10 ^ 8"
    "fs = [] \<or> last fs \<noteq> CHR ''0''"
proof -
  let ?n = "fixed8 v" and ?sign = "if v < 0 then ''-'' else []"
  define ds where "ds = decimal (?n div 10 ^ 8)"
  define ps where "ps = pad8 (decimal (?n mod 10 ^ 8))"
  have ps: "length ps = 8" "decimal_val ps = ?n mod 10 ^ 8" "list_all is_digit ps"
    using pad8_facts [of "?n mod 10 ^ 8"] by (simp_all add: ps_def)
  obtain fs k where fs: "ps = fs @ replicate k CHR ''0''" "fs = [] \<or> last fs \<noteq> CHR ''0''"
    by (rule strip_zeros)
  have ds: "ds \<noteq> []" "list_all is_digit ds" by (simp_all add: ds_def)
  have "length ds \<le> 21" using assms unfolding ds_def by (intro decimal_length) (auto simp: less_mult_imp_div_less)
  moreover have "print_f8 (Fin v) = ?sign @ ds @ CHR ''.'' # ps"
    by (simp only: print_f8_def double.case ds_def ps_def)
  ultimately have "snprintf_f8 32 (Fin v) = ?sign @ ds @ CHR ''.'' # ps"
    using ps(1) by (cases "v < 0") (simp_all add: snprintf_f8_def)
  then have fmt: "snprintf_f8 32 (Fin v) = (?sign @ ds) @ CHR ''.'' # ps" by simp
  have "CHR ''.'' \<notin> set (?sign @ ds)" using ds(2) is_digit_not by (auto simp: list_all_iff)
  then have dot: "find_char CHR ''.'' (snprintf_f8 32 (Fin v)) = Some (length (?sign @ ds))"
    unfolding fmt by (rule find_char_append)
  have "format_double (Fin v) = ?sign @ ds @ (if fs = [] then [] else CHR ''.'' # fs)"
  proof (cases "fs = []")
    case True
    then have "find_last_not_of CHR ''0'' (snprintf_f8 32 (Fin v)) = Some (length (?sign @ ds))"
      unfolding fmt fs(1) by (simp only: append_Nil) (rule find_last_not_of_append, simp)
    then show ?thesis using True dot by (simp add: format_double_def fmt)
  next
    case False
    have "snprintf_f8 32 (Fin v) = (?sign @ ds @ CHR ''.'' # butlast fs) @ last fs # replicate k CHR ''0''"
      unfolding fmt fs(1) using False by simp
    then have "find_last_not_of CHR ''0'' (snprintf_f8 32 (Fin v)) = Some (length (?sign @ ds @ CHR ''.'' # butlast fs))"
      using find_last_not_of_append [of "last fs" "CHR ''0''"] fs(2) False by metis
    moreover have "length (?sign @ ds @ CHR ''.'' # butlast fs) + 1 = length (?sign @ ds) + 1 + length fs"
      using False by simp
    ultimately show ?thesis using False dot
      by (simp add: format_double_def fmt fs(1) del: length_butlast)
  qed
  moreover have "of_nat (decimal_val (ds @ fs)) * (10 :: rat) powi - int (length fs) = of_nat ?n / 10 ^ 8"
  proof -
    have "decimal_val (ds @ ps) = ?n"
      using ps by (simp add: decimal_val_append ds_def)
    moreover have "decimal_val (ds @ ps) = decimal_val (ds @ fs) * 10 ^ k"
      unfolding fs(1) append_assoc [symmetric] decimal_val_append [of "ds @ fs"] by (simp add: decimal_val_zeros)
    ultimately have n: "?n = decimal_val (ds @ fs) * 10 ^ k" by simp
    have "length fs + k = 8" using ps(1) fs(1) by simp
    then have p: "(10 :: rat) ^ 8 = 10 ^ length fs * 10 ^ k" by (metis power_add)
    have "of_nat ?n / (10 :: rat) ^ 8 = of_nat (decimal_val (ds @ fs)) / 10 ^ length fs"
      unfolding p n by simp
    moreover have "(10 :: rat) powi - int (length fs) = inverse (10 ^ length fs)" by (simp add: power_int_minus)
    ultimately show ?thesis by (simp only: divide_inverse)
  qed
  moreover have "list_all is_digit fs" using ps(3) fs(1) by simp
  ultimately show thesis using that ds fs(2) by blast
qed

lemma to_lower_digit: "is_digit c \<Longrightarrow> to_lower c = c"
  by (simp add: to_lower_def is_digit_def)

lemma scan_number_digits:
  assumes "ds \<noteq> []" "list_all is_digit ds" "list_all is_digit fs"
  shows "scan_number (ds @ (if fs = [] then [] else CHR ''.'' # fs))
      = Some (of_nat (decimal_val (ds @ fs)) * 10 powi - int (length fs))"
    and "map to_lower (take 3 (ds @ r)) \<noteq> ''inf''" and "map to_lower (take 3 (ds @ r)) \<noteq> ''nan''"
proof -
  obtain c ds' where ds: "ds = c # ds'" and c: "is_digit c" using assms by (cases ds) auto
  have "to_lower c \<noteq> CHR ''i''" "to_lower c \<noteq> CHR ''n''"
    using c by (auto simp: to_lower_digit is_digit_def)
  then show "map to_lower (take 3 (ds @ r)) \<noteq> ''inf''" and "map to_lower (take 3 (ds @ r)) \<noteq> ''nan''"
    by (simp_all add: ds)
  have "map to_lower (take 2 (ds @ (if fs = [] then [] else CHR ''.'' # fs))) \<noteq> ''0x''"
  proof (cases ds')
    case (Cons d ds'')
    then have "is_digit d" using assms(2) ds by simp
    then have "to_lower d \<noteq> CHR ''x''" by (auto simp: to_lower_digit is_digit_def)
    then show ?thesis using ds Cons by (simp add: numeral_2_eq_2)
  qed (simp add: ds numeral_2_eq_2 to_lower_def)
  then show "scan_number (ds @ (if fs = [] then [] else CHR ''.'' # fs))
      = Some (of_nat (decimal_val (ds @ fs)) * 10 powi - int (length fs))"
    using scan_decimal_fraction [OF assms] by (simp add: scan_number_def)
qed

lemma stod_format_double:
  assumes n: "fixed8 v < 10 ^ 29" and x: "x = (if v < 0 then - 1 else 1) * of_nat (fixed8 v) / 10 ^ 8"
    and fin: "round64 x = Fin y"
  shows "stod (format_double (Fin v)) = Some (Fin y)"
proof -
  let ?r = "\<lambda>ds fs. ds @ (if fs = [] then [] else CHR ''.'' # fs)"
  obtain ds fs where ds: "ds \<noteq> []" "list_all is_digit ds" "list_all is_digit fs"
    and fmt: "format_double (Fin v) = (if v < 0 then ''-'' else []) @ ?r ds fs"
    and val: "of_nat (decimal_val (ds @ fs)) * (10 :: rat) powi - int (length fs) = of_nat (fixed8 v) / 10 ^ 8"
    using format_double_text [OF n] by metis
  have nul: "CHR 0x00 \<notin> set (if fs = [] then [] else CHR ''.'' # fs)"
    using ds(3) is_digit_not by (auto simp: list_all_iff)
  have sign: "scan_sign (format_double (Fin v)) = (v < 0, ?r ds fs)"
    using scan_sign_digits [OF ds(1,2) nul] scan_sign_minus [OF ds(1,2) nul] by (cases "v < 0") (simp_all add: fmt)
  have number: "scan_number (?r ds fs) = Some (of_nat (fixed8 v) / 10 ^ 8)"
    using scan_number_digits(1) [OF ds] val by simp
  have "y = x \<or> \<not> \<bar>x\<bar> < 2 powi - 1022"
  proof (cases "fixed8 v = 0")
    case True
    then show ?thesis using fin x by (cases "v < 0") auto
  next
    case False
    then have "1 / 10 ^ 8 \<le> \<bar>x\<bar>" unfolding x by (cases "v < 0") (simp_all add: divide_right_mono)
    moreover have "(2 :: rat) powi - 1022 \<le> 2 powi - 27" by (simp only: powi_le_iff)
    moreover have "(2 :: rat) powi - 27 \<le> 1 / 10 ^ 8" by (simp add: power_int_minus field_simps)
    ultimately show ?thesis by linarith
  qed
  then show ?thesis
    using scan_number_digits(2,3) [OF ds, of "if fs = [] then [] else CHR ''.'' # fs"] fin
    by (cases "v < 0") (auto simp: stod_def sign number x Let_def)
qed

text \<open>
  (C28) Prices and quantities survive the wire format. A number with at most eight decimals and
  less than \<open>2 ^ 52\<close> units in the last place (45 million) is held as the nearest double; the text
  the builder makes of that double is read back as the very same double.
\<close>

theorem format_double_roundtrip:
  assumes "\<bar>k\<bar> < 2 ^ 52"
  shows "stod (format_double (round64 (of_int k / 10 ^ 8))) = Some (round64 (of_int k / 10 ^ 8))"
proof -
  let ?x = "of_int k / 10 ^ 8 :: rat"
  have small: "\<bar>nearest ?x\<bar> \<le> 2 ^ 52"
  proof -
    have "\<bar>?x\<bar> \<le> of_int (2 ^ 52)"
    proof -
      have "\<bar>of_int k :: rat\<bar> \<le> of_int (2 ^ 52)" using assms by (simp only: of_int_abs [symmetric] of_int_le_iff)
      moreover have "\<bar>?x\<bar> \<le> \<bar>of_int k\<bar>" by (simp add: divide_le_eq)
      ultimately show ?thesis by (rule order_trans [rotated])
    qed
    then have "nearest ?x \<le> nearest (of_int (2 ^ 52))" "nearest (- ?x) \<le> nearest (of_int (2 ^ 52))"
      by (intro nearest_mono, simp)+
    then show ?thesis using nearest_of_int(2) [of "2 ^ 52"] by (simp add: abs_le_iff)
  qed
  have "(2 :: rat) powi 52 < overflow_bound" unfolding overflow_bound_def by (simp only: powi_less_iff)
  then have fin: "round64 ?x = Fin (nearest ?x)" using small by (simp add: round64_alt)
  have "fixed8 (nearest ?x) = nat \<bar>k\<bar>"
    using fixed8_nearest [of k] fixed8_nearest [of "- k"] assms by (cases "0 \<le> k") (simp_all add: minus_divide_left [symmetric])
  moreover from this assms have "fixed8 (nearest ?x) < 10 ^ 29" by simp
  moreover have "(if nearest ?x < 0 then - 1 else 1) * of_int \<bar>k\<bar> = (of_int k :: rat)"
  proof (cases "k < 0")
    case True
    have "fixed8 0 = 0" by (simp add: fixed8_def round_half_even_of_int [of 0, simplified])
    then have "nearest ?x \<noteq> 0" using calculation(1) True by (metis abs_eq_0 less_irrefl nat_0_iff abs_le_zero_iff)
    moreover have "nearest ?x \<le> 0" using True by (intro nearest_sgn) (simp add: divide_nonpos_pos)
    ultimately show ?thesis using True by simp
  next
    case False
    then have "0 \<le> nearest ?x" by (intro nearest_nonneg) simp
    then show ?thesis using False by simp
  qed
  ultimately show ?thesis
    unfolding fin using stod_format_double [OF _ _ fin, of "nearest ?x"] by simp
qed

theorem format_double_roundtrip_witness:
  "stod (format_double (round64 (of_int 6543210012345 / 10 ^ 8))) = Some (round64 (of_int 6543210012345 / 10 ^ 8))"
  by (rule format_double_roundtrip) simp

section \<open>Signed requests\<close>

text \<open>The parameters the builder makes: an object of strings and arrays of strings.\<close>

definition simple_value :: "'j json_lib \<Rightarrow> 'j \<Rightarrow> bool" where
  "simple_value J x \<longleftrightarrow> (\<exists>s. x = j_string J s) \<or> (\<exists>ss. x = j_array J (map (j_string J) ss))"

definition simple_params :: "'j json_lib \<Rightarrow> 'j \<Rightarrow> bool" where
  "simple_params J v \<longleftrightarrow> j_type J v = VObject \<and> (\<forall>k x. j_at J v k = Some x \<longrightarrow> simple_value J x)"

lemma append_string: "json_laws J \<Longrightarrow> append_parameter_string J (j_string J s) level = Some s"
  by (subst append_parameter_string.simps) (simp add: is_primitive_def scalar_to_string_def json_types)

lemma join_pieces_Some [simp]: "join_pieces (map Some ss) = Some (concat ss)"
  by (auto simp: join_pieces_def comp_def)

lemma append_strings:
  "json_laws J \<Longrightarrow> level < 3 \<Longrightarrow> append_parameter_string J (j_array J (map (j_string J) ss)) level = Some (concat ss)"
  by (subst append_parameter_string.simps)
    (simp add: kMaxNestedLevel_def is_primitive_def json_types append_string comp_def)

lemma simple_params_string:
  assumes J: "json_laws J" and v: "simple_params J v"
  shows "parameter_string J v \<noteq> None"
proof -
  have "append_parameter_string J x 1 \<noteq> None" if "simple_value J x" for x
    using that append_string [OF J] append_strings [OF J, of 1] by (auto simp: simple_value_def)
  moreover have "j_at J v k \<noteq> None" if "k \<in> set (j_keys J v)" for k using that json_objects(7) [OF J] by blast
  ultimately have "(case j_at J v k of None \<Rightarrow> None | Some item \<Rightarrow> append_parameter_string J item 1) \<noteq> None"
    if "k \<in> set (j_keys J v)" for k
    using that v by (fastforce simp: simple_params_def split: option.splits)
  then show ?thesis using v by (fastforce simp: simple_params_def object_parameter_string join_pieces_def)
qed

lemma simple_params_put [intro]:
  "json_laws J \<Longrightarrow> simple_params J v \<Longrightarrow> simple_value J x \<Longrightarrow> simple_params J (j_put J v k x)"
  by (auto simp: simple_params_def json_objects split: if_splits)

lemma simple_params_object:
  assumes J: "json_laws J" and kvs: "distinct (map fst kvs)" "list_all (simple_value J) (map snd kvs)"
  shows "simple_params J (j_object J kvs)"
proof -
  have "simple_value J x" if "map_of kvs k = Some x" for k x
    using kvs(2) map_of_SomeD [OF that] by (force simp: list_all_iff)
  then show ?thesis using kvs(1) by (simp add: simple_params_def json_types [OF J] json_objects(1) [OF J])
qed

lemma simple_values [simp]:
  "simple_value J (j_string J s)" "simple_value J (j_array J [j_string J s])"
  unfolding simple_value_def by (blast, metis list.simps(8,9))

lemma create_order_params_simple: "json_laws J \<Longrightarrow> simple_params J (create_order_params J trade)"
  unfolding create_order_params_def Let_def
  by (auto intro!: simple_params_put simple_params_object)

text \<open>What the exchange does with a request: compute the signature of its members and compare.\<close>

definition verify_request :: "'j json_lib \<Rightarrow> hmac_fn \<Rightarrow> AuthHandler \<Rightarrow> 'j \<Rightarrow> bool" where
  "verify_request J hmac auth msg =
     (case (j_at J msg ''id'' \<bind> j_get_u64 J, j_at J msg ''method'' \<bind> j_get_string J, j_at J msg ''params'',
            j_at J msg ''sig'' \<bind> j_get_string J, j_at J msg ''nonce'' \<bind> j_get_u64 J) of
        (Some req_id, Some method, Some params, Some sig, Some nonce) \<Rightarrow>
          sign_json J hmac auth method req_id params nonce = Some sig
      | _ \<Rightarrow> False)"

definition request_id :: "'j json_lib \<Rightarrow> 'j \<Rightarrow> u64 option" where
  "request_id J msg = (j_at J msg ''id'' \<bind> j_get_u64 J)"

lemma verify_request_object:
  assumes "json_laws J" "sign_json J hmac auth method req_id params nonce = Some sig"
  shows "verify_request J hmac auth (request_object J req_id method params sig nonce)"
    and "request_id J (request_object J req_id method params sig nonce) = Some req_id"
  using assms by (simp_all add: verify_request_def request_id_def request_object_def json_objects(1) json_types json_numbers)

text \<open>Any sequence of private requests.\<close>

datatype api_request =
    CreateOrder Trade
  | CancelOrder string u64 u64
  | CancelAllOrders string
  | GetOpenOrders string
  | SubscribeUserOrder string
  | SubscribeUserTrade string

fun build_request ::
  "'j json_lib \<Rightarrow> hmac_fn \<Rightarrow> AuthHandler \<Rightarrow> api_request \<Rightarrow> CryptoComMessageBuilder \<Rightarrow> clock
     \<Rightarrow> 'j option \<times> CryptoComMessageBuilder \<times> clock" where
  "build_request J hmac auth (CreateOrder trade) = build_create_order J hmac auth trade"
| "build_request J hmac auth (CancelOrder name order_id client_oid) =
     build_cancel_order J hmac auth name order_id client_oid"
| "build_request J hmac auth (CancelAllOrders name) = build_cancel_all_orders J hmac auth name"
| "build_request J hmac auth (GetOpenOrders name) = build_get_open_orders J hmac auth name"
| "build_request J hmac auth (SubscribeUserOrder name) = build_subscribe_user_order J hmac auth name"
| "build_request J hmac auth (SubscribeUserTrade name) = build_subscribe_user_trade J hmac auth name"

fun build_requests ::
  "'j json_lib \<Rightarrow> hmac_fn \<Rightarrow> AuthHandler \<Rightarrow> api_request list \<Rightarrow> CryptoComMessageBuilder \<Rightarrow> clock
     \<Rightarrow> 'j option list" where
  "build_requests J hmac auth [] mb c = []"
| "build_requests J hmac auth (r # rs) mb c =
     (let (msg, mb, c) = build_request J hmac auth r mb c in msg # build_requests J hmac auth rs mb c)"

lemma signed_request_ok:
  assumes J: "json_laws J" and params: "simple_params J params"
  shows "\<exists>msg c'. signed_request J hmac auth method params mb c = (Some msg, mb\<lparr>mb_request_id := mb_request_id mb + 1\<rparr>, c')
    \<and> verify_request J hmac auth msg \<and> request_id J msg = Some (mb_request_id mb)"
proof -
  obtain s where "parameter_string J params = Some s" using simple_params_string [OF J params] by auto
  then show ?thesis
    using verify_request_object [OF J]
    by (auto simp: signed_request_def next_id_def current_timestamp_ms_def read_clock_def sign_json_def)
qed

lemma optional_instrument_request_ok:
  assumes J: "json_laws J"
  shows "\<exists>msg c'. optional_instrument_request J hmac auth method name mb c
      = (Some msg, mb\<lparr>mb_request_id := mb_request_id mb + 1\<rparr>, c')
    \<and> verify_request J hmac auth msg \<and> request_id J msg = Some (mb_request_id mb)"
proof -
  let ?params = "if name \<noteq> [] then j_put J (j_object J []) ''instrument_name'' (j_string J name) else j_object J []"
  have params: "simple_params J ?params"
    using J by (auto intro!: simple_params_put simple_params_object)
  then obtain s where s: "parameter_string J ?params = Some s" using simple_params_string [OF J] by auto
  have "(if j_keys J ?params = [] then Some [] else parameter_string J ?params) = parameter_string J ?params"
    using params by (simp add: simple_params_def object_parameter_string join_pieces_def)
  then show ?thesis
    using s verify_request_object [OF J]
    by (auto simp: optional_instrument_request_def next_id_def current_timestamp_ms_def read_clock_def sign_json_def
      Let_def)
qed

lemma build_request_ok:
  assumes J: "json_laws J"
  shows "\<exists>msg c'. build_request J hmac auth r mb c = (Some msg, mb\<lparr>mb_request_id := mb_request_id mb + 1\<rparr>, c')
    \<and> verify_request J hmac auth msg \<and> request_id J msg = Some (mb_request_id mb)"
proof (cases r)
  case (CancelOrder name order_id client_oid)
  let ?params = "j_object J [(''instrument_name'', j_string J name)]"
  have "simple_params J (j_put J ?params k (j_string J s))" for k s
    using J by (auto intro!: simple_params_put simple_params_object)
  from signed_request_ok [OF J this] CancelOrder show ?thesis by (simp add: build_cancel_order_def Let_def)
next
  case (SubscribeUserOrder name)
  have "simple_params J (j_object J [(''channels'', j_array J [j_string J s])])" for s
    using J by (auto intro!: simple_params_object)
  from signed_request_ok [OF J this] SubscribeUserOrder show ?thesis by (simp only: build_request.simps build_subscribe_user_order_def)
next
  case (SubscribeUserTrade name)
  have "simple_params J (j_object J [(''channels'', j_array J [j_string J s])])" for s
    using J by (auto intro!: simple_params_object)
  from signed_request_ok [OF J this] SubscribeUserTrade show ?thesis by (simp only: build_request.simps build_subscribe_user_trade_def)
next
  case (CreateOrder trade)
  with signed_request_ok [OF J create_order_params_simple [OF J]] show ?thesis
    by (simp only: build_request.simps build_create_order_def)
next
  case (CancelAllOrders name)
  with optional_instrument_request_ok [OF J] show ?thesis
    by (simp only: build_request.simps build_cancel_all_orders_def)
next
  case (GetOpenOrders name)
  with optional_instrument_request_ok [OF J] show ?thesis
    by (simp only: build_request.simps build_get_open_orders_def)
qed

lemma build_requests_ids:
  assumes J: "json_laws J"
  shows "map (\<lambda>m. m \<bind> request_id J) (build_requests J hmac auth rs mb c)
    = map (\<lambda>i. Some (mb_request_id mb + of_nat i)) [0..<length rs]"
proof (induction rs arbitrary: mb c)
  case (Cons r rs)
  have upt: "[0..<Suc n] = 0 # map Suc [0..<n]" for n
    by (metis map_Suc_upt upt_conv_Cons zero_less_Suc)
  obtain msg c' where "build_request J hmac auth r mb c = (Some msg, mb\<lparr>mb_request_id := mb_request_id mb + 1\<rparr>, c')"
    "request_id J msg = Some (mb_request_id mb)" using build_request_ok [OF J] by metis
  then show ?case using Cons.IH by (simp add: upt add.assoc comp_def del: upt_Suc)
qed simp


text \<open>A digest for the examples: the bytes of the data themselves.\<close>

definition example_hmac :: hmac_fn where
  "example_hmac key data = map (\<lambda>c. of_char c) data"


section \<open>Matching answers\<close>

definition keeps_client_id :: "(OrderResponse \<Rightarrow> OrderResponse option) \<Rightarrow> bool" where
  "keeps_client_id f \<longleftrightarrow> (\<forall>r r'. f r = Some r' \<longrightarrow> r_client_order_id r' = r_client_order_id r)"

lemma read_member_keeps [simp]:
  "(\<And>x r. r_client_order_id (assign x r) = r_client_order_id r) \<Longrightarrow>
   keeps_client_id (read_member J res key conv assign)"
  by (auto simp: keeps_client_id_def read_member_def split: option.splits)

lemma fold_bind_None [simp]: "fold (\<lambda>f acc. acc \<bind> f) fs None = None"
  by (induction fs) simp_all

lemma fold_bind_keeps:
  "fold (\<lambda>f acc. acc \<bind> f) fs (Some r) = Some r' \<Longrightarrow> list_all keeps_client_id fs \<Longrightarrow>
   r_client_order_id r' = r_client_order_id r"
proof (induction fs arbitrary: r)
  case (Cons f fs)
  then show ?case by (cases "f r") (auto simp: keeps_client_id_def)
qed simp

lemma read_order_client_id:
  assumes "read_order J junk res result = Some r" and oid: "j_at J res ''client_oid'' = Some v"
  shows "json_to_u64 J v = Some (r_client_order_id r)"
proof -
  obtain n where n: "json_to_u64 J v = Some n"
    using assms(1) by (cases "json_to_u64 J v") (simp_all add: read_order_def order_fields_def read_member_def oid)
  then have "fold (\<lambda>f acc. acc \<bind> f) (tl (order_fields J junk res)) (Some (result\<lparr>r_client_order_id := n\<rparr>)) = Some r"
    using assms(1) by (simp add: read_order_def order_fields_def read_member_def [of _ _ "''client_oid''"] oid)
  moreover have "list_all keeps_client_id (tl (order_fields J junk res))" by (simp add: order_fields_def)
  ultimately show ?thesis using n by (simp add: fold_bind_keeps)
qed

lemma create_request_client_oid:
  assumes J: "json_laws J" and "build_create_order J hmac auth trade mb c = (Some request, mb', c')"
  shows "j_at J request ''params'' = Some (create_order_params J trade)"
    and "j_at J (create_order_params J trade) ''client_oid'' = Some (j_string J (u64_to_string (t_client_order_id trade)))"
proof -
  show "j_at J request ''params'' = Some (create_order_params J trade)"
    using assms(2) by (auto simp: build_create_order_def signed_request_def request_object_def json_objects(1) [OF J]
      split: prod.splits)
  show "j_at J (create_order_params J trade) ''client_oid'' = Some (j_string J (u64_to_string (t_client_order_id trade)))"
    by (simp add: create_order_params_def Let_def json_objects [OF J] json_types [OF J])
qed


definition example_order :: Trade where
  "example_order =
     \<lparr>t_client_order_id = 7, t_strategy_id = 1, t_ticker = ''BTC_USDT'', t_side = BUY, t_type = LIMIT,
      t_time_in_force = GTC, t_exec_type = DEFAULT, t_quantity = Fin 1, t_price = Fin 100,
      t_trigger_price = 0, t_timestamp_ns = 0, t_priority = 128\<rparr>"

definition example_ack :: jval where
  "example_ack = JObj [(''result'', JObj [(''data'', JArr [JObj [(''client_oid'', JStr ''7''),
     (''status'', JStr ''ACTIVE'')]])])]"


section \<open>Units of time\<close>

lemma sint_u64: "uint (x :: u64) < 2 ^ 63 \<Longrightarrow> sint x = uint x"
proof -
  assume "uint x < 2 ^ 63"
  moreover have "- (2 ^ 63) \<le> uint x" by (rule order_trans [OF _ uint_ge_0]) simp
  ultimately show ?thesis unfolding sint_uint by (intro signed_take_bit_int_eq_self) simp_all
qed

lemma uint_times_u64: "uint x * n < 2 ^ 64 \<Longrightarrow> 0 \<le> n \<Longrightarrow> n < 2 ^ 64 \<Longrightarrow> uint (x * of_int n :: u64) = uint x * n"
  by (simp add: uint_word_ariths uint_word_of_int_eq take_bit_int_eq_self)

text \<open>
  (C29) The unit of an exchange time is told from its size alone, correctly: an instant between
  1970-04-26 and the end of the 64-bit range, sent as nanoseconds, microseconds or milliseconds, is
  converted to the same instant in nanoseconds, up to what the coarser units leave out, and without
  overflow.
\<close>

theorem exchange_time_unit_detected:
  assumes "10 ^ 16 + 1000 \<le> t" and "t < 2 ^ 63"
  shows "exchange_time_to_ns (of_int t) = t \<and>
    exchange_time_to_ns (of_int (t div 1000)) = t div 1000 * 1000 \<and>
    exchange_time_to_ns (of_int (t div 1000000)) = t div 1000000 * 1000000"
proof -
  have u: "uint (of_int n :: u64) = n" if "0 \<le> n" "n < 2 ^ 64" for n
    using that by (simp add: uint_word_of_int_eq take_bit_int_eq_self)
  have us: "10 ^ 13 < t div 1000" "t div 1000 * 1000 \<le> t" using assms by auto
  have ms: "0 < t div 1000000" "t div 1000000 \<le> 10 ^ 13" "t div 1000000 * 1000000 \<le> t" using assms by auto
  have "exchange_time_to_ns (of_int t) = t"
  proof -
    have "uint (of_int t :: u64) = t" using assms by (intro u) auto
    then show ?thesis using assms by (auto simp: exchange_time_to_ns_def word_less_def sint_u64)
  qed
  moreover have "exchange_time_to_ns (of_int (t div 1000)) = t div 1000 * 1000"
  proof -
    have x: "uint (of_int (t div 1000) :: u64) = t div 1000" using assms us by (intro u) auto
    then have "uint (of_int (t div 1000) * 1000 :: u64) = t div 1000 * 1000"
      using us assms uint_times_u64 [of "of_int (t div 1000)" 1000] by simp
    moreover have "of_int (t div 1000) \<noteq> (0 :: u64)" using x us by auto
    ultimately show ?thesis using x us assms by (auto simp: exchange_time_to_ns_def word_less_def sint_u64)
  qed
  moreover have "exchange_time_to_ns (of_int (t div 1000000)) = t div 1000000 * 1000000"
  proof -
    have x: "uint (of_int (t div 1000000) :: u64) = t div 1000000" using assms ms by (intro u) auto
    then have "uint (of_int (t div 1000000) * 1000000 :: u64) = t div 1000000 * 1000000"
      using ms assms uint_times_u64 [of "of_int (t div 1000000)" 1000000] by simp
    moreover have "of_int (t div 1000000) \<noteq> (0 :: u64)" using x ms by auto
    ultimately show ?thesis using x ms assms by (auto simp: exchange_time_to_ns_def word_less_def sint_u64)
  qed
  ultimately show ?thesis by simp
qed

theorem exchange_time_unit_detected_witness:
  "exchange_time_to_ns 1700000000123456789 = 1700000000123456789 \<and>
   exchange_time_to_ns 1700000000123456 = 1700000000123456000 \<and>
   exchange_time_to_ns 1700000000123 = 1700000000123000000"
  using exchange_time_unit_detected [of 1700000000123456789] by simp

end
