(* ===== verification/Websocket_Client.thy ===== *)
theory Websocket_Client
  imports Exchange_Api "HOL-Library.Sublist"
begin

text \<open>
  \<open>include/exchange/websocket_client.hpp\<close>: the client of the exchange's user channel. It lives on
  Boost.Asio: a method starts an asynchronous operation and a handler runs when it completes. The
  operations started and not yet completed are the list \<open>ws_ops\<close>; \<open>handle_event\<close> runs the handler
  of one that completes, with any result the library may report. What goes into the stream is the
  list \<open>ws_wire\<close>.

  The callbacks are functions on the whole program state, of which the client is a part: the
  operations work on every extension of the record \<open>ws_client\<close>. The library functions the code
  calls are arguments: \<open>J\<close> (JSON), \<open>hmac\<close>, and \<open>what\<close>, the text of a JSON exception.
\<close>

section \<open>State\<close>

text \<open>
  Exceptions of the JSON library: \<open>parse\<close> throws \<open>parse_error\<close>; \<open>get\<close>, \<open>value\<close> and \<open>dump\<close> throw
  \<open>type_error\<close>. A computation that may throw returns the exception with the state it leaves.
\<close>

datatype exn = ParseError | TypeError

type_synonym 'a act = "'a \<Rightarrow> exn option \<times> 'a"

definition and_then :: "'a act \<Rightarrow> 'a act \<Rightarrow> 'a act" where
  "and_then f g s = (case f s of (None, s') \<Rightarrow> g s' | (Some e, s') \<Rightarrow> (Some e, s'))"

datatype io_op =
    Resolve | Connect | SslHandshake | Handshake | Read
  | Write string
  | Wait i32

record ws_client =
  ws_host :: string
  ws_port :: string
  ws_endpoint :: string
  ws_auth :: AuthHandler
  ws_builder :: CryptoComMessageBuilder
  ws_connected :: bool
  ws_authenticated :: bool
  ws_should_reconnect :: bool
  ws_send_queue :: "string list"
  ws_sending :: bool
  ws_reconnect_attempts :: i32
  ws_clock :: clock
  ws_ops :: "io_op list"
  ws_wire :: "string list"
  ws_close_calls :: nat

record ('j, 'a) ws_callbacks =
  on_message :: "('j \<Rightarrow> 'a act) option"
  on_error :: "(string \<Rightarrow> 'a \<Rightarrow> 'a) option"
  on_connected :: "'a act option"
  on_disconnected :: "('a \<Rightarrow> 'a) option"

definition no_callbacks :: "('j, 'a) ws_callbacks" where
  "no_callbacks = \<lparr>on_message = None, on_error = None, on_connected = None, on_disconnected = None\<rparr>"

definition set_callbacks ::
  "('j \<Rightarrow> 'a act) option \<Rightarrow> (string \<Rightarrow> 'a \<Rightarrow> 'a) option \<Rightarrow> 'a act option
     \<Rightarrow> ('j, 'a) ws_callbacks \<Rightarrow> ('j, 'a) ws_callbacks" where
  "set_callbacks on_msg on_err on_conn cb =
     cb\<lparr>on_message := on_msg, on_error := on_err, on_connected := on_conn\<rparr>"

definition HOST_PROD :: string where "HOST_PROD = ''stream.crypto.com''"
definition HOST_SANDBOX :: string where "HOST_SANDBOX = ''uat-stream.3ona.co''"
definition PORT :: string where "PORT = ''443''"
definition PATH_USER :: string where "PATH_USER = ''/exchange/v1/user''"
definition PATH_MARKET :: string where "PATH_MARKET = ''/exchange/v1/market''"

definition new_ws_client :: "AuthHandler \<Rightarrow> bool \<Rightarrow> clock \<Rightarrow> ws_client" where
  "new_ws_client auth use_sandbox c =
     \<lparr>ws_host = (if use_sandbox then HOST_SANDBOX else HOST_PROD), ws_port = PORT,
      ws_endpoint = PATH_USER, ws_auth = auth, ws_builder = new_CryptoComMessageBuilder,
      ws_connected = False, ws_authenticated = False, ws_should_reconnect = True,
      ws_send_queue = [], ws_sending = False, ws_reconnect_attempts = 0, ws_clock = c,
      ws_ops = [], ws_wire = [], ws_close_calls = 0\<rparr>"

definition MAX_RECONNECT_ATTEMPTS :: i32 where "MAX_RECONNECT_ATTEMPTS = 10"
definition RECONNECT_DELAY_MS :: i32 where "RECONNECT_DELAY_MS = 1000"

definition handle_error :: "('j, 'a) ws_callbacks \<Rightarrow> string \<Rightarrow> 'a \<Rightarrow> 'a" where
  "handle_error cb error s = (case on_error cb of None \<Rightarrow> s | Some f \<Rightarrow> f error s)"

definition start_op :: "io_op \<Rightarrow> 'x ws_client_scheme \<Rightarrow> 'x ws_client_scheme" where
  "start_op op s = s\<lparr>ws_ops := ws_ops s @ [op]\<rparr>"

section \<open>The send path\<close>

text \<open>
  The atomic sections of \<open>async_send\<close> and \<open>do_send\<close>: the push under the mutex, the
  compare-and-exchange on \<open>sending_\<close>, the pop (or the release of \<open>sending_\<close>) under the mutex, and
  the start of the write.
\<close>

definition enqueue_message :: "string \<Rightarrow> 'x ws_client_scheme \<Rightarrow> 'x ws_client_scheme" where
  "enqueue_message msg s = s\<lparr>ws_send_queue := ws_send_queue s @ [msg]\<rparr>"

definition acquire_sending :: "'x ws_client_scheme \<Rightarrow> bool \<times> 'x ws_client_scheme" where
  "acquire_sending s = (if ws_sending s then (False, s) else (True, s\<lparr>ws_sending := True\<rparr>))"

definition take_message :: "'x ws_client_scheme \<Rightarrow> string option \<times> 'x ws_client_scheme" where
  "take_message s =
     (case ws_send_queue s of
        [] \<Rightarrow> (None, s\<lparr>ws_sending := False\<rparr>)
      | msg # rest \<Rightarrow> (Some msg, s\<lparr>ws_send_queue := rest\<rparr>))"

definition async_write :: "string \<Rightarrow> 'x ws_client_scheme \<Rightarrow> 'x ws_client_scheme" where
  "async_write msg s = start_op (Write msg) (s\<lparr>ws_wire := ws_wire s @ [msg]\<rparr>)"

definition do_send :: "'x ws_client_scheme \<Rightarrow> 'x ws_client_scheme" where
  "do_send s = (case take_message s of (None, s') \<Rightarrow> s' | (Some msg, s') \<Rightarrow> async_write msg s')"

definition async_send :: "string \<Rightarrow> 'x ws_client_scheme \<Rightarrow> 'x ws_client_scheme" where
  "async_send msg s =
     (let s = enqueue_message msg s; (won, s) = acquire_sending s in if won then do_send s else s)"

definition on_write ::
  "('j, 'x ws_client_scheme) ws_callbacks \<Rightarrow> string option \<Rightarrow> 'x ws_client_scheme \<Rightarrow> 'x ws_client_scheme" where
  "on_write cb ec s =
     (case ec of
        Some m \<Rightarrow> (handle_error cb (''Write error: '' @ m) s)\<lparr>ws_sending := False\<rparr>
      | None \<Rightarrow> do_send s)"

section \<open>Requests\<close>

text \<open>\<open>json msg = msg_builder_->build_\<dots>(\<dots>); async_send(msg.dump());\<close>\<close>

definition send_request ::
  "'j json_lib \<Rightarrow> (CryptoComMessageBuilder \<Rightarrow> clock \<Rightarrow> 'j option \<times> CryptoComMessageBuilder \<times> clock)
     \<Rightarrow> 'x ws_client_scheme act" where
  "send_request J build s =
     (let (msg, mb, c) = build (ws_builder s) (ws_clock s);
          s = s\<lparr>ws_builder := mb, ws_clock := c\<rparr>
      in case Option.bind msg (j_dump J) of
           None \<Rightarrow> (Some TypeError, s)
         | Some dumped \<Rightarrow> (None, async_send dumped s))"

definition if_authenticated :: "'x ws_client_scheme act \<Rightarrow> 'x ws_client_scheme act" where
  "if_authenticated f s = (if \<not> ws_authenticated s then (None, s) else f s)"

definition send_order ::
  "'j json_lib \<Rightarrow> hmac_fn \<Rightarrow> ('j, 'x ws_client_scheme) ws_callbacks \<Rightarrow> Trade \<Rightarrow> 'x ws_client_scheme act" where
  "send_order J hmac cb trade s =
     (if \<not> ws_authenticated s then (None, handle_error cb ''Not authenticated'' s)
      else send_request J (build_create_order J hmac (ws_auth s) trade) s)"

definition ws_cancel_order ::
  "'j json_lib \<Rightarrow> hmac_fn \<Rightarrow> string \<Rightarrow> u64 \<Rightarrow> u64 \<Rightarrow> 'x ws_client_scheme act" where
  "ws_cancel_order J hmac instrument order_id client_oid = if_authenticated (\<lambda>s.
     send_request J (build_cancel_order J hmac (ws_auth s) instrument order_id client_oid) s)"

definition ws_cancel_all_orders :: "'j json_lib \<Rightarrow> hmac_fn \<Rightarrow> string \<Rightarrow> 'x ws_client_scheme act" where
  "ws_cancel_all_orders J hmac instrument = if_authenticated (\<lambda>s.
     send_request J (build_cancel_all_orders J hmac (ws_auth s) instrument) s)"

definition get_open_orders :: "'j json_lib \<Rightarrow> hmac_fn \<Rightarrow> string \<Rightarrow> 'x ws_client_scheme act" where
  "get_open_orders J hmac instrument = if_authenticated (\<lambda>s.
     send_request J (build_get_open_orders J hmac (ws_auth s) instrument) s)"

definition subscribe_order_updates :: "'j json_lib \<Rightarrow> hmac_fn \<Rightarrow> string \<Rightarrow> 'x ws_client_scheme act" where
  "subscribe_order_updates J hmac instrument = if_authenticated (\<lambda>s.
     send_request J (build_subscribe_user_order J hmac (ws_auth s) instrument) s)"

definition subscribe_trade_updates :: "'j json_lib \<Rightarrow> hmac_fn \<Rightarrow> string \<Rightarrow> 'x ws_client_scheme act" where
  "subscribe_trade_updates J hmac instrument = if_authenticated (\<lambda>s.
     send_request J (build_subscribe_user_trade J hmac (ws_auth s) instrument) s)"

definition send_raw :: "string \<Rightarrow> 'x ws_client_scheme \<Rightarrow> 'x ws_client_scheme" where
  "send_raw message = async_send message"

section \<open>The connection\<close>

text \<open>
  \<open>do_connect\<close> destroys and rebuilds the stream before it starts the resolver; what was
  outstanding on the old stream still completes (with \<open>operation_aborted\<close>), so it stays in
  \<open>ws_ops\<close>.
\<close>

definition do_connect :: "'x ws_client_scheme \<Rightarrow> 'x ws_client_scheme" where
  "do_connect s = start_op Resolve s"

definition connect :: "'x ws_client_scheme \<Rightarrow> 'x ws_client_scheme" where
  "connect s = do_connect (s\<lparr>ws_should_reconnect := True, ws_reconnect_attempts := 0\<rparr>)"

definition ws_close :: "'x ws_client_scheme \<Rightarrow> 'x ws_client_scheme" where
  "ws_close s =
     (let s = s\<lparr>ws_should_reconnect := False\<rparr>
      in if ws_connected s
         then s\<lparr>ws_connected := False, ws_authenticated := False, ws_close_calls := Suc (ws_close_calls s)\<rparr>
         else s)"

definition schedule_reconnect ::
  "('j, 'x ws_client_scheme) ws_callbacks \<Rightarrow> 'x ws_client_scheme \<Rightarrow> 'x ws_client_scheme" where
  "schedule_reconnect cb s =
     (if \<not> ws_should_reconnect s \<or> MAX_RECONNECT_ATTEMPTS \<le> ws_reconnect_attempts s
      then if MAX_RECONNECT_ATTEMPTS \<le> ws_reconnect_attempts s
           then handle_error cb ''Max reconnection attempts reached'' s else s
      else let s = s\<lparr>ws_reconnect_attempts := ws_reconnect_attempts s + 1\<rparr>
           in start_op (Wait (RECONNECT_DELAY_MS * ws_reconnect_attempts s)) s)"

definition on_reconnect_timer :: "bool \<Rightarrow> 'x ws_client_scheme \<Rightarrow> 'x ws_client_scheme" where
  "on_reconnect_timer cancelled s = (if \<not> cancelled \<and> ws_should_reconnect s then do_connect s else s)"

text \<open>An error code is \<open>None\<close> for success, or the text its \<open>message()\<close> returns.\<close>

definition connection_failed ::
  "('j, 'x ws_client_scheme) ws_callbacks \<Rightarrow> string \<Rightarrow> 'x ws_client_scheme \<Rightarrow> 'x ws_client_scheme" where
  "connection_failed cb error s = schedule_reconnect cb (handle_error cb error s)"

definition on_resolve ::
  "('j, 'x ws_client_scheme) ws_callbacks \<Rightarrow> string option \<Rightarrow> 'x ws_client_scheme \<Rightarrow> 'x ws_client_scheme" where
  "on_resolve cb ec s =
     (case ec of Some m \<Rightarrow> connection_failed cb (''Resolve failed: '' @ m) s | None \<Rightarrow> start_op Connect s)"

definition on_connect ::
  "('j, 'x ws_client_scheme) ws_callbacks \<Rightarrow> string option \<Rightarrow> bool \<Rightarrow> 'x ws_client_scheme \<Rightarrow> 'x ws_client_scheme" where
  "on_connect cb ec sni_set s =
     (case ec of
        Some m \<Rightarrow> connection_failed cb (''Connect failed: '' @ m) s
      | None \<Rightarrow> if \<not> sni_set then connection_failed cb ''Failed to set SNI hostname'' s
               else start_op SslHandshake s)"

definition on_ssl_handshake ::
  "('j, 'x ws_client_scheme) ws_callbacks \<Rightarrow> string option \<Rightarrow> 'x ws_client_scheme \<Rightarrow> 'x ws_client_scheme" where
  "on_ssl_handshake cb ec s =
     (case ec of Some m \<Rightarrow> connection_failed cb (''SSL handshake failed: '' @ m) s | None \<Rightarrow> start_op Handshake s)"

definition do_read :: "'x ws_client_scheme \<Rightarrow> 'x ws_client_scheme" where
  "do_read s = start_op Read s"

definition on_handshake ::
  "'j json_lib \<Rightarrow> hmac_fn \<Rightarrow> ('j, 'x ws_client_scheme) ws_callbacks \<Rightarrow> string option \<Rightarrow> 'x ws_client_scheme act" where
  "on_handshake J hmac cb ec s =
     (case ec of
        Some m \<Rightarrow> (None, connection_failed cb (''WebSocket handshake failed: '' @ m) s)
      | None \<Rightarrow>
          let s = do_read (s\<lparr>ws_connected := True, ws_reconnect_attempts := 0\<rparr>)
          in send_request J (build_auth_request J hmac (ws_auth s)) s)"

section \<open>Messages\<close>

definition on_heartbeat :: "'j json_lib \<Rightarrow> 'j \<Rightarrow> 'x ws_client_scheme act" where
  "on_heartbeat J msg s =
     (case Option.bind (get_heartbeat_id J msg) (\<lambda>i. j_dump J (build_heartbeat_response J i)) of
        None \<Rightarrow> (Some TypeError, s)
      | Some dumped \<Rightarrow> (None, async_send dumped s))"

definition on_auth_answer ::
  "'j json_lib \<Rightarrow> ('j, 'x ws_client_scheme) ws_callbacks \<Rightarrow> 'j \<Rightarrow> 'x ws_client_scheme act" where
  "on_auth_answer J cb msg s =
     (case (case j_at J msg ''code'' of None \<Rightarrow> Some False | Some v \<Rightarrow> map_option (\<lambda>c. c = 0) (j_get_i32 J v)) of
        None \<Rightarrow> (Some TypeError, s)
      | Some True \<Rightarrow>
          let s = s\<lparr>ws_authenticated := True\<rparr>
          in (case on_connected cb of None \<Rightarrow> (None, s) | Some f \<Rightarrow> f s)
      | Some False \<Rightarrow>
          (case j_at J msg ''message'' of
             None \<Rightarrow> (None, handle_error cb ''Authentication failed'' s)
           | Some v \<Rightarrow>
               (case j_get_string J v of
                  None \<Rightarrow> (Some TypeError, s)
                | Some m \<Rightarrow> (None, handle_error cb (''Authentication failed: '' @ m) s))))"

text \<open>The body of the \<open>try\<close> block of \<open>on_read\<close>.\<close>

definition dispatch_message ::
  "'j json_lib \<Rightarrow> ('j, 'x ws_client_scheme) ws_callbacks \<Rightarrow> string \<Rightarrow> 'x ws_client_scheme act" where
  "dispatch_message J cb msg_str s =
     (case j_parse J msg_str of
        None \<Rightarrow> (Some ParseError, s)
      | Some msg \<Rightarrow>
          if is_heartbeat J msg then on_heartbeat J msg s
          else if method_is J ''public/auth'' msg then on_auth_answer J cb msg s
          else (case on_message cb of None \<Rightarrow> (None, s) | Some f \<Rightarrow> f msg s))"

text \<open>What a read reports: a whole message, \<open>websocket::error::closed\<close>, or another error.\<close>

datatype read_result = Received string | Closed | ReadError string

definition on_read ::
  "'j json_lib \<Rightarrow> (exn \<Rightarrow> string) \<Rightarrow> ('j, 'x ws_client_scheme) ws_callbacks \<Rightarrow> read_result
     \<Rightarrow> 'x ws_client_scheme \<Rightarrow> 'x ws_client_scheme" where
  "on_read J what cb result s =
     (case result of
        Received msg_str \<Rightarrow>
          let s = (case dispatch_message J cb msg_str s of
                     (None, s) \<Rightarrow> s
                   | (Some e, s) \<Rightarrow> handle_error cb (''JSON parse error: '' @ what e) s)
          in if ws_connected s then do_read s else s
      | _ \<Rightarrow>
          let s = s\<lparr>ws_connected := False, ws_authenticated := False\<rparr>;
              s = (case result of ReadError m \<Rightarrow> handle_error cb (''Read error: '' @ m) s | _ \<Rightarrow> s);
              s = (case on_disconnected cb of None \<Rightarrow> s | Some f \<Rightarrow> f s)
          in schedule_reconnect cb s)"

section \<open>Completions\<close>

datatype io_event =
    Resolved "string option"
  | ConnectDone "string option" bool
  | SslHandshakeDone "string option"
  | HandshakeDone "string option"
  | ReadDone read_result
  | WriteDone string "string option"
  | WaitDone i32 bool

fun completes :: "io_event \<Rightarrow> io_op" where
  "completes (Resolved ec) = Resolve"
| "completes (ConnectDone ec sni_set) = Connect"
| "completes (SslHandshakeDone ec) = SslHandshake"
| "completes (HandshakeDone ec) = Handshake"
| "completes (ReadDone result) = Read"
| "completes (WriteDone msg ec) = Write msg"
| "completes (WaitDone delay cancelled) = Wait delay"

fun run_handler ::
  "'j json_lib \<Rightarrow> hmac_fn \<Rightarrow> (exn \<Rightarrow> string) \<Rightarrow> ('j, 'x ws_client_scheme) ws_callbacks \<Rightarrow> io_event
     \<Rightarrow> 'x ws_client_scheme act" where
  "run_handler J hmac what cb (Resolved ec) s = (None, on_resolve cb ec s)"
| "run_handler J hmac what cb (ConnectDone ec sni_set) s = (None, on_connect cb ec sni_set s)"
| "run_handler J hmac what cb (SslHandshakeDone ec) s = (None, on_ssl_handshake cb ec s)"
| "run_handler J hmac what cb (HandshakeDone ec) s = on_handshake J hmac cb ec s"
| "run_handler J hmac what cb (ReadDone result) s = (None, on_read J what cb result s)"
| "run_handler J hmac what cb (WriteDone msg ec) s = (None, on_write cb ec s)"
| "run_handler J hmac what cb (WaitDone delay cancelled) s = (None, on_reconnect_timer cancelled s)"

definition handle_event ::
  "'j json_lib \<Rightarrow> hmac_fn \<Rightarrow> (exn \<Rightarrow> string) \<Rightarrow> ('j, 'x ws_client_scheme) ws_callbacks \<Rightarrow> io_event
     \<Rightarrow> 'x ws_client_scheme act" where
  "handle_event J hmac what cb ev s =
     run_handler J hmac what cb ev (s\<lparr>ws_ops := remove1 (completes ev) (ws_ops s)\<rparr>)"

text \<open>
  Which completions the library can report: \<open>expires_after\<close> cancels the waits still pending and
  nothing else does, so a cancelled wait leaves another one outstanding.
\<close>

fun is_wait :: "io_op \<Rightarrow> bool" where
  "is_wait (Wait delay) = True"
| "is_wait _ = False"

fun possible :: "io_event \<Rightarrow> 'x ws_client_scheme \<Rightarrow> bool" where
  "possible (WaitDone delay True) s = (Wait delay \<in> set (ws_ops s) \<and> list_ex is_wait (remove1 (Wait delay) (ws_ops s)))"
| "possible ev s = (completes ev \<in> set (ws_ops s))"

section \<open>Invariants\<close>

text \<open>
  The outstanding operations are at most one write and one operation of the connection: a step of
  the handshake, the read, or the wait before the next attempt.
\<close>

fun is_write :: "io_op \<Rightarrow> bool" where
  "is_write (Write msg) = True"
| "is_write _ = False"

definition chain :: "'x ws_client_scheme \<Rightarrow> io_op list" where
  "chain s = filter (\<lambda>op. \<not> is_write op) (ws_ops s)"

definition one_writer :: "'x ws_client_scheme \<Rightarrow> bool" where
  "one_writer s \<longleftrightarrow> length (filter is_write (ws_ops s)) = (if ws_sending s then 1 else 0)"

definition chain_ok :: "'x ws_client_scheme \<Rightarrow> bool" where
  "chain_ok s \<longleftrightarrow>
     (case chain s of
        [] \<Rightarrow> \<not> ws_connected s \<and> (ws_should_reconnect s \<longrightarrow> ws_reconnect_attempts s = MAX_RECONNECT_ATTEMPTS)
      | [op] \<Rightarrow> (ws_connected s \<longrightarrow> op = Read) \<and> (op = Read \<and> ws_should_reconnect s \<longrightarrow> ws_connected s) \<and>
          (case op of Wait d \<Rightarrow> 1 \<le> ws_reconnect_attempts s \<and> d = RECONNECT_DELAY_MS * ws_reconnect_attempts s
           | _ \<Rightarrow> True)
      | _ \<Rightarrow> False)"

definition ws_inv :: "'x ws_client_scheme \<Rightarrow> bool" where
  "ws_inv s \<longleftrightarrow> one_writer s \<and> chain_ok s \<and>
     0 \<le> ws_reconnect_attempts s \<and> ws_reconnect_attempts s \<le> MAX_RECONNECT_ATTEMPTS \<and>
     (ws_should_reconnect s \<and> ws_authenticated s \<longrightarrow> ws_connected s)"

text \<open>Everything ever queued, in order: what was written and then what is still waiting.\<close>

definition queued :: "'x ws_client_scheme \<Rightarrow> string list" where
  "queued s = ws_wire s @ ws_send_queue s"

text \<open>
  What sending does to the client: the connection is untouched, messages are added at the end, and
  a write is started exactly when \<open>sending_\<close> is taken.
\<close>

abbreviation writes :: "'x ws_client_scheme \<Rightarrow> nat" where
  "writes s \<equiv> length (filter is_write (ws_ops s))"

definition ws_quiet :: "'x ws_client_scheme \<Rightarrow> 'x ws_client_scheme \<Rightarrow> bool" where
  "ws_quiet s s' \<longleftrightarrow>
     ws_connected s' = ws_connected s \<and> ws_authenticated s' = ws_authenticated s \<and>
     ws_should_reconnect s' = ws_should_reconnect s \<and> ws_reconnect_attempts s' = ws_reconnect_attempts s \<and>
     chain s' = chain s \<and> prefix (queued s) (queued s') \<and>
     writes s' + (if ws_sending s then 1 else 0) = writes s + (if ws_sending s' then 1 else 0)"

lemma ws_quiet_refl [simp, intro]: "ws_quiet s s"
  by (simp add: ws_quiet_def)

lemma ws_quiet_trans: "ws_quiet s s' \<Longrightarrow> ws_quiet s' s'' \<Longrightarrow> ws_quiet s s''"
  unfolding ws_quiet_def by (elim conjE, intro conjI) (auto intro: prefix_order.trans)

lemma ws_quiet_writer: "ws_quiet s s' \<Longrightarrow> one_writer s' = one_writer s"
  by (auto simp: ws_quiet_def one_writer_def)

lemma ws_quiet_inv [inv_intros]: "ws_inv s \<Longrightarrow> ws_quiet s s' \<Longrightarrow> ws_inv s'"
  using ws_quiet_writer [of s s']
  by (auto simp: ws_inv_def ws_quiet_def chain_ok_def split: list.splits io_op.splits)

lemma start_op_simps [simp]:
  "chain (start_op op s) = chain s @ (if is_write op then [] else [op])"
  "one_writer (start_op op s) \<longleftrightarrow> writes s + (if is_write op then 1 else 0) = (if ws_sending s then 1 else 0)"
  "filter is_write (ws_ops (start_op op s)) = filter is_write (ws_ops s) @ (if is_write op then [op] else [])"
  "queued (start_op op s) = queued s"
  "ws_sending (start_op op s) = ws_sending s"
  "ws_connected (start_op op s) = ws_connected s"
  "ws_authenticated (start_op op s) = ws_authenticated s"
  "ws_should_reconnect (start_op op s) = ws_should_reconnect s"
  "ws_reconnect_attempts (start_op op s) = ws_reconnect_attempts s"
  by (simp_all add: start_op_def chain_def one_writer_def queued_def)

text \<open>\<open>do_send\<close> runs with \<open>sending_\<close> set: it starts a write or gives \<open>sending_\<close> up.\<close>

lemma do_send_step:
  assumes "ws_sending s"
  shows "ws_connected (do_send s) = ws_connected s \<and> ws_authenticated (do_send s) = ws_authenticated s \<and>
     ws_should_reconnect (do_send s) = ws_should_reconnect s \<and>
     ws_reconnect_attempts (do_send s) = ws_reconnect_attempts s \<and>
     chain (do_send s) = chain s \<and> queued (do_send s) = queued s \<and>
     writes (do_send s) = writes s + (if ws_sending (do_send s) then 1 else 0) \<and>
     (ws_sending (do_send s) \<longleftrightarrow> ws_send_queue s \<noteq> [])"
  using assms
  by (cases "ws_send_queue s")
    (simp_all add: do_send_def take_message_def async_write_def start_op_def chain_def queued_def)

lemma async_send_quiet: "ws_quiet s (async_send msg s)"
proof (cases "ws_sending s")
  case True
  then show ?thesis
    by (simp add: async_send_def acquire_sending_def enqueue_message_def ws_quiet_def chain_def queued_def)
next
  case False
  let ?s = "(enqueue_message msg s)\<lparr>ws_sending := True\<rparr>"
  have "async_send msg s = do_send ?s"
    using False by (simp add: async_send_def acquire_sending_def enqueue_message_def)
  moreover have "chain ?s = chain s \<and> queued ?s = queued s @ [msg] \<and> ws_send_queue ?s \<noteq> [] \<and> ws_sending ?s"
    by (simp add: chain_def queued_def enqueue_message_def)
  ultimately show ?thesis
    using do_send_step [of ?s] False by (simp add: ws_quiet_def enqueue_message_def)
qed

end
