(* ===== verification/Websocket_Safety.thy ===== *)
theory Websocket_Safety
  imports Websocket_Client
begin

text \<open>
  What the handlers of the WebSocket client keep: the invariant \<open>ws_inv\<close> and the order of the
  messages. The callbacks belong to the client's user; the locale \<open>quiet_callbacks\<close> states what the
  client relies on (a callback may send, and leaves the connection alone) and its lemmas hold of
  every user that keeps to it. The last section takes the send path apart into its atomic sections
  and lets any number of threads interleave them.
\<close>

section \<open>Requests only send\<close>

lemma ws_quiet_builder [simp]:
  "ws_quiet (s\<lparr>ws_builder := b, ws_clock := c\<rparr>) s' = ws_quiet s s'"
  by (simp add: ws_quiet_def chain_def one_writer_def queued_def)

lemma ws_quiet_to_builder [simp]:
  "ws_quiet s (s'\<lparr>ws_builder := b, ws_clock := c\<rparr>) = ws_quiet s s'"
  by (simp add: ws_quiet_def chain_def one_writer_def queued_def)

lemma send_request_quiet: "ws_quiet s (snd (send_request J build s))"
  unfolding send_request_def Let_def split_beta
  by (simp add: async_send_quiet [THEN ws_quiet_builder [THEN iffD1]] split: option.splits)

lemma if_authenticated_quiet: "(\<And>s. ws_quiet s (snd (f s))) \<Longrightarrow> ws_quiet s (snd (if_authenticated f s))"
  by (simp add: if_authenticated_def)

lemma requests_quiet:
  "ws_quiet s (snd (ws_cancel_order J hmac i oid cid s))"
  "ws_quiet s (snd (ws_cancel_all_orders J hmac i s))"
  "ws_quiet s (snd (get_open_orders J hmac i s))"
  "ws_quiet s (snd (subscribe_order_updates J hmac i s))"
  "ws_quiet s (snd (subscribe_trade_updates J hmac i s))"
  "ws_quiet s (send_raw m s)"
  unfolding ws_cancel_order_def ws_cancel_all_orders_def get_open_orders_def subscribe_order_updates_def
    subscribe_trade_updates_def send_raw_def
  by (intro if_authenticated_quiet send_request_quiet async_send_quiet)+

lemma and_then_quiet:
  assumes "\<And>s. ws_quiet s (snd (f s))" "\<And>s. ws_quiet s (snd (g s))"
  shows "ws_quiet s (snd (and_then f g s))"
  using assms(1) [of s] ws_quiet_trans [OF assms(1) assms(2)]
  by (auto simp: and_then_def split: prod.splits option.splits) (metis snd_conv)

section \<open>Handlers\<close>

lemma is_wait_not_write: "is_wait op \<Longrightarrow> \<not> is_write op"
  by (cases op) simp_all

text \<open>The state while a handler of the connection runs, before it starts the next operation.\<close>

definition dialling :: "'x ws_client_scheme \<Rightarrow> bool" where
  "dialling s \<longleftrightarrow> one_writer s \<and> chain s = [] \<and> \<not> ws_connected s \<and>
     0 \<le> ws_reconnect_attempts s \<and> ws_reconnect_attempts s \<le> MAX_RECONNECT_ATTEMPTS \<and>
     (ws_should_reconnect s \<longrightarrow> \<not> ws_authenticated s)"

lemma dialling_quiet: "dialling s \<Longrightarrow> ws_quiet s s' \<Longrightarrow> dialling s'"
  using ws_quiet_writer [of s s'] by (simp add: dialling_def ws_quiet_def)

lemma dialling_start:
  "dialling s \<Longrightarrow> \<not> is_write op \<Longrightarrow> op \<noteq> Read \<Longrightarrow> \<not> is_wait op \<Longrightarrow> ws_inv (start_op op s)"
  by (cases op) (auto simp: dialling_def ws_inv_def chain_ok_def one_writer_def [of s])

text \<open>Removing the operation that completed.\<close>

definition completed :: "io_op \<Rightarrow> 'x ws_client_scheme \<Rightarrow> 'x ws_client_scheme" where
  "completed op s = s\<lparr>ws_ops := remove1 op (ws_ops s)\<rparr>"

lemma completed_simps [simp]:
  "ws_connected (completed op s) = ws_connected s" "ws_authenticated (completed op s) = ws_authenticated s"
  "ws_should_reconnect (completed op s) = ws_should_reconnect s" "ws_sending (completed op s) = ws_sending s"
  "ws_reconnect_attempts (completed op s) = ws_reconnect_attempts s"
  "queued (completed op s) = queued s" "ws_ops (completed op s) = remove1 op (ws_ops s)"
  by (simp_all add: completed_def queued_def)

lemma filter_remove1_not: "\<not> P x \<Longrightarrow> filter P (remove1 x xs) = filter P xs"
  by (induction xs) auto

lemma completed_chain:
  assumes "ws_inv s" and "op \<in> set (ws_ops s)" and "\<not> is_write op"
  shows "chain s = [op] \<and> chain (completed op s) = [] \<and> one_writer (completed op s)"
proof -
  have "op \<in> set (chain s)" using assms by (simp add: chain_def)
  moreover have "length (chain s) \<le> 1" using assms(1) by (simp add: ws_inv_def chain_ok_def split: list.splits)
  ultimately have c: "chain s = [op]" by (cases "chain s") auto
  have "chain (completed op s) = remove1 op (chain s)" by (simp add: chain_def filter_remove1)
  moreover have "one_writer (completed op s)"
    using assms by (simp add: one_writer_def ws_inv_def filter_remove1_not)
  ultimately show ?thesis using c by simp
qed

lemma completed_dialling:
  assumes "ws_inv s" and "op \<in> set (ws_ops s)" and "\<not> is_write op" and "op \<noteq> Read"
  shows "dialling (completed op s)"
  using completed_chain [OF assms(1-3)] assms(1,4) by (auto simp: dialling_def ws_inv_def chain_ok_def)

lemma completed_writes: "Write m \<in> set (ws_ops s) \<Longrightarrow> writes (completed (Write m) s) + 1 = writes s"
  using length_pos_if_in_set [of "Write m" "filter is_write (ws_ops s)"]
  by (simp add: filter_remove1 length_remove1)

lemma completed_write:
  assumes "ws_inv s" and "Write m \<in> set (ws_ops s)"
  shows "writes (completed (Write m) s) = 0" and "ws_sending s" and "chain (completed (Write m) s) = chain s"
proof -
  show "ws_sending s" and "writes (completed (Write m) s) = 0"
    using assms completed_writes [OF assms(2)] by (auto simp: ws_inv_def one_writer_def split: if_splits)
  show "chain (completed (Write m) s) = chain s" by (simp add: chain_def filter_remove1_not)
qed

text \<open>Completions other than a successful handshake and what follows it.\<close>

fun dial_event :: "io_event \<Rightarrow> bool" where
  "dial_event (HandshakeDone ec) = (ec \<noteq> None)"
| "dial_event (ReadDone result) = False"
| "dial_event ev = True"

definition dials_left :: "'x ws_client_scheme \<Rightarrow> int" where
  "dials_left s = MAX_RECONNECT_ATTEMPTS - ws_reconnect_attempts s
     + (if list_ex (\<lambda>op. op = Resolve \<or> is_wait op) (chain s) then 1 else 0)"

lemma dials_left_sending [simp]: "dials_left (s\<lparr>ws_sending := b\<rparr>) = dials_left s"
  by (simp add: dials_left_def chain_def)

locale quiet_callbacks =
  fixes cb :: "('j, 'x ws_client_scheme) ws_callbacks"
  assumes message_quiet: "on_message cb = Some f \<Longrightarrow> ws_quiet s (snd (f msg s))"
    and error_quiet: "on_error cb = Some g \<Longrightarrow> ws_quiet s (g err s)"
    and connected_quiet: "on_connected cb = Some h \<Longrightarrow> ws_quiet s (snd (h s))"
    and disconnected_quiet: "on_disconnected cb = Some k \<Longrightarrow> ws_quiet s (k s)"
begin

lemma handle_error_quiet: "ws_quiet s (handle_error cb err s)"
  using error_quiet by (simp add: handle_error_def split: option.splits)

lemma send_order_quiet: "ws_quiet s (snd (send_order J hmac cb trade s))"
  by (simp add: send_order_def handle_error_quiet send_request_quiet)

lemma schedule_reconnect_ok:
  assumes "dialling s"
  shows "ws_inv (schedule_reconnect cb s) \<and> prefix (queued s) (queued (schedule_reconnect cb s))"
proof (cases "\<not> ws_should_reconnect s \<or> MAX_RECONNECT_ATTEMPTS \<le> ws_reconnect_attempts s")
  case True
  have "ws_inv s" using assms True by (auto simp: dialling_def ws_inv_def chain_ok_def)
  moreover have "ws_quiet s (schedule_reconnect cb s)"
    using True by (simp add: schedule_reconnect_def handle_error_quiet)
  ultimately show ?thesis using ws_quiet_inv by (auto simp: ws_quiet_def)
next
  case False
  then show ?thesis
    using assms
    by (simp add: schedule_reconnect_def dialling_def ws_inv_def chain_ok_def one_writer_def chain_def
        queued_def start_op_def)
qed

lemma connection_failed_ok:
  assumes "dialling s"
  shows "ws_inv (connection_failed cb err s) \<and> prefix (queued s) (queued (connection_failed cb err s))"
  using schedule_reconnect_ok [OF dialling_quiet [OF assms handle_error_quiet]] handle_error_quiet
  unfolding connection_failed_def ws_quiet_def by (meson prefix_order.trans)

lemma dial_handlers_ok:
  assumes "dialling s"
  shows "ws_inv (on_resolve cb ec s) \<and> prefix (queued s) (queued (on_resolve cb ec s))"
    and "ws_inv (on_connect cb ec sni s) \<and> prefix (queued s) (queued (on_connect cb ec sni s))"
    and "ws_inv (on_ssl_handshake cb ec s) \<and> prefix (queued s) (queued (on_ssl_handshake cb ec s))"
  using dialling_start [OF assms] connection_failed_ok [OF assms]
  by (auto simp: on_resolve_def on_connect_def on_ssl_handshake_def split: option.splits)

lemma on_handshake_ok:
  assumes "dialling s"
  shows "ws_inv (snd (on_handshake J hmac cb ec s)) \<and> prefix (queued s) (queued (snd (on_handshake J hmac cb ec s)))"
proof (cases ec)
  case None
  let ?s = "do_read (s\<lparr>ws_connected := True, ws_reconnect_attempts := 0\<rparr>)"
  have "ws_inv ?s"
    using assms by (simp add: do_read_def start_op_def dialling_def ws_inv_def chain_ok_def chain_def
        one_writer_def MAX_RECONNECT_ATTEMPTS_def)
  moreover have "queued ?s = queued s" by (simp add: do_read_def queued_def start_op_def)
  moreover have "ws_quiet ?s (snd (on_handshake J hmac cb ec s))"
    using None by (simp add: on_handshake_def Let_def send_request_quiet del: ws_quiet_builder)
  ultimately show ?thesis using ws_quiet_inv unfolding ws_quiet_def by metis
qed (simp add: on_handshake_def connection_failed_ok [OF assms])

lemma dispatch_message_quiet:
  "ws_quiet s (snd (dispatch_message J cb str s)) \<or>
   ws_quiet (s\<lparr>ws_authenticated := True\<rparr>) (snd (dispatch_message J cb str s))"
  using message_quiet connected_quiet handle_error_quiet async_send_quiet
  by (auto simp: dispatch_message_def on_heartbeat_def on_auth_answer_def Let_def
      split: option.splits bool.splits)

lemma on_read_ok:
  assumes "one_writer s" "chain s = []" "ws_should_reconnect s \<longrightarrow> ws_connected s"
    and "0 \<le> ws_reconnect_attempts s" "ws_reconnect_attempts s \<le> MAX_RECONNECT_ATTEMPTS"
  shows "ws_inv (on_read J what cb result s) \<and> prefix (queued s) (queued (on_read J what cb result s))"
proof (cases "\<exists>str. result = Received str")
  case True
  then obtain str where res: "result = Received str" ..
  obtain a where a: "a = s \<or> a = s\<lparr>ws_authenticated := True\<rparr>"
    and q: "ws_quiet a (snd (dispatch_message J cb str s))" using dispatch_message_quiet by blast
  define t where "t = (case dispatch_message J cb str s of (None, s') \<Rightarrow> s'
    | (Some e, s') \<Rightarrow> handle_error cb (''JSON parse error: '' @ what e) s')"
  have "ws_quiet a t"
    using q ws_quiet_trans [OF q handle_error_quiet]
    by (auto simp: t_def split: prod.splits option.splits)
  moreover have "one_writer a \<and> chain a = [] \<and> queued a = queued s \<and> ws_connected a = ws_connected s \<and>
      ws_should_reconnect a = ws_should_reconnect s \<and> ws_reconnect_attempts a = ws_reconnect_attempts s"
    using assms a by (auto simp: one_writer_def chain_def queued_def)
  moreover have "on_read J what cb result s = (if ws_connected t then do_read t else t)"
    by (simp add: res on_read_def t_def)
  ultimately show ?thesis
    using assms by (auto simp: ws_quiet_def ws_inv_def chain_ok_def do_read_def one_writer_def)
next
  case False
  let ?s = "s\<lparr>ws_connected := False, ws_authenticated := False\<rparr>"
  have d: "dialling ?s"
    using assms by (simp add: dialling_def one_writer_def chain_def)
  define t where "t = (case on_disconnected cb of None \<Rightarrow> id | Some f \<Rightarrow> f)
    (case result of ReadError m \<Rightarrow> handle_error cb (''Read error: '' @ m) ?s | _ \<Rightarrow> ?s)"
  have "ws_quiet ?s (case result of ReadError m \<Rightarrow> handle_error cb (''Read error: '' @ m) ?s | _ \<Rightarrow> ?s)"
    using handle_error_quiet by (simp split: read_result.splits)
  then have q: "ws_quiet ?s t"
    unfolding t_def using disconnected_quiet
    by (auto split: option.splits intro: ws_quiet_trans)
  have "on_read J what cb result s = schedule_reconnect cb t"
    using False by (auto simp: on_read_def t_def Let_def split: read_result.splits option.splits)
  moreover have "prefix (queued s) (queued t)" using q by (simp add: ws_quiet_def queued_def)
  ultimately show ?thesis
    using schedule_reconnect_ok [OF dialling_quiet [OF d q]] by (auto intro: prefix_order.trans)
qed

lemma on_write_ok:
  assumes "writes s = 0" "ws_sending s" "ws_inv (s\<lparr>ws_sending := False\<rparr>)"
  shows "ws_inv (on_write cb ec s) \<and> prefix (queued s) (queued (on_write cb ec s))"
proof (cases ec)
  case None
  then show ?thesis
    using do_send_step [OF assms(2)] assms(1,3)
    by (auto simp: on_write_def ws_inv_def chain_ok_def one_writer_def chain_def split: list.splits io_op.splits)
next
  case (Some m)
  let ?t = "handle_error cb (''Write error: '' @ m) s"
  have q: "ws_quiet s ?t" by (rule handle_error_quiet)
  then have "ws_quiet (s\<lparr>ws_sending := False\<rparr>) (?t\<lparr>ws_sending := False\<rparr>)"
    using assms(1,2) by (auto simp: ws_quiet_def chain_def queued_def split: if_splits)
  then show ?thesis
    using ws_quiet_inv [OF assms(3)] q Some by (simp add: on_write_def ws_quiet_def queued_def)
qed

text \<open>Every completion keeps the invariant and the order of the messages.\<close>

lemma handle_event_completed: "handle_event J hmac what cb ev s = run_handler J hmac what cb ev (completed (completes ev) s)"
  by (simp add: handle_event_def completed_def)

lemma possible_completes: "possible ev s \<Longrightarrow> completes ev \<in> set (ws_ops s)"
  by (cases "(ev, s)" rule: possible.cases) auto

lemma no_cancelled_wait: "ws_inv s \<Longrightarrow> \<not> possible (WaitDone d True) s"
proof
  assume inv: "ws_inv s" and p: "possible (WaitDone d True) s"
  then obtain op where "op \<in> set (remove1 (Wait d) (ws_ops s))" "is_wait op" by (auto simp: list_ex_iff)
  then have "op \<in> set (chain (completed (Wait d) s))" using is_wait_not_write by (simp add: chain_def)
  then show False using completed_chain [OF inv, of "Wait d"] p by simp
qed

lemma event_ok:
  assumes inv: "ws_inv s" and p: "possible ev s"
  shows "ws_inv (snd (handle_event J hmac what cb ev s)) \<and>
    prefix (queued s) (queued (snd (handle_event J hmac what cb ev s)))"
proof -
  let ?c = "completed (completes ev) s"
  have mem: "completes ev \<in> set (ws_ops s)" using p by (rule possible_completes)
  have dial: "dialling ?c" if "\<not> is_write (completes ev)" "completes ev \<noteq> Read"
    using completed_dialling [OF inv mem that] .
  have q: "queued ?c = queued s" by simp
  show ?thesis
  proof (cases ev)
    case (Resolved ec)
    then show ?thesis using dial_handlers_ok(1) [OF dial] q by (simp add: handle_event_completed)
  next
    case (ConnectDone ec sni)
    then show ?thesis using dial_handlers_ok(2) [OF dial] q by (simp add: handle_event_completed)
  next
    case (SslHandshakeDone ec)
    then show ?thesis using dial_handlers_ok(3) [OF dial] q by (simp add: handle_event_completed)
  next
    case (HandshakeDone ec)
    then show ?thesis using on_handshake_ok [OF dial] q by (simp add: handle_event_completed)
  next
    case (ReadDone res)
    then have "chain s = [Read] \<and> chain ?c = [] \<and> one_writer ?c" using completed_chain [OF inv mem] by simp
    then show ?thesis
      using on_read_ok [of ?c J what res] inv ReadDone q
      by (auto simp: handle_event_completed ws_inv_def chain_ok_def)
  next
    case (WriteDone m ec)
    then have w: "writes ?c = 0" "ws_sending ?c" "chain ?c = chain s"
      using completed_write [OF inv] mem by simp_all
    have "ws_inv (?c\<lparr>ws_sending := False\<rparr>)"
      using inv w by (auto simp: ws_inv_def chain_ok_def chain_def one_writer_def split: list.splits io_op.splits)
    then show ?thesis using on_write_ok [OF w(1,2)] q WriteDone by (simp add: handle_event_completed)
  next
    case (WaitDone d cancelled)
    then have "\<not> cancelled" using no_cancelled_wait [OF inv] p by (cases cancelled) auto
    moreover have "dialling ?c" using dial WaitDone by simp
    moreover from this have "\<not> ws_should_reconnect ?c \<Longrightarrow> ws_inv ?c"
      by (simp add: dialling_def ws_inv_def chain_ok_def)
    ultimately show ?thesis
      using dialling_start [of ?c Resolve] q WaitDone
      by (auto simp: handle_event_completed on_reconnect_timer_def do_connect_def)
  qed
qed

text \<open>
  Until a handshake succeeds, each attempt to connect uses one unit of \<open>dials_left\<close>: the attempts
  the counter still allows, and the one under way.
\<close>

lemma handle_error_dials: "dials_left (handle_error cb err s) = dials_left s"
  using handle_error_quiet [of s err] by (simp add: dials_left_def ws_quiet_def)

lemma schedule_reconnect_dials:
  assumes "dialling s"
  shows "dials_left (schedule_reconnect cb s) \<le> dials_left s"
proof (cases "\<not> ws_should_reconnect s \<or> MAX_RECONNECT_ATTEMPTS \<le> ws_reconnect_attempts s")
  case True
  then show ?thesis by (simp add: schedule_reconnect_def handle_error_dials)
next
  case False
  then show ?thesis
    using assms by (simp add: schedule_reconnect_def dialling_def dials_left_def chain_def start_op_def)
qed

lemma connection_failed_dials: "dialling s \<Longrightarrow> dials_left (connection_failed cb err s) \<le> dials_left s"
  using schedule_reconnect_dials [OF dialling_quiet [OF _ handle_error_quiet]] handle_error_dials
  unfolding connection_failed_def by metis

lemma start_op_dials:
  "dialling s \<Longrightarrow> \<not> is_write op \<Longrightarrow>
     dials_left (start_op op s) = dials_left s + (if op = Resolve \<or> is_wait op then 1 else 0)"
  by (simp add: dials_left_def dialling_def)

lemma do_send_dials: "ws_sending s \<Longrightarrow> dials_left (do_send s) = dials_left s"
  using do_send_step [of s] by (simp add: dials_left_def)

lemma event_dials:
  assumes inv: "ws_inv s" and p: "possible ev s" and u: "dial_event ev"
  shows "dials_left (snd (handle_event J hmac what cb ev s)) + (if completes ev = Resolve then 1 else 0)
    \<le> dials_left s"
proof -
  let ?c = "completed (completes ev) s"
  have mem: "completes ev \<in> set (ws_ops s)" using p by (rule possible_completes)
  have dial: "dialling ?c \<and> dials_left s = dials_left ?c + (if completes ev = Resolve \<or> is_wait (completes ev) then 1 else 0)"
    if "\<not> is_write (completes ev)" "completes ev \<noteq> Read"
    using completed_dialling [OF inv mem that] completed_chain [OF inv mem that(1)]
    by (simp add: dials_left_def)
  show ?thesis
  proof (cases ev)
    case (WriteDone m ec)
    then have w: "ws_sending ?c" "chain ?c = chain s" using completed_write [OF inv] mem by simp_all
    have "dials_left (on_write cb ec ?c) = dials_left ?c"
      using do_send_dials [OF w(1)] handle_error_dials by (simp add: on_write_def split: option.splits)
    then show ?thesis using w WriteDone by (simp add: handle_event_completed dials_left_def)
  next
    case (HandshakeDone ec)
    then show ?thesis
      using u dial connection_failed_dials [of ?c]
      by (auto simp: handle_event_completed on_handshake_def split: option.splits)
  next
    case (WaitDone d cancelled)
    then show ?thesis
      using dial start_op_dials [of ?c Resolve]
      by (auto simp: handle_event_completed on_reconnect_timer_def do_connect_def)
  qed (use u dial connection_failed_dials [of ?c] start_op_dials [of ?c] in
      \<open>auto simp: handle_event_completed on_resolve_def on_connect_def on_ssl_handshake_def
        split: option.splits\<close>)
qed

end

section \<open>Connecting and closing\<close>

lemma ws_close_inv [inv_intros]: "ws_inv s \<Longrightarrow> ws_inv (ws_close s)"
  by (auto simp: ws_close_def ws_inv_def chain_ok_def chain_def one_writer_def Let_def split: list.splits io_op.splits)

lemma ws_close_queued [simp]: "queued (ws_close s) = queued s"
  by (simp add: ws_close_def queued_def Let_def)

lemma connect_inv [inv_intros]:
  "ws_ops s = [] \<Longrightarrow> \<not> ws_sending s \<Longrightarrow> \<not> ws_connected s \<Longrightarrow> \<not> ws_authenticated s \<Longrightarrow> ws_inv (connect s)"
  by (simp add: connect_def do_connect_def start_op_def ws_inv_def chain_ok_def chain_def one_writer_def
      MAX_RECONNECT_ATTEMPTS_def)

section \<open>Threads that send\<close>

text \<open>
  \<open>async_send\<close> is called by the executor's thread and by the handlers on the I/O thread. Here any
  number of threads run it, and the handler of a completed write, one atomic section at a time:
  after the push (\<open>Enqueued\<close>), with \<open>sending_\<close> taken (\<open>Holding\<close>), and with a message popped and
  not yet written (\<open>Taken\<close>). \<open>pushed\<close> records the order of the pushes and \<open>stalled\<close> that a write
  failed and nobody took \<open>sending_\<close> since.
\<close>

datatype send_pc = Idle | Enqueued | Holding | Taken string

record 'x send_system =
  threads :: "send_pc list"
  client :: "'x ws_client_scheme"
  pushed :: "string list"
  stalled :: bool

inductive send_step :: "'x send_system \<Rightarrow> 'x send_system \<Rightarrow> bool" where
  push: "t < length (threads c) \<Longrightarrow> threads c ! t = Idle \<Longrightarrow>
    send_step c (c\<lparr>threads := (threads c)[t := Enqueued], client := enqueue_message msg (client c),
      pushed := pushed c @ [msg]\<rparr>)"
| acquire: "t < length (threads c) \<Longrightarrow> threads c ! t = Enqueued \<Longrightarrow> acquire_sending (client c) = (won, s) \<Longrightarrow>
    send_step c (c\<lparr>threads := (threads c)[t := (if won then Holding else Idle)], client := s,
      stalled := (stalled c \<and> \<not> won)\<rparr>)"
| take: "t < length (threads c) \<Longrightarrow> threads c ! t = Holding \<Longrightarrow> take_message (client c) = (r, s) \<Longrightarrow>
    send_step c (c\<lparr>threads := (threads c)[t := (case r of None \<Rightarrow> Idle | Some msg \<Rightarrow> Taken msg)], client := s\<rparr>)"
| start: "t < length (threads c) \<Longrightarrow> threads c ! t = Taken msg \<Longrightarrow>
    send_step c (c\<lparr>threads := (threads c)[t := Idle], client := async_write msg (client c)\<rparr>)"
| written: "t < length (threads c) \<Longrightarrow> threads c ! t = Idle \<Longrightarrow> Write msg \<in> set (ws_ops (client c)) \<Longrightarrow>
    send_step c (c\<lparr>threads := (threads c)[t := Holding], client := completed (Write msg) (client c)\<rparr>)"
| failed: "t < length (threads c) \<Longrightarrow> threads c ! t = Idle \<Longrightarrow> Write msg \<in> set (ws_ops (client c)) \<Longrightarrow>
    send_step c (c\<lparr>client := on_write (no_callbacks :: (unit, _) ws_callbacks) (Some err) (completed (Write msg) (client c)), stalled := True\<rparr>)"

definition send_start :: "nat \<Rightarrow> 'x ws_client_scheme \<Rightarrow> 'x send_system" where
  "send_start n s = \<lparr>threads = replicate n Idle, client = s, pushed = queued s, stalled = False\<rparr>"

text \<open>The threads that own \<open>sending_\<close>, and the messages they hold.\<close>

fun owns :: "send_pc \<Rightarrow> bool" where
  "owns Holding = True"
| "owns (Taken msg) = True"
| "owns _ = False"

fun held :: "send_pc \<Rightarrow> string list" where
  "held (Taken msg) = [msg]"
| "held _ = []"

definition held_messages :: "send_pc list \<Rightarrow> string list" where
  "held_messages pcs = concat (map held pcs)"

definition send_inv :: "'x send_system \<Rightarrow> bool" where
  "send_inv c \<longleftrightarrow>
     length (filter owns (threads c)) + writes (client c) = (if ws_sending (client c) then 1 else 0) \<and>
     ws_wire (client c) @ held_messages (threads c) @ ws_send_queue (client c) = pushed c \<and>
     (ws_send_queue (client c) \<noteq> [] \<longrightarrow> ws_sending (client c) \<or> Enqueued \<in> set (threads c) \<or> stalled c)"

lemma length_filter_update:
  "t < length xs \<Longrightarrow> length (filter P (xs[t := x])) + (if P (xs ! t) then 1 else 0)
     = length (filter P xs) + (if P x then 1 else 0)"
proof (induction xs arbitrary: t)
  case (Cons y ys)
  show ?case
  proof (cases t)
    case (Suc u)
    then show ?thesis using Cons.IH [of u] Cons.prems by (simp split: if_splits)
  qed simp
qed simp

text \<open>With at most one owner, the held messages are those of any one thread that owns.\<close>

lemma held_not_owns: "\<not> owns pc \<Longrightarrow> held pc = []"
  by (cases pc) simp_all

lemma held_none: "filter owns pcs = [] \<Longrightarrow> held_messages pcs = []"
  by (induction pcs) (auto simp: held_messages_def held_not_owns split: if_splits)

lemma held_one:
  "t < length pcs \<Longrightarrow> owns (pcs ! t) \<Longrightarrow> length (filter owns pcs) \<le> 1 \<Longrightarrow> held_messages pcs = held (pcs ! t)"
proof (induction pcs arbitrary: t)
  case (Cons pc pcs)
  show ?case
  proof (cases t)
    case 0
    then have "filter owns pcs = []" using Cons.prems by simp
    then show ?thesis using 0 held_none [of pcs] by (simp add: held_messages_def)
  next
    case (Suc u)
    then have "owns (pcs ! u)" "u < length pcs" using Cons.prems by simp_all
    then have "filter owns pcs \<noteq> []" by (auto simp: filter_empty_conv)
    then have "\<not> owns pc" using Cons.prems(3) by auto
    then show ?thesis using Cons Suc held_not_owns by (simp add: held_messages_def)
  qed
qed simp

lemma held_update: "held pc = held (pcs ! t) \<Longrightarrow> held_messages (pcs[t := pc]) = held_messages pcs"
  by (cases "t < length pcs") (simp_all add: held_messages_def map_update map_update [symmetric, of held pcs t "pcs ! t"])

lemma enqueued_update:
  "Enqueued \<in> set pcs \<Longrightarrow> t < length pcs \<Longrightarrow> pcs ! t \<noteq> Enqueued \<Longrightarrow> Enqueued \<in> set (pcs[t := pc])"
  by (metis in_set_conv_nth length_list_update nth_list_update_neq)

lemma send_inv_step:
  assumes "send_step c c'" and "send_inv c"
  shows "send_inv c'"
  using assms
proof cases
  case (push t msg)
  then show ?thesis
    using \<open>send_inv c\<close> length_filter_update [of t "threads c" owns Enqueued] held_update [of Enqueued "threads c" t]
    by (simp add: send_inv_def enqueue_message_def set_update_memI)
next
  case (acquire t won s)
  let ?pc = "if won then Holding else Idle"
  have "ws_sending (client c) = (\<not> won)" "s = (client c)\<lparr>ws_sending := True\<rparr>"
    using acquire(4) by (auto simp: acquire_sending_def split: if_splits)
  then show ?thesis
    using acquire \<open>send_inv c\<close> length_filter_update [of t "threads c" owns ?pc] held_update [of ?pc "threads c" t]
    by (auto simp: send_inv_def split: if_splits)
next
  case (take t r s)
  let ?pc = "case r of None \<Rightarrow> Idle | Some msg \<Rightarrow> Taken msg"
  have one: "length (filter owns (threads c)) \<le> 1" using \<open>send_inv c\<close> by (auto simp: send_inv_def split: if_splits)
  have ow: "owns (threads c ! t)" using take by simp
  have h: "held_messages (threads c) = []" using held_one [OF take(2) ow one] take(3) by simp
  have l: "length (filter owns ((threads c)[t := ?pc])) + 1 = length (filter owns (threads c)) + (if owns ?pc then 1 else 0)"
    using length_filter_update [OF take(2), of owns ?pc] ow by simp
  show ?thesis
  proof (cases "ws_send_queue (client c)")
    case Nil
    then have r: "r = None" "s = (client c)\<lparr>ws_sending := False\<rparr>" using take(4) by (simp_all add: take_message_def)
    then have "filter owns ((threads c)[t := Idle]) = []" using l one by (simp del: length_0_conv add: length_0_conv [symmetric])
    then show ?thesis
      using take r Nil \<open>send_inv c\<close> h l held_none one by (auto simp: send_inv_def split: if_splits)
  next
    case (Cons msg rest)
    then have r: "r = Some msg" "s = (client c)\<lparr>ws_send_queue := rest\<rparr>" using take(4) by (simp_all add: take_message_def)
    then have "held_messages ((threads c)[t := Taken msg]) = [msg]"
      using held_one [of t "(threads c)[t := Taken msg]"] l one take(2) by simp
    then show ?thesis
      using take r Cons \<open>send_inv c\<close> h l ow enqueued_update [of "threads c" t "Taken msg"]
      by (auto simp: send_inv_def split: if_splits)
  qed
next
  case (start t msg)
  have one: "length (filter owns (threads c)) \<le> 1" using \<open>send_inv c\<close> by (auto simp: send_inv_def split: if_splits)
  have ow: "owns (threads c ! t)" using start by simp
  have h: "held_messages (threads c) = [msg]" using held_one [OF start(2) ow one] start(3) by simp
  have l: "length (filter owns ((threads c)[t := Idle])) + 1 = length (filter owns (threads c))"
    using length_filter_update [OF start(2), of owns Idle] ow by simp
  then have "filter owns ((threads c)[t := Idle]) = []"
    using one by (simp del: length_0_conv add: length_0_conv [symmetric])
  then show ?thesis
    using start \<open>send_inv c\<close> h l held_none [of "(threads c)[t := Idle]"]
    by (auto simp: send_inv_def async_write_def start_op_def split: if_splits)
next
  case (written t msg)
  then show ?thesis
    using completed_writes [of msg "client c"] \<open>send_inv c\<close> length_filter_update [of t "threads c" owns Holding]
      held_update [of Holding "threads c" t] enqueued_update [of "threads c" t Holding]
    by (auto simp: send_inv_def completed_def split: if_splits)
next
  case (failed t msg err)
  have "length (filter owns (threads c)) + writes (client c) \<le> 1"
    using \<open>send_inv c\<close> by (simp add: send_inv_def)
  then have "length (filter owns (threads c)) = 0" "writes (completed (Write msg) (client c)) = 0"
    using completed_writes [OF failed(4)] by linarith+
  then show ?thesis
    using failed \<open>send_inv c\<close>
    by (simp add: send_inv_def completed_def on_write_def no_callbacks_def handle_error_def)
qed

lemma send_inv_reachable:
  assumes "send_step\<^sup>*\<^sup>* (send_start n s) c" and "ws_ops s = []" "\<not> ws_sending s" "ws_send_queue s = []"
  shows "send_inv c"
  using assms(1)
proof (induction rule: rtranclp_induct)
  case base
  have "filter owns (replicate n Idle) = []" by (simp add: filter_empty_conv)
  then show ?case
    using assms(2-4) held_none [of "replicate n Idle"] by (simp add: send_inv_def send_start_def queued_def)
qed (rule send_inv_step)

text \<open>
  (C8) Any number of threads send at the same time as writes complete, well or not. At every moment
  at most one write is outstanding on the stream and what was written is a prefix of what was
  pushed, in the order of the pushes. Whenever no thread is inside the send path, the messages
  pushed are exactly those written followed by those queued, and messages left in the queue are
  being worked on: a write is outstanding, whose completion sends the next, unless a write failed.
\<close>

theorem send_path_no_lost_wakeup:
  assumes "send_step\<^sup>*\<^sup>* (send_start n s) c"
    and "ws_ops s = []" and "\<not> ws_sending s" and "ws_send_queue s = []"
  shows "writes (client c) \<le> 1 \<and> prefix (ws_wire (client c)) (pushed c) \<and>
    (list_all (\<lambda>pc. pc = Idle) (threads c) \<longrightarrow>
       queued (client c) = pushed c \<and>
       (ws_send_queue (client c) \<noteq> [] \<and> \<not> stalled c \<longrightarrow> writes (client c) = 1))"
proof -
  have inv: "send_inv c" by (rule send_inv_reachable [OF assms])
  have "filter owns (threads c) = [] \<and> Enqueued \<notin> set (threads c)" if "list_all (\<lambda>pc. pc = Idle) (threads c)"
    using that by (auto simp: list_all_iff filter_empty_conv)
  moreover have "prefix (ws_wire (client c)) (pushed c)" using inv unfolding send_inv_def by (metis prefixI)
  ultimately show ?thesis
    using inv held_none [of "threads c"] unfolding send_inv_def queued_def by (auto split: if_splits)
qed

definition example_client :: ws_client where
  "example_client = new_ws_client \<lparr>api_key = ''key'', api_secret = ''secret''\<rparr> True (\<lambda>n. int n)"

lemma example_client_fresh:
  "ws_ops example_client = []" "\<not> ws_sending example_client" "ws_send_queue example_client = []"
  "\<not> ws_connected example_client" "\<not> ws_authenticated example_client" "ws_wire example_client = []"
  by (simp_all add: example_client_def new_ws_client_def)

text \<open>Two threads push before either takes \<open>sending_\<close>; the loser leaves its message to the winner.\<close>

theorem send_path_no_lost_wakeup_witness:
  "\<exists>c. send_step\<^sup>*\<^sup>* (send_start 2 example_client) c \<and> list_all (\<lambda>pc. pc = Idle) (threads c) \<and>
     pushed c = [''a'', ''b''] \<and> ws_send_queue (client c) = [''b''] \<and> writes (client c) = 1"
proof -
  let ?p = "send_step\<^sup>*\<^sup>* (send_start 2 example_client)"
  let ?s = example_client
  let ?ab = "enqueue_message ''b'' (enqueue_message ''a'' ?s)"
  let ?on = "?ab\<lparr>ws_sending := True\<rparr>"
  let ?pop = "?on\<lparr>ws_send_queue := [''b'']\<rparr>"
  let ?start = "\<lparr>threads = [Idle, Idle], client = ?s, pushed = [], stalled = False\<rparr>"
  let ?one = "\<lparr>threads = [Enqueued, Idle], client = enqueue_message ''a'' ?s, pushed = [''a''], stalled = False\<rparr>"
  let ?two = "\<lparr>threads = [Enqueued, Enqueued], client = ?ab, pushed = [''a'', ''b''], stalled = False\<rparr>"
  let ?won = "\<lparr>threads = [Enqueued, Holding], client = ?on, pushed = [''a'', ''b''], stalled = False\<rparr>"
  let ?lost = "\<lparr>threads = [Idle, Holding], client = ?on, pushed = [''a'', ''b''], stalled = False\<rparr>"
  let ?taken = "\<lparr>threads = [Idle, Taken ''a''], client = ?pop, pushed = [''a'', ''b''], stalled = False\<rparr>"
  let ?final = "\<lparr>threads = [Idle, Idle], client = async_write ''a'' ?pop, pushed = [''a'', ''b''], stalled = False\<rparr>"
  have "?p ?start" by (simp add: send_start_def numeral_2_eq_2 queued_def example_client_fresh)
  moreover have "send_step ?start ?one" using send_step.push [of 0 ?start "''a''"] by simp
  moreover have "send_step ?one ?two" using send_step.push [of 1 ?one "''b''"] by simp
  moreover have "send_step ?two ?won"
    using send_step.acquire [of 1 ?two True ?on]
    by (simp add: acquire_sending_def enqueue_message_def example_client_fresh)
  moreover have "send_step ?won ?lost"
    using send_step.acquire [of 0 ?won False ?on] by (simp add: acquire_sending_def)
  moreover have "send_step ?lost ?taken"
    using send_step.take [of 1 ?lost "Some ''a''" ?pop]
    by (simp add: take_message_def enqueue_message_def example_client_fresh)
  moreover have "send_step ?taken ?final" using send_step.start [of 1 ?taken "''a''"] by simp
  ultimately have r: "?p ?final" by (meson rtranclp.rtrancl_into_rtrancl)
  have "list_all (\<lambda>pc. pc = Idle) (threads ?final)" "ws_send_queue (client ?final) = [''b'']"
    "pushed ?final = [''a'', ''b'']" "\<not> stalled ?final" by (simp_all add: async_write_def start_op_def)
  then show ?thesis
    using r send_path_no_lost_wakeup [OF r example_client_fresh(1-3)] by (intro exI [of _ ?final]) simp
qed

end
