(* ===== verification/Order_Executor.thy ===== *)
theory Order_Executor
  imports Rate_Limiter Trade_Queue Websocket_Safety
begin

text \<open>
  \<open>OrderExecutor\<close> of \<open>include/core/order_executor.hpp\<close>: orders wait in a multi-producer queue, one
  thread takes them out and hands them to the WebSocket client as fast as the rate limiter lets it,
  and the client's messages are turned into responses for the callbacks the orders came with.

  The executor extends the record of the client it owns, so that the client's handlers can call
  it back. A callback of type \<open>'cb\<close> is a value that names it; \<open>ex_calls\<close> lists the calls.
\<close>

section \<open>State\<close>

text \<open>
  \<open>ex_pending\<close> maps a client order id to a \<open>std::function\<close>, which may be empty (\<open>None\<close>).
  \<open>ex_draining\<close> says whether the executor's thread is in the inner loop of \<open>execution_loop\<close>.
\<close>

record 'cb executor = ws_client +
  ex_queue :: "Trade mpsc_queue"
  ex_limiter :: RateLimiter
  ex_pending :: "u64 \<rightharpoonup> 'cb option"
  ex_running :: bool
  ex_draining :: bool
  ex_sent :: u64
  ex_filled :: u64
  ex_rejected :: u64
  ex_latency :: i64
  ex_steady :: clock
  ex_wall :: clock
  ex_calls :: "('cb \<times> OrderResponse) list"

definition QUEUE_CAPACITY :: nat where "QUEUE_CAPACITY = 65536"

text \<open>\<open>zero\<close> is the value the queue's slots are created with.\<close>

definition new_executor :: "Trade \<Rightarrow> clock \<Rightarrow> clock \<Rightarrow> ws_client \<Rightarrow> 'cb executor" where
  "new_executor zero steady wall ws = ws_client.extend ws
     (executor.fields (mpsc_new QUEUE_CAPACITY zero) (new_RateLimiter 100 15) Map.empty False False
        0 0 0 0 steady wall [])"

definition submit_trade :: "Trade \<Rightarrow> 'cb option \<Rightarrow> 'cb executor \<Rightarrow> bool \<times> 'cb executor" where
  "submit_trade trade callback s =
     (if \<not> ex_running s then (False, s)
      else let s = (case callback of
                      None \<Rightarrow> s
                    | Some cb \<Rightarrow> s\<lparr>ex_pending := (ex_pending s)(t_client_order_id trade \<mapsto> Some cb)\<rparr>);
               (pushed, q) = mpsc_push_seq QUEUE_CAPACITY trade (ex_queue s)
           in (pushed, s\<lparr>ex_queue := q\<rparr>))"

definition executor_start :: "'cb executor \<Rightarrow> 'cb executor" where
  "executor_start s = connect (s\<lparr>ex_running := True\<rparr>)"

text \<open>\<open>stop\<close> waits for the thread, which leaves its loops when it sees \<open>running_\<close> false.\<close>

definition executor_stop :: "'cb executor \<Rightarrow> 'cb executor" where
  "executor_stop s = ws_close (s\<lparr>ex_running := False, ex_draining := False\<rparr>)"

definition executor_cancel_order ::
  "'j json_lib \<Rightarrow> hmac_fn \<Rightarrow> string \<Rightarrow> u64 \<Rightarrow> u64 \<Rightarrow> 'cb executor act" where
  "executor_cancel_order J hmac = ws_cancel_order J hmac"

definition executor_cancel_all_orders :: "'j json_lib \<Rightarrow> hmac_fn \<Rightarrow> string \<Rightarrow> 'cb executor act" where
  "executor_cancel_all_orders J hmac = ws_cancel_all_orders J hmac"

section \<open>Statistics\<close>

record ExecutorStats =
  es_orders_sent :: u64
  es_orders_filled :: u64
  es_orders_rejected :: u64
  es_avg_latency_us :: double

definition get_stats :: "'cb executor \<Rightarrow> ExecutorStats" where
  "get_stats s =
     \<lparr>es_orders_sent = ex_sent s, es_orders_filled = ex_filled s, es_orders_rejected = ex_rejected s,
      es_avg_latency_us =
        (if 0 < ex_sent s
         then round64 (of_int (ex_latency s)) / (round64 (of_nat (unat (ex_sent s))) * Fin 1000) else 0)\<rparr>"

definition reset_stats :: "'cb executor \<Rightarrow> 'cb executor" where
  "reset_stats s = s\<lparr>ex_sent := 0, ex_filled := 0, ex_rejected := 0, ex_latency := 0\<rparr>"

section \<open>Messages from the exchange\<close>

text \<open>
  \<open>moved\<close> is what \<open>std::move(it->second)\<close> leaves behind in the map: the standard says only that
  it is a valid function object.
\<close>

definition count_response :: "OrderResponse \<Rightarrow> 'cb executor \<Rightarrow> 'cb executor" where
  "count_response response s =
     (if r_status response = FILLED then s\<lparr>ex_filled := ex_filled s + 1\<rparr>
      else if r_status response = REJECTED then s\<lparr>ex_rejected := ex_rejected s + 1\<rparr>
      else s)"

definition measure_latency :: "OrderResponse \<Rightarrow> 'cb executor \<Rightarrow> 'cb executor" where
  "measure_latency response s =
     (if 0 < r_exchange_timestamp_ns response
      then let (now, c) = read_clock (ex_wall s)
           in s\<lparr>ex_wall := c,
                ex_latency := signed_take_bit 63 (ex_latency s + (now - r_exchange_timestamp_ns response))\<rparr>
      else s)"

definition take_callback ::
  "('cb option \<Rightarrow> 'cb option) \<Rightarrow> OrderResponse \<Rightarrow> 'cb executor \<Rightarrow> 'cb option \<times> 'cb executor" where
  "take_callback moved response s =
     (let oid = r_client_order_id response; status = r_status response
      in case ex_pending s oid of
           None \<Rightarrow> (None, s)
         | Some callback \<Rightarrow>
             let pending = (ex_pending s)(oid \<mapsto> moved callback);
                 pending = (if status = FILLED \<or> status = CANCELED \<or> status = REJECTED \<or> status = EXPIRED
                            then pending(oid := None) else pending)
             in (callback, s\<lparr>ex_pending := pending\<rparr>))"

definition on_response :: "('cb option \<Rightarrow> 'cb option) \<Rightarrow> OrderResponse \<Rightarrow> 'cb executor \<Rightarrow> 'cb executor" where
  "on_response moved response s =
     (let s = measure_latency response (count_response response s);
          (callback, s) = take_callback moved response s
      in case callback of None \<Rightarrow> s | Some cb \<Rightarrow> s\<lparr>ex_calls := ex_calls s @ [(cb, response)]\<rparr>)"

definition handle_message ::
  "'j json_lib \<Rightarrow> char \<times> char \<Rightarrow> ('cb option \<Rightarrow> 'cb option) \<Rightarrow> 'j \<Rightarrow> 'cb executor act" where
  "handle_message J junk moved msg s =
     (case j_at J msg ''method'' of
        None \<Rightarrow> (None, s)
      | Some v \<Rightarrow>
          (case j_get_string J v of
             None \<Rightarrow> (Some TypeError, s)
           | Some method \<Rightarrow>
               (case (if method = ''private/create-order'' \<or> method = ''private/cancel-order'' then Some True
                      else is_order_update J msg) of
                  None \<Rightarrow> (Some TypeError, s)
                | Some False \<Rightarrow> (None, s)
                | Some True \<Rightarrow>
                    (case parse_order_response J junk msg of
                       None \<Rightarrow> (Some TypeError, s)
                     | Some response \<Rightarrow> (None, on_response moved response s)))))"

definition executor_on_connected :: "'j json_lib \<Rightarrow> hmac_fn \<Rightarrow> 'cb executor act" where
  "executor_on_connected J hmac = and_then (subscribe_order_updates J hmac []) (subscribe_trade_updates J hmac [])"

text \<open>The constructor installs the callbacks; \<open>handle_error\<close> prints and changes nothing.\<close>

definition executor_callbacks ::
  "'j json_lib \<Rightarrow> hmac_fn \<Rightarrow> char \<times> char \<Rightarrow> ('cb option \<Rightarrow> 'cb option) \<Rightarrow> ('j, 'cb executor) ws_callbacks" where
  "executor_callbacks J hmac junk moved =
     set_callbacks (Some (handle_message J junk moved)) (Some (\<lambda>error s. s))
       (Some (executor_on_connected J hmac)) no_callbacks"

section \<open>The execution loop\<close>

text \<open>
  The head of the outer loop: nothing while the client is not authenticated, otherwise into the
  inner loop.
\<close>

definition loop_head :: "'cb executor \<Rightarrow> 'cb executor" where
  "loop_head s = (if ws_authenticated s then s\<lparr>ex_draining := True\<rparr> else s)"

text \<open>One iteration of the inner loop; the flag says whether it goes on.\<close>

definition execute_one ::
  "'j json_lib \<Rightarrow> hmac_fn \<Rightarrow> ('j, 'cb executor) ws_callbacks \<Rightarrow> 'cb executor \<Rightarrow> exn option \<times> bool \<times> 'cb executor" where
  "execute_one J hmac cb s =
     (case mpsc_try_pop QUEUE_CAPACITY (ex_queue s) of
        (None, q) \<Rightarrow> (None, False, s\<lparr>ex_queue := q, ex_draining := False\<rparr>)
      | (Some trade, q) \<Rightarrow>
          let (now, c) = read_clock (ex_steady s);
              (ok, rl) = try_acquire now (ex_limiter s);
              s = s\<lparr>ex_queue := q, ex_steady := c, ex_limiter := rl\<rparr>
          in if \<not> ok
             then (None, False, s\<lparr>ex_queue := snd (mpsc_push_seq QUEUE_CAPACITY trade q), ex_draining := False\<rparr>)
             else (case send_order J hmac cb trade s of
                     (Some e, s) \<Rightarrow> (Some e, False, s)
                   | (None, s) \<Rightarrow> (None, True, s\<lparr>ex_sent := ex_sent s + 1\<rparr>)))"

text \<open>The inner loop, while no other thread interferes; \<open>None\<close> when the fuel does not suffice.\<close>

fun drain_queue ::
  "'j json_lib \<Rightarrow> hmac_fn \<Rightarrow> ('j, 'cb executor) ws_callbacks \<Rightarrow> nat \<Rightarrow> 'cb executor
     \<Rightarrow> (exn option \<times> 'cb executor) option" where
  "drain_queue J hmac cb 0 s = None"
| "drain_queue J hmac cb (Suc n) s =
     (case execute_one J hmac cb s of
        (e, True, s) \<Rightarrow> drain_queue J hmac cb n s
      | (e, False, s) \<Rightarrow> Some (e, s))"

end
