(* ===== verification/Request_Text.thy ===== *)
theory Request_Text
  imports Exchange_Api
begin

text \<open>
  The requests for orders can be written: every string in them is ASCII when the instrument's name
  is, so \<open>dump\<close> does not throw.
\<close>

lemma ascii_append [simp]: "ascii (s @ t) \<longleftrightarrow> ascii s \<and> ascii t"
  by (simp add: ascii_def)

lemma ascii_subset: "set s \<subseteq> set t \<Longrightarrow> ascii t \<Longrightarrow> ascii s"
  by (auto simp: ascii_def list_all_iff)

lemma ascii_digits: "list_all is_digit s \<Longrightarrow> ascii s"
  by (auto simp: ascii_def list_all_iff is_digit_def)

lemma ascii_decimal [simp]: "ascii (decimal n)"
  by (rule ascii_digits) simp

lemma ascii_u64_to_string [simp]: "ascii (u64_to_string n)"
  by (simp add: u64_to_string_def)

lemma ascii_print_f8: "ascii (print_f8 x)"
  using pad8_facts by (auto simp: print_f8_def intro!: ascii_digits split: double.splits)

lemma ascii_format_double [simp]: "ascii (format_double x)"
proof (rule ascii_subset [OF _ ascii_print_f8])
  show "set (format_double x) \<subseteq> set (print_f8 x)"
    by (auto simp: format_double_def snprintf_f8_def Let_def dest: in_set_takeD split: option.splits if_splits)
qed

lemma ascii_hex_digit: "unat n < 16 \<Longrightarrow> (of_char (hex_digit n) :: nat) < 128"
  by (auto simp: hex_digit_def word_less_nat_alt)

lemma ascii_hex_byte: "ascii (hex_byte b)"
proof -
  have "unat b < 256" by (rule order.strict_trans2 [OF unsigned_less]) simp
  then have "unat (drop_bit 4 b) < 16" by (simp add: drop_bit_eq_div unat_div less_mult_imp_div_less)
  moreover have "unat (b AND 15) < 16"
    using word_and_le1 [of b 15] by (simp add: word_le_nat_alt)
  ultimately show ?thesis by (simp add: hex_byte_def ascii_hex_digit)
qed

lemma ascii_sign_string [simp]: "ascii (sign_string hmac auth method req_id params nonce)"
proof -
  have "ascii (concat (map hex_byte bs))" for bs by (induction bs) (simp_all add: ascii_hex_byte)
  then show ?thesis by (simp add: sign_string_def hmac_sha256_def)
qed

section \<open>Objects\<close>

text \<open>\<open>v\<close> is an object with exactly the keys \<open>ks\<close>, and can be written and read.\<close>

definition text_object :: "'j json_lib \<Rightarrow> string list \<Rightarrow> 'j \<Rightarrow> bool" where
  "text_object J ks v \<longleftrightarrow> (\<exists>kvs. v = j_object J kvs \<and> map fst kvs = ks \<and> distinct ks \<and>
     list_all (\<lambda>(k, x). ascii k \<and> reparse J x \<noteq> None) kvs)"

lemma text_object_new:
  "distinct (map fst kvs) \<Longrightarrow> list_all (\<lambda>(k, x). ascii k \<and> reparse J x \<noteq> None) kvs \<Longrightarrow>
   text_object J (map fst kvs) (j_object J kvs)"
  unfolding text_object_def by (rule exI [of _ kvs]) simp

lemma text_object_put:
  assumes "json_laws J" "text_object J ks v" "k \<notin> set ks" "ascii k" "reparse J x \<noteq> None"
  shows "text_object J (ks @ [k]) (j_put J v k x)"
proof -
  obtain kvs where "v = j_object J kvs" "map fst kvs = ks" "distinct ks"
      "list_all (\<lambda>(k, x). ascii k \<and> reparse J x \<noteq> None) kvs"
    using assms(2) unfolding text_object_def by blast
  then show ?thesis
    unfolding text_object_def using assms json_objects(4) [OF assms(1), of kvs k x]
    by (intro exI [of _ "kvs @ [(k, x)]"]) auto
qed

lemma text_object_reparse: "json_laws J \<Longrightarrow> text_object J ks v \<Longrightarrow> reparse J v \<noteq> None"
  unfolding text_object_def using json_texts(9) by fastforce

text \<open>An optional member under a new key.\<close>

definition text_object_in :: "'j json_lib \<Rightarrow> string set \<Rightarrow> 'j \<Rightarrow> bool" where
  "text_object_in J K v \<longleftrightarrow> (\<exists>ks. text_object J ks v \<and> set ks \<subseteq> K)"

lemma text_object_in_put:
  assumes "json_laws J" "text_object_in J K v" "k \<notin> K" "ascii k" "reparse J x \<noteq> None"
  shows "text_object_in J (insert k K) (if b then j_put J v k x else v)"
proof -
  obtain ks where ks: "text_object J ks v" "set ks \<subseteq> K" using assms(2) unfolding text_object_in_def by blast
  then have "k \<notin> set ks" using assms(3) by blast
  from text_object_put [OF assms(1) ks(1) this assms(4,5)] ks show ?thesis
    unfolding text_object_in_def by (cases b) (force, auto)
qed

lemma ascii_words [simp]: "ascii (api_order_type_to_string t)" "ascii (time_in_force_to_string f)"
  by (cases t; simp) (cases f; simp)

lemma create_order_params_text:
  assumes J: "json_laws J" and "ascii (t_ticker trade)"
  shows "reparse J (create_order_params J trade) \<noteq> None"
proof -
  let ?kvs = "[(''instrument_name'', j_string J (t_ticker trade)),
     (''side'', j_string J (if t_side trade = BUY then ''BUY'' else ''SELL'')),
     (''type'', j_string J (api_order_type_to_string (t_type trade))),
     (''quantity'', j_string J (format_double (t_quantity trade))),
     (''client_oid'', j_string J (u64_to_string (t_client_order_id trade)))]"
  let ?keys = "set (map fst ?kvs)"
  have str: "reparse J (j_string J s) \<noteq> None" if "ascii s" for s using json_texts(7) [OF J that] by simp
  have arr: "reparse J (j_array J [j_string J ''POST_ONLY'']) \<noteq> None" using json_texts(7,8) [OF J] by simp
  have "list_all (\<lambda>(k, x). ascii k \<and> reparse J x \<noteq> None) ?kvs" using assms(2) str by simp
  then have base: "text_object_in J ?keys (j_object J ?kvs)"
    unfolding text_object_in_def by (intro exI [of _ "map fst ?kvs"] conjI text_object_new) simp_all
  note put = text_object_in_put [OF J]
  note priced = put [OF base, of "''price''" "j_string J (format_double (t_price trade))"
    "t_type trade \<in> {LIMIT, STOP_LIMIT, TAKE_PROFIT_LIMIT}"]
  note triggered = put [OF priced, of "''trigger_price''" "j_string J (format_double (t_trigger_price trade))"
    "t_type trade \<in> {STOP_LOSS, STOP_LIMIT, TAKE_PROFIT, TAKE_PROFIT_LIMIT}"]
  note timed = put [OF triggered, of "''time_in_force''"
    "j_string J (time_in_force_to_string (t_time_in_force trade))" True, simplified if_True]
  note inst = put [OF timed, of "''exec_inst''" "j_array J [j_string J ''POST_ONLY'']" "t_exec_type trade = POST_ONLY"]
  have "\<exists>K. text_object_in J K (create_order_params J trade)"
    unfolding create_order_params_def Let_def
    by (rule exI, rule inst) (simp_all add: arr str)
  then show ?thesis using text_object_reparse [OF J] unfolding text_object_in_def by blast
qed

text \<open>Building and writing the request for an order with an ASCII instrument name never throws.\<close>

lemma create_order_text:
  assumes J: "json_laws J" and "ascii (t_ticker trade)"
  obtains msg mb' c' request where "build_create_order J hmac auth trade mb c = (Some msg, mb', c')"
    "j_dump J msg = Some request"
proof -
  obtain s where s: "parameter_string J (create_order_params J trade) = Some s"
    using simple_params_string [OF J create_order_params_simple [OF J]] by auto
  obtain mb' c' sig req_id nonce where b: "build_create_order J hmac auth trade mb c =
      (Some (request_object J req_id ''private/create-order'' (create_order_params J trade) sig nonce), mb', c')"
    and sig: "ascii sig"
    using s by (simp add: build_create_order_def signed_request_def next_id_def current_timestamp_ms_def
        read_clock_def sign_json_def)
  have "reparse J (request_object J req_id ''private/create-order'' (create_order_params J trade) sig nonce) \<noteq> None"
    unfolding request_object_def
    using json_texts(4,7,9) [OF J] create_order_params_text [OF assms] sig by simp
  then show thesis using that [OF b] by (auto simp: reparse_def split: option.splits)
qed

end
