(* ===== verification/Execution_Safety.thy ===== *)
theory Execution_Safety
  imports Order_Executor Request_Text Execution_Sink
begin

text \<open>
  The order executor together with its WebSocket client: the steps every thread can take, the
  invariant of the connection, what one pass of the execution loop does with the queue, and which
  callbacks the exchange's answers reach.
\<close>

section \<open>The executor leaves the connection alone\<close>

lemma ws_quiet_executor [simp]:
  "ws_quiet s (t\<lparr>ex_queue := q\<rparr>) = ws_quiet s (t :: 'cb executor)"
  "ws_quiet s (t\<lparr>ex_limiter := rl\<rparr>) = ws_quiet s t"
  "ws_quiet s (t\<lparr>ex_pending := p\<rparr>) = ws_quiet s t"
  "ws_quiet s (t\<lparr>ex_draining := b\<rparr>) = ws_quiet s t"
  "ws_quiet s (t\<lparr>ex_sent := n\<rparr>) = ws_quiet s t"
  "ws_quiet s (t\<lparr>ex_filled := n\<rparr>) = ws_quiet s t"
  "ws_quiet s (t\<lparr>ex_rejected := n\<rparr>) = ws_quiet s t"
  "ws_quiet s (t\<lparr>ex_latency := l\<rparr>) = ws_quiet s t"
  "ws_quiet s (t\<lparr>ex_steady := c\<rparr>) = ws_quiet s t"
  "ws_quiet s (t\<lparr>ex_wall := c\<rparr>) = ws_quiet s t"
  "ws_quiet s (t\<lparr>ex_calls := cs\<rparr>) = ws_quiet s t"
  by (simp_all add: ws_quiet_def chain_def queued_def)

lemma response_parts_quiet:
  "ws_quiet s (count_response response s)" "ws_quiet s (measure_latency response s)"
  "ws_quiet s (snd (take_callback moved response s))"
    apply (simp add: count_response_def)
   apply (simp add: measure_latency_def read_clock_def)
  apply (cases "ex_pending s (r_client_order_id response)"; simp add: take_callback_def Let_def)
  done

lemma on_response_quiet: "ws_quiet s (on_response moved response s)"
proof -
  let ?t = "snd (take_callback moved response (measure_latency response (count_response response s)))"
  have "ws_quiet s ?t" by (meson response_parts_quiet ws_quiet_trans)
  then show ?thesis by (simp add: on_response_def Let_def case_prod_beta split: option.splits)
qed

lemma handle_message_quiet: "ws_quiet s (snd (handle_message J junk moved msg s))"
  by (simp add: handle_message_def on_response_quiet split: option.splits bool.splits)

lemma executor_on_connected_quiet: "ws_quiet s (snd (executor_on_connected J hmac s))"
  unfolding executor_on_connected_def by (intro and_then_quiet requests_quiet)

interpretation ex: quiet_callbacks "executor_callbacks J hmac junk moved" for J hmac junk moved
  by unfold_locales
    (auto simp: executor_callbacks_def set_callbacks_def no_callbacks_def handle_message_quiet
      executor_on_connected_quiet)

lemma submit_trade_quiet: "ws_quiet s (snd (submit_trade trade callback s))"
  by (auto simp: submit_trade_def Let_def split: option.splits prod.splits)

text \<open>One iteration of the inner loop, branch by branch.\<close>

lemma execute_one_cases:
  fixes s :: "'cb executor"
  assumes pop: "mpsc_try_pop QUEUE_CAPACITY (ex_queue s) = (r, q)"
    and acq: "try_acquire (ex_steady s 0) (ex_limiter s) = (ok, rl)"
    and t: "t = s\<lparr>ex_queue := q, ex_steady := (\<lambda>n. ex_steady s (Suc n)), ex_limiter := rl\<rparr>"
  shows "r = None \<Longrightarrow> execute_one J hmac cb s = (None, False, s\<lparr>ex_queue := q, ex_draining := False\<rparr>)"
    and "r = Some trade \<Longrightarrow> \<not> ok \<Longrightarrow> execute_one J hmac cb s
      = (None, False, t\<lparr>ex_queue := snd (mpsc_push_seq QUEUE_CAPACITY trade q), ex_draining := False\<rparr>)"
    and "r = Some trade \<Longrightarrow> ok \<Longrightarrow> send_order J hmac cb trade t = (Some e, u) \<Longrightarrow>
      execute_one J hmac cb s = (Some e, False, u)"
    and "r = Some trade \<Longrightarrow> ok \<Longrightarrow> send_order J hmac cb trade t = (None, u) \<Longrightarrow>
      execute_one J hmac cb s = (None, True, u\<lparr>ex_sent := ex_sent u + 1\<rparr>)"
  by (simp_all add: execute_one_def pop acq read_clock_def t)

lemma execute_one_quiet:
  "ws_quiet s (snd (snd (execute_one J hmac (executor_callbacks J hmac junk moved) s)))"
proof -
  let ?cb = "executor_callbacks J hmac junk moved"
  obtain r q where pop: "mpsc_try_pop QUEUE_CAPACITY (ex_queue s) = (r, q)" by fastforce
  obtain ok rl where acq: "try_acquire (ex_steady s 0) (ex_limiter s) = (ok, rl)" by fastforce
  define t where t: "t = s\<lparr>ex_queue := q, ex_steady := (\<lambda>n. ex_steady s (Suc n)), ex_limiter := rl\<rparr>"
  note step = execute_one_cases [OF pop acq t, where J = J and hmac = hmac and cb = ?cb]
  have st: "ws_quiet s t" by (simp add: t)
  show ?thesis
  proof (cases r)
    case (Some trade)
    obtain e u where send: "send_order J hmac ?cb trade t = (e, u)" by fastforce
    have "ws_quiet t (snd (send_order J hmac ?cb trade t))" by (rule ex.send_order_quiet)
    then have "ws_quiet s u" using ws_quiet_trans [OF st] send by simp
    show ?thesis
    proof (cases ok)
      case True
      then show ?thesis
        using step(3) [OF Some] step(4) [OF Some] send \<open>ws_quiet s u\<close> by (cases e) simp_all
    next
      case False
      then show ?thesis using step(2) [OF Some] st by simp
    qed
  qed (simp add: step)
qed

section \<open>Steps\<close>

text \<open>
  The threads of the program: the I/O thread runs the handlers, strategies submit and cancel, the
  executor's thread runs its loop, and the main thread stops the executor. Each section between
  two points where the code can be interrupted by another thread is a step.
\<close>

inductive ex_step ::
  "'j json_lib \<Rightarrow> hmac_fn \<Rightarrow> (exn \<Rightarrow> string) \<Rightarrow> char \<times> char \<Rightarrow> ('cb option \<Rightarrow> 'cb option)
     \<Rightarrow> 'cb executor \<Rightarrow> 'cb executor \<Rightarrow> bool"
  for J :: "'j json_lib" and hmac what junk moved where
  event: "possible ev s \<Longrightarrow>
    ex_step J hmac what junk moved s (snd (handle_event J hmac what (executor_callbacks J hmac junk moved) ev s))"
| submit: "ex_step J hmac what junk moved s (snd (submit_trade trade callback s))"
| head: "ex_running s \<Longrightarrow> \<not> ex_draining s \<Longrightarrow> ex_step J hmac what junk moved s (loop_head s)"
| iterate: "ex_draining s \<Longrightarrow>
    ex_step J hmac what junk moved s (snd (snd (execute_one J hmac (executor_callbacks J hmac junk moved) s)))"
| cancel: "ex_step J hmac what junk moved s (snd (executor_cancel_order J hmac instrument oid client_oid s))"
| cancel_all: "ex_step J hmac what junk moved s (snd (executor_cancel_all_orders J hmac instrument s))"
| reset: "ex_step J hmac what junk moved s (reset_stats s)"
| stop: "ex_step J hmac what junk moved s (executor_stop s)"

lemma quiet_keeps: "ws_quiet s s' \<Longrightarrow> ws_inv s \<Longrightarrow> ws_inv s' \<and> prefix (queued s) (queued s')"
  using ws_quiet_inv by (auto simp: ws_quiet_def)

lemma step_keeps:
  assumes "ex_step J hmac what junk moved s s'" and inv: "ws_inv s"
  shows "ws_inv s' \<and> prefix (queued s) (queued s')"
  using assms(1)
proof cases
  case (event ev)
  then show ?thesis using ex.event_ok [OF inv] by simp
next
  case stop
  have "ws_inv (s\<lparr>ex_running := False, ex_draining := False\<rparr>)"
    using inv by (rule ws_quiet_inv) (simp add: ws_quiet_def chain_def queued_def)
  from ws_close_inv [OF this] show ?thesis using stop by (simp add: executor_stop_def) (simp add: queued_def)
qed (rule quiet_keeps [OF _ inv], simp add: executor_cancel_order_def executor_cancel_all_orders_def
    loop_head_def reset_stats_def submit_trade_quiet execute_one_quiet requests_quiet)+

lemma steps_keep:
  "(ex_step J hmac what junk moved)\<^sup>*\<^sup>* s s' \<Longrightarrow> ws_inv s \<Longrightarrow> ws_inv s' \<and> prefix (queued s) (queued s')"
  by (induction rule: rtranclp_induct) (auto dest: step_keeps intro: prefix_order.trans)

text \<open>The executor as \<open>main\<close> starts it.\<close>

definition executor_started ::
  "Trade \<Rightarrow> clock \<Rightarrow> clock \<Rightarrow> AuthHandler \<Rightarrow> bool \<Rightarrow> clock \<Rightarrow> 'cb executor" where
  "executor_started zero steady wall auth use_sandbox c =
     executor_start (new_executor zero steady wall (new_ws_client auth use_sandbox c))"

lemma executor_started_inv: "ws_inv (executor_started zero steady wall auth sb c)"
  unfolding executor_started_def executor_start_def
  by (rule connect_inv) (simp_all add: new_executor_def new_ws_client_def ws_client.defs executor.defs)


definition example_started :: "nat executor" where
  "example_started = executor_started example_order (\<lambda>n. int n) (\<lambda>n. int n) \<lparr>api_key = ''k'', api_secret = ''s''\<rparr> True (\<lambda>n. 5)"

text \<open>What \<open>libstdc++\<close> leaves in a moved-from \<open>std::function\<close>: an empty one.\<close>

definition emptied :: "'cb option \<Rightarrow> 'cb option" where
  "emptied callback = None"

abbreviation example_callbacks :: "(jval, nat executor) ws_callbacks" where
  "example_callbacks \<equiv> executor_callbacks reference_json example_hmac (CHR ''x'', CHR ''x'') emptied"

lemmas start_defs = example_started_def executor_started_def executor_start_def new_executor_def new_ws_client_def
  ws_client.defs executor.defs connect_def do_connect_def start_op_def

lemmas dial_defs = handle_event_def on_resolve_def connection_failed_def schedule_reconnect_def handle_error_def
  executor_callbacks_def set_callbacks_def on_reconnect_timer_def do_connect_def start_op_def
  MAX_RECONNECT_ATTEMPTS_def RECONNECT_DELAY_MS_def

lemma example_started_fields:
  "ws_ops example_started = [Resolve]" "ws_reconnect_attempts example_started = 0" "ws_should_reconnect example_started"
  by (simp_all add: start_defs)


section \<open>Giving up\<close>

fun run_events ::
  "'j json_lib \<Rightarrow> hmac_fn \<Rightarrow> (exn \<Rightarrow> string) \<Rightarrow> ('j, 'x ws_client_scheme) ws_callbacks \<Rightarrow> io_event list
     \<Rightarrow> 'x ws_client_scheme \<Rightarrow> 'x ws_client_scheme option" where
  "run_events J hmac what cb [] s = Some s"
| "run_events J hmac what cb (ev # evs) s =
     (if possible ev s then run_events J hmac what cb evs (snd (handle_event J hmac what cb ev s)) else None)"

definition attempts_in :: "io_event list \<Rightarrow> nat" where
  "attempts_in evs = length (filter (\<lambda>ev. completes ev = Resolve) evs)"

lemma run_events_dials:
  "run_events J hmac what (executor_callbacks J hmac junk moved) evs s = Some s' \<Longrightarrow> list_all dial_event evs \<Longrightarrow>
   ws_inv s \<Longrightarrow> ws_inv s' \<and> dials_left s' + int (attempts_in evs) \<le> dials_left s"
proof (induction evs arbitrary: s)
  case (Cons ev evs)
  let ?s = "snd (handle_event J hmac what (executor_callbacks J hmac junk moved) ev s)"
  have p: "possible ev s" and run: "run_events J hmac what (executor_callbacks J hmac junk moved) evs ?s = Some s'"
    using Cons.prems(1) by (auto split: if_splits)
  have "ws_inv ?s" by (rule conjunct1 [OF ex.event_ok [OF Cons.prems(3) p]])
  moreover have "dials_left ?s + (if completes ev = Resolve then 1 else 0) \<le> dials_left s"
    by (rule ex.event_dials [OF Cons.prems(3) p]) (use Cons.prems(2) in simp)
  ultimately show ?case using Cons.IH [OF run] Cons.prems(2) by (auto simp: attempts_in_def)
qed (simp add: attempts_in_def)

text \<open>
  (C36) An exchange that cannot be reached: after the start, as long as no handshake succeeds, the
  client resolves the host at most eleven times (the first attempt and ten more) however the
  steps of the connection fail, and when it has nothing outstanding any more and was not stopped
  it has made all ten further attempts.
\<close>

theorem reconnect_gives_up:
  fixes moved :: "'cb option \<Rightarrow> 'cb option"
  assumes "run_events J hmac what (executor_callbacks J hmac junk moved) evs
      (executor_started zero steady wall auth sb c) = Some s"
    and "list_all dial_event evs"
  shows "attempts_in evs \<le> 11 \<and> (chain s = [] \<and> ws_should_reconnect s \<longrightarrow> ws_reconnect_attempts s = 10)"
proof -
  let ?start = "executor_started zero steady wall auth sb c :: 'cb executor"
  have start: "dials_left ?start = 11"
    by (simp add: dials_left_def chain_def start_defs MAX_RECONNECT_ATTEMPTS_def)
  have s: "ws_inv s" "dials_left s + int (attempts_in evs) \<le> 11"
    using run_events_dials [OF assms executor_started_inv] start by simp_all
  moreover have "0 \<le> dials_left s" using s(1) by (simp add: dials_left_def ws_inv_def)
  moreover have "chain s = [] \<and> ws_should_reconnect s \<longrightarrow> ws_reconnect_attempts s = 10"
    using s(1) by (simp add: ws_inv_def chain_ok_def MAX_RECONNECT_ATTEMPTS_def split: list.splits)
  ultimately show ?thesis by linarith
qed

text \<open>The whole run: each resolution fails and each wait ends.\<close>

definition unreachable_run :: "io_event list" where
  "unreachable_run = concat (map (\<lambda>n. [Resolved (Some ''unreachable''), WaitDone (1000 * n) False]) [1..10])
     @ [Resolved (Some ''unreachable'')]"

theorem reconnect_gives_up_witness:
  "\<exists>s. run_events reference_json example_hmac (\<lambda>e. ''?'') example_callbacks unreachable_run example_started = Some s \<and>
     chain s = [] \<and> ws_reconnect_attempts s = 10 \<and> attempts_in unreachable_run \<le> 11"
proof -
  have dial: "list_all dial_event unreachable_run" by (simp add: unreachable_run_def upto_rec1)
  obtain s where s: "run_events reference_json example_hmac (\<lambda>e. ''?'') example_callbacks unreachable_run example_started = Some s"
    and "chain s = []" "ws_should_reconnect s"
    by (simp add: unreachable_run_def upto_rec1 dial_defs chain_def example_started_fields)
  then show ?thesis
    using reconnect_gives_up [OF s [unfolded example_started_def] dial] by (intro exI [of _ s]) simp
qed

section \<open>A pass of the execution loop\<close>

lemma do_send_executor [simp]:
  "ex_queue (do_send s) = ex_queue (s :: 'cb executor)" "ex_limiter (do_send s) = ex_limiter s"
  "ex_steady (do_send s) = ex_steady s" "ex_sent (do_send s) = ex_sent s" "ws_auth (do_send s) = ws_auth s"
  by (cases "ws_send_queue s"; simp add: do_send_def take_message_def async_write_def start_op_def)+

lemma async_send_executor [simp]:
  "ex_queue (async_send m s) = ex_queue (s :: 'cb executor)" "ex_limiter (async_send m s) = ex_limiter s"
  "ex_steady (async_send m s) = ex_steady s" "ex_sent (async_send m s) = ex_sent s"
  "ws_auth (async_send m s) = ws_auth s"
  by (cases "ws_sending s"; simp add: async_send_def enqueue_message_def acquire_sending_def)+

lemma async_send_queued [simp]: "queued (async_send m s) = queued s @ [m]"
  by (cases "ws_sending s"; cases "ws_send_queue s")
    (simp_all add: async_send_def enqueue_message_def acquire_sending_def do_send_def take_message_def
      async_write_def start_op_def queued_def)

lemma async_send_authenticated [simp]: "ws_authenticated (async_send m s) = ws_authenticated s"
  using async_send_quiet [of s m] by (simp add: ws_quiet_def)

text \<open>\<open>m\<close> is the text of a request that creates the order \<open>t\<close>.\<close>

definition is_request_for :: "'j json_lib \<Rightarrow> hmac_fn \<Rightarrow> AuthHandler \<Rightarrow> Trade \<Rightarrow> string \<Rightarrow> bool" where
  "is_request_for J hmac auth t m \<longleftrightarrow>
     (\<exists>mb c msg mb' c'. build_create_order J hmac auth t mb c = (Some msg, mb', c') \<and> j_dump J msg = Some m)"

lemma send_order_sent:
  fixes s :: "'cb executor"
  assumes "json_laws J" "ascii (t_ticker trade)" "ws_authenticated s"
  obtains u m where "send_order J hmac cb trade s = (None, u)" "is_request_for J hmac (ws_auth s) trade m"
    "queued u = queued s @ [m]" "ws_authenticated u" "ws_auth u = ws_auth s" "ex_queue u = ex_queue s"
    "ex_limiter u = ex_limiter s" "ex_steady u = ex_steady s" "ex_sent u = ex_sent s"
proof -
  obtain msg mb' c' m where b: "build_create_order J hmac (ws_auth s) trade (ws_builder s) (ws_clock s) = (Some msg, mb', c')"
    "j_dump J msg = Some m" using create_order_text [OF assms(1,2)] by blast
  let ?u = "async_send m (s\<lparr>ws_builder := mb', ws_clock := c'\<rparr>)"
  have "send_order J hmac cb trade s = (None, ?u)"
    using assms(3) b by (simp add: send_order_def send_request_def)
  moreover have "queued ?u = queued s @ [m]" by (simp add: queued_def [of s]) (simp add: queued_def)
  moreover have "is_request_for J hmac (ws_auth s) trade m" unfolding is_request_for_def using b by blast
  ultimately show thesis using assms(3) by (intro that [of ?u m]) simp_all
qed

text \<open>How many of the next requests the limiter grants in a row.\<close>

fun granted_prefix :: "nat \<Rightarrow> clock \<Rightarrow> RateLimiter \<Rightarrow> nat" where
  "granted_prefix 0 c rl = 0"
| "granted_prefix (Suc n) c rl =
     (case try_acquire (c 0) rl of
        (True, rl) \<Rightarrow> Suc (granted_prefix n (\<lambda>i. c (Suc i)) rl)
      | (False, rl) \<Rightarrow> 0)"

lemma granted_prefix_le: "granted_prefix n c rl \<le> n"
  by (induction n c rl rule: granted_prefix.induct) (auto split: prod.splits bool.splits)

lemma pop_queue:
  assumes "mpsc_inv QUEUE_CAPACITY q" "mpsc_contents QUEUE_CAPACITY q = t # ts"
  obtains q' where "mpsc_try_pop QUEUE_CAPACITY q = (Some t, q')" "mpsc_inv QUEUE_CAPACITY q'"
    "mpsc_contents QUEUE_CAPACITY q' = ts"
  using mpsc.pop_cons [OF assms] mpsc.pop_inv [OF assms(1)] by (metis prod.collapse)

text \<open>After a pop there is room for the trade that was taken out.\<close>

lemma push_back:
  assumes "mpsc_inv QUEUE_CAPACITY q" "mpsc_contents QUEUE_CAPACITY q = t # ts"
    "mpsc_inv QUEUE_CAPACITY q'" "mpsc_contents QUEUE_CAPACITY q' = ts"
  shows "mpsc_contents QUEUE_CAPACITY (snd (mpsc_push_seq QUEUE_CAPACITY t q')) = ts @ [t]"
proof -
  have "length (t # ts) \<le> QUEUE_CAPACITY"
    using assms(1,2) length_mpsc_contents [of QUEUE_CAPACITY q] by (simp add: mpsc_inv_def)
  then show ?thesis using mpsc.push_room [OF assms(3), of t] assms(4) by simp
qed

lemma drain_queue_pass:
  fixes s :: "'cb executor"
  assumes J: "json_laws J"
  shows "ws_authenticated s \<Longrightarrow> mpsc_inv QUEUE_CAPACITY (ex_queue s) \<Longrightarrow> mpsc_contents QUEUE_CAPACITY (ex_queue s) = ts \<Longrightarrow>
    list_all (\<lambda>t. ascii (t_ticker t)) ts \<Longrightarrow> length ts < n \<Longrightarrow> k = granted_prefix (length ts) (ex_steady s) (ex_limiter s) \<Longrightarrow>
    \<exists>s' ms. drain_queue J hmac cb n s = Some (None, s') \<and> queued s' = queued s @ ms \<and>
      list_all2 (is_request_for J hmac (ws_auth s)) (take k ts) ms \<and> ex_sent s' = ex_sent s + of_nat k \<and>
      mpsc_contents QUEUE_CAPACITY (ex_queue s') = (if k = length ts then [] else drop (Suc k) ts @ [ts ! k])"
proof (induction ts arbitrary: s n k)
  case Nil
  obtain m where n: "n = Suc m" using Nil.prems(5) by (cases n) auto
  have pop: "mpsc_try_pop QUEUE_CAPACITY (ex_queue s) = (None, ex_queue s)"
    using mpsc.pop_nil [OF Nil.prems(2,3)] .
  have "execute_one J hmac cb s = (None, False, s\<lparr>ex_queue := ex_queue s, ex_draining := False\<rparr>)"
    by (rule execute_one_cases(1) [OF pop prod.collapse [symmetric] refl]) simp
  then show ?case using Nil.prems n by (simp add: queued_def)
next
  case (Cons t ts)
  obtain m where n: "n = Suc m" using Cons.prems(5) by (cases n) auto
  obtain q where pop: "mpsc_try_pop QUEUE_CAPACITY (ex_queue s) = (Some t, q)"
    and q: "mpsc_inv QUEUE_CAPACITY q" "mpsc_contents QUEUE_CAPACITY q = ts"
    using pop_queue [OF Cons.prems(2,3)] .
  obtain ok rl where acq: "try_acquire (ex_steady s 0) (ex_limiter s) = (ok, rl)" by fastforce
  define u where u: "u = s\<lparr>ex_queue := q, ex_steady := (\<lambda>n. ex_steady s (Suc n)), ex_limiter := rl\<rparr>"
  note step = execute_one_cases [OF pop acq u, where J = J and hmac = hmac and cb = cb]
  show ?case
  proof (cases ok)
    case False
    then have "k = 0" using Cons.prems(6) acq by simp
    then show ?thesis
      using step(2) [OF refl False] n push_back [OF Cons.prems(2,3) q] by (simp add: queued_def u)
  next
    case True
    have "ascii (t_ticker t)" "ws_authenticated u" using Cons.prems(1,4) by (simp_all add: u)
    then obtain v m' where v: "send_order J hmac cb t u = (None, v)" "is_request_for J hmac (ws_auth u) t m'"
      "queued v = queued u @ [m']" "ws_authenticated v" "ws_auth v = ws_auth u" "ex_queue v = ex_queue u"
      "ex_limiter v = ex_limiter u" "ex_steady v = ex_steady u" "ex_sent v = ex_sent u"
      using send_order_sent [OF J] by metis
    define w where "w = v\<lparr>ex_sent := ex_sent v + 1\<rparr>"
    have drain: "drain_queue J hmac cb n s = drain_queue J hmac cb m w"
      using step(4) [OF refl True v(1)] by (simp add: n w_def)
    have w: "ws_authenticated w" "ex_queue w = q" "ws_auth w = ws_auth s" "queued w = queued s @ [m']"
      "ex_sent w = ex_sent s + 1" "ex_steady w = (\<lambda>n. ex_steady s (Suc n))" "ex_limiter w = rl"
      using v by (simp_all add: w_def u queued_def)
    obtain j where j: "k = Suc j" "j = granted_prefix (length ts) (ex_steady w) (ex_limiter w)"
      using Cons.prems(6) acq True w(6,7) by simp
    have "\<exists>s' ms. drain_queue J hmac cb m w = Some (None, s') \<and> queued s' = queued w @ ms \<and>
      list_all2 (is_request_for J hmac (ws_auth w)) (take j ts) ms \<and> ex_sent s' = ex_sent w + of_nat j \<and>
      mpsc_contents QUEUE_CAPACITY (ex_queue s') = (if j = length ts then [] else drop (Suc j) ts @ [ts ! j])"
      using Cons.prems(4,5) q by (intro Cons.IH [OF w(1) _ _ _ _ j(2)]) (simp_all add: n w(2))
    then obtain s' ms where ih: "drain_queue J hmac cb m w = Some (None, s')" "queued s' = queued w @ ms"
      "list_all2 (is_request_for J hmac (ws_auth w)) (take j ts) ms" "ex_sent s' = ex_sent w + of_nat j"
      "mpsc_contents QUEUE_CAPACITY (ex_queue s') = (if j = length ts then [] else drop (Suc j) ts @ [ts ! j])" by blast
    show ?thesis
      using ih v(2) w j(1) drain
      by (intro exI [of _ s'] exI [of _ "m' # ms"]) (simp add: u add.commute)
  qed
qed

text \<open>
  (C9) A pass of the execution loop over a queue of orders \<open>ts\<close>, authenticated and undisturbed,
  ends and hands to the client exactly as many orders as the limiter grants in a row, each as the
  text of its own request, in the order of the queue. If the limiter refuses one, that order goes
  to the back of the queue, behind orders submitted after it, and none is lost.
\<close>

theorem executor_pass_in_order:
  fixes s :: "'cb executor"
  assumes "json_laws J" and "ws_authenticated s" and "mpsc_inv QUEUE_CAPACITY (ex_queue s)"
    and "mpsc_contents QUEUE_CAPACITY (ex_queue s) = ts" and "list_all (\<lambda>t. ascii (t_ticker t)) ts"
    and "length ts < n" and "k = granted_prefix (length ts) (ex_steady s) (ex_limiter s)"
  shows "\<exists>s' ms. drain_queue J hmac cb n s = Some (None, s') \<and> queued s' = queued s @ ms \<and>
      list_all2 (is_request_for J hmac (ws_auth s)) (take k ts) ms \<and> ex_sent s' = ex_sent s + of_nat k \<and>
      mpsc_contents QUEUE_CAPACITY (ex_queue s') = (if k = length ts then [] else drop (Suc k) ts @ [ts ! k])"
  by (rule drain_queue_pass [OF assms])

lemma capacity_ok: "mpsc_capacity_ok QUEUE_CAPACITY"
proof -
  have "QUEUE_CAPACITY = 2 ^ 16" by (simp add: QUEUE_CAPACITY_def)
  then show ?thesis unfolding mpsc_capacity_ok_def valid_capacity_def by (auto simp: list_ex_iff intro!: bexI [of _ 16])
qed

text \<open>Two orders and a limiter with room for one.\<close>

definition example_busy :: "nat executor" where
  "example_busy =
     (let s = example_started\<lparr>ws_authenticated := True, ex_limiter := new_RateLimiter 1 1\<rparr>;
          s = snd (submit_trade example_order (Some 1) s)
      in snd (submit_trade (example_order\<lparr>t_client_order_id := 8\<rparr>) (Some 2) s))"

lemma example_busy_queue:
  "mpsc_inv QUEUE_CAPACITY (ex_queue example_busy)"
  "mpsc_contents QUEUE_CAPACITY (ex_queue example_busy) = [example_order, example_order\<lparr>t_client_order_id := 8\<rparr>]"
proof -
  define q where "q = mpsc_new QUEUE_CAPACITY example_order"
  let ?one = "snd (mpsc_push_seq QUEUE_CAPACITY example_order q)"
  let ?t = "example_order\<lparr>t_client_order_id := 8\<rparr>"
  have q: "mpsc_inv QUEUE_CAPACITY q" "mpsc_contents QUEUE_CAPACITY q = []"
    using mpsc_new_inv [OF capacity_ok] by (simp_all add: q_def)
  have room: "1 < QUEUE_CAPACITY" by (simp add: QUEUE_CAPACITY_def)
  have one: "mpsc_inv QUEUE_CAPACITY ?one" "mpsc_contents QUEUE_CAPACITY ?one = [example_order]"
    using mpsc.push_inv [OF q(1)] mpsc.push_room [OF q(1), of example_order] q(2) room by simp_all
  have two: "mpsc_inv QUEUE_CAPACITY (snd (mpsc_push_seq QUEUE_CAPACITY ?t ?one))"
    "mpsc_contents QUEUE_CAPACITY (snd (mpsc_push_seq QUEUE_CAPACITY ?t ?one)) = [example_order, ?t]"
    using mpsc.push_inv [OF one(1)] mpsc.push_room [OF one(1), of ?t] one(2) room by simp_all
  have "ex_queue example_busy = snd (mpsc_push_seq QUEUE_CAPACITY ?t ?one)"
    by (simp add: example_busy_def submit_trade_def q_def Let_def case_prod_beta start_defs)
  then show "mpsc_inv QUEUE_CAPACITY (ex_queue example_busy)"
    "mpsc_contents QUEUE_CAPACITY (ex_queue example_busy) = [example_order, ?t]" using two by simp_all
qed

theorem executor_pass_in_order_witness:
  "\<exists>s' m. drain_queue reference_json example_hmac example_callbacks 3 example_busy = Some (None, s') \<and>
     queued s' = [m] \<and> is_request_for reference_json example_hmac (ws_auth example_busy) example_order m \<and>
     mpsc_contents QUEUE_CAPACITY (ex_queue s') = [example_order\<lparr>t_client_order_id := 8\<rparr>]"
proof -
  let ?ts = "[example_order, example_order\<lparr>t_client_order_id := 8\<rparr>]"
  have "ws_authenticated example_busy" "queued example_busy = []"
    by (simp_all add: example_busy_def submit_trade_def Let_def case_prod_beta start_defs queued_def)
  have lim: "ex_steady example_busy = (\<lambda>n. int n)" "ex_limiter example_busy = new_RateLimiter 1 1"
    by (simp_all add: example_busy_def submit_trade_def Let_def case_prod_beta start_defs)
  have k: "1 = granted_prefix (length ?ts) (ex_steady example_busy) (ex_limiter example_busy)"
    by (simp add: lim try_acquire_def new_RateLimiter_def second_of_def interval_100ms_of_def sdiv_nonneg)
  have a: "list_all (\<lambda>t. ascii (t_ticker t)) ?ts" by (simp add: example_order_def)
  have "\<exists>s' ms. drain_queue reference_json example_hmac example_callbacks 3 example_busy = Some (None, s') \<and>
      queued s' = queued example_busy @ ms \<and>
      list_all2 (is_request_for reference_json example_hmac (ws_auth example_busy)) (take 1 ?ts) ms \<and>
      ex_sent s' = ex_sent example_busy + of_nat 1 \<and>
      mpsc_contents QUEUE_CAPACITY (ex_queue s') = (if 1 = length ?ts then [] else drop (Suc 1) ?ts @ [?ts ! 1])"
    by (rule executor_pass_in_order [OF reference_json_laws \<open>ws_authenticated example_busy\<close> example_busy_queue a _ k]) simp
  then show ?thesis using \<open>queued example_busy = []\<close> by (auto simp: list_all2_Cons1)
qed

section \<open>Answers\<close>

lemma measure_count_fields [simp]:
  "ex_pending (measure_latency r (count_response r s)) = ex_pending s"
  "ex_calls (measure_latency r (count_response r s)) = ex_calls s"
  by (simp_all add: measure_latency_def count_response_def read_clock_def)

lemma on_response_fields:
  "ex_calls (on_response moved r s) = ex_calls s @
     (case ex_pending s (r_client_order_id r) of Some (Some cb) \<Rightarrow> [(cb, r)] | _ \<Rightarrow> [])"
  "ex_pending (on_response moved r s) = (case ex_pending s (r_client_order_id r) of
     None \<Rightarrow> ex_pending s
   | Some callback \<Rightarrow> (ex_pending s)(r_client_order_id r :=
       (if terminal (r_status r) then None else Some (moved callback))))"
  by (auto simp: on_response_def take_callback_def terminal_def Let_def split: option.splits)

text \<open>The responses up to the first final one.\<close>

fun through_terminal :: "OrderResponse list \<Rightarrow> OrderResponse list" where
  "through_terminal [] = []"
| "through_terminal (r # rs) = r # (if terminal (r_status r) then [] else through_terminal rs)"

lemma no_callback_no_calls:
  "list_all (\<lambda>r. r_client_order_id r = oid) rs \<Longrightarrow> \<forall>cb. ex_pending s oid \<noteq> Some (Some cb) \<Longrightarrow> moved None = None \<Longrightarrow>
   ex_calls (fold (on_response moved) rs s) = ex_calls s"
proof (induction rs arbitrary: s)
  case (Cons r rs)
  have "ex_calls (on_response moved r s) = ex_calls s"
    using Cons.prems by (auto simp: on_response_fields split: option.splits)
  moreover have "\<forall>cb. ex_pending (on_response moved r s) oid \<noteq> Some (Some cb)"
    using Cons.prems by (auto simp: on_response_fields split: option.splits)
  ultimately show ?case using Cons by simp
qed simp

lemma kept_callback_calls:
  "list_all (\<lambda>r. r_client_order_id r = oid) rs \<Longrightarrow> ex_pending s oid = Some (Some cb) \<Longrightarrow>
   ex_calls (fold (on_response (\<lambda>c. c)) rs s) = ex_calls s @ map (Pair cb) (through_terminal rs)"
proof (induction rs arbitrary: s)
  case (Cons r rs)
  let ?s = "on_response (\<lambda>c. c) r s"
  have calls: "ex_calls ?s = ex_calls s @ [(cb, r)]" using Cons.prems by (simp add: on_response_fields)
  show ?case
  proof (cases "terminal (r_status r)")
    case True
    then have "ex_pending ?s oid = None" using Cons.prems by (simp add: on_response_fields)
    then show ?thesis using True Cons.prems calls no_callback_no_calls [of oid rs ?s "\<lambda>c. c"] by simp
  next
    case False
    then have "ex_pending ?s oid = Some (Some cb)" using Cons.prems by (simp add: on_response_fields)
    then show ?thesis using False Cons calls by simp
  qed
qed simp

lemma emptied_callback_calls:
  assumes "list_all (\<lambda>r. r_client_order_id r = oid) rs" and "ex_pending s oid = Some (Some cb)"
  shows "ex_calls (fold (on_response emptied) rs s) = ex_calls s @ map (Pair cb) (take 1 rs)"
proof (cases rs)
  case (Cons r rest)
  let ?s = "on_response emptied r s"
  have "ex_calls ?s = ex_calls s @ [(cb, r)]" "\<forall>cb. ex_pending ?s oid \<noteq> Some (Some cb)"
    using assms Cons by (simp_all add: on_response_fields emptied_def)
  then show ?thesis
    using no_callback_no_calls [of oid rest ?s emptied] assms(1) Cons by (simp add: emptied_def)
qed simp

text \<open>
  (C37) Responses \<open>rs\<close> to an order that was submitted with a callback. \<open>std::move\<close> empties the
  function in the map on every response, also on one that is not final, and the entry stays: so
  the callback receives the first response only, an acknowledgement or a partial fill hides the
  fill that follows. Had the function been copied, the callback would have received every response
  up to the first final one.
\<close>

theorem executor_delivers_first_response_only:
  assumes "list_all (\<lambda>r. r_client_order_id r = oid) rs" and "ex_pending s oid = Some (Some cb)"
  shows "ex_calls (fold (on_response emptied) rs s) = ex_calls s @ map (Pair cb) (take 1 rs) \<and>
    ex_calls (fold (on_response (\<lambda>callback. callback)) rs s) = ex_calls s @ map (Pair cb) (through_terminal rs)"
  using emptied_callback_calls [OF assms] kept_callback_calls [OF assms] ..

text \<open>An acknowledgement, then the fill: the strategy never hears of the fill.\<close>

theorem executor_delivers_first_response_only_witness:
  "ex_calls (fold (on_response emptied)
     [new_OrderResponse\<lparr>r_client_order_id := 7\<rparr>, new_OrderResponse\<lparr>r_client_order_id := 7, r_status := FILLED\<rparr>]
     (example_started\<lparr>ex_pending := [7 \<mapsto> Some 1]\<rparr>)) = [(1, new_OrderResponse\<lparr>r_client_order_id := 7\<rparr>)]"
proof -
  have "ex_calls (example_started\<lparr>ex_pending := [7 \<mapsto> Some 1]\<rparr>) = []" by (simp add: start_defs)
  then show ?thesis
    using executor_delivers_first_response_only [of 7
      "[new_OrderResponse\<lparr>r_client_order_id := 7\<rparr>, new_OrderResponse\<lparr>r_client_order_id := 7, r_status := FILLED\<rparr>]"
      "example_started\<lparr>ex_pending := [7 \<mapsto> Some 1]\<rparr>" 1] by simp
qed

end
