(* ===== verification/Live_Sink.thy ===== *)
theory Live_Sink
  imports Execution_Safety
begin

text \<open>
  \<open>include/strategy/live_order_executor_sink.hpp\<close>: the execution sink of the live platform. It
  passes orders on to the executor with a closure that records every response in the storage
  before it reaches the strategy. The closure is the record \<open>live_callback\<close>; calling it is
  \<open>live_on_response\<close>. The function that submits is an argument, as in the code; with
  \<^const>\<open>submit_trade\<close> for it, \<open>live_executor_session\<close> follows an order through the executor.
\<close>

record LiveOrderExecutorSink =
  lv_submitted_events_seen :: u64
  lv_response_events_seen :: u64
  lv_storage_append_failures :: u64

definition new_LiveOrderExecutorSink :: LiveOrderExecutorSink where
  "new_LiveOrderExecutorSink =
     \<lparr>lv_submitted_events_seen = 0, lv_response_events_seen = 0, lv_storage_append_failures = 0\<rparr>"

record ('cb, 'f) live_callback =
  lc_response_callback :: "'cb option"
  lc_storage_failure_callback :: "'f option"

type_synonym 's live = "LiveOrderExecutorSink \<times> 's env"

definition live_append_storage_event ::
  "'s append_fn \<Rightarrow> StorageEvent \<Rightarrow> 'f option \<Rightarrow> 's live \<Rightarrow> bool \<times> 's live \<times> ('cb, 'f) effect list" where
  "live_append_storage_event append_op event failure_callback live =
     (let (lv, env) = live; (appended, env) = env_append append_op event env
      in if appended then (True, (lv, env), [])
         else (False, (lv\<lparr>lv_storage_append_failures := lv_storage_append_failures lv + 1\<rparr>, env),
               invoke_failure failure_callback))"

text \<open>The lambda given to \<open>submit_fn_\<close>.\<close>

definition live_on_response ::
  "'s append_fn \<Rightarrow> ('cb, 'f) live_callback \<Rightarrow> OrderResponse \<Rightarrow> 's live \<Rightarrow> 's live \<times> ('cb, 'f) effect list" where
  "live_on_response append_op callback response live =
     (let (lv, env) = live;
          (now, env) = env_now env;
          event = \<lparr>se_offset = 0, se_ingest_ts_ns = now, se_type = OrderResponseEvent, se_payload = PResponse response\<rparr>;
          (appended, (lv, env), eff) =
            live_append_storage_event append_op event (lc_storage_failure_callback callback) (lv, env);
          lv = lv\<lparr>lv_response_events_seen := lv_response_events_seen lv + 1\<rparr>
      in ((lv, env), eff @ invoke (lc_response_callback callback) response))"

text \<open>
  The capture moves \<open>storage_failure_callback\<close> into the lambda; the later use in the same function
  sees what the move left, \<open>moved\<close> of it.
\<close>

definition live_submit_trade ::
  "'s append_fn \<Rightarrow> (Trade \<Rightarrow> ('cb, 'f) live_callback option \<Rightarrow> 'd \<Rightarrow> bool \<times> 'd) \<Rightarrow> ('f option \<Rightarrow> 'f option)
     \<Rightarrow> Trade \<Rightarrow> 'cb option \<Rightarrow> 'f option \<Rightarrow> 's live \<times> 'd
     \<Rightarrow> bool \<times> ('s live \<times> 'd) \<times> ('cb, 'f) effect list" where
  "live_submit_trade append_op submit_fn moved trade response_callback storage_failure_callback st =
     (let ((lv, env), d) = st;
          (submitted, d) = submit_fn trade
            (Some \<lparr>lc_response_callback = response_callback, lc_storage_failure_callback = storage_failure_callback\<rparr>) d
      in if \<not> submitted then (False, ((lv, env), d), [])
         else let (now, env) = env_now env;
                  event = \<lparr>se_offset = 0, se_ingest_ts_ns = now, se_type = TradeSubmitted, se_payload = PTrade trade\<rparr>;
                  (appended, (lv, env), eff) =
                    live_append_storage_event append_op event (moved storage_failure_callback) (lv, env);
                  lv = lv\<lparr>lv_submitted_events_seen := lv_submitted_events_seen lv + 1\<rparr>
              in (True, ((lv, env), d), eff))"

definition live_cancel_order :: "(string \<Rightarrow> u64 \<Rightarrow> u64 \<Rightarrow> 'd \<Rightarrow> 'd) \<Rightarrow> string \<Rightarrow> u64 \<Rightarrow> u64 \<Rightarrow> 'd \<Rightarrow> 'd" where
  "live_cancel_order cancel_fn instrument order_id client_oid = cancel_fn instrument order_id client_oid"

definition live_cancel_all_orders :: "(string \<Rightarrow> 'd \<Rightarrow> 'd) \<Rightarrow> string \<Rightarrow> 'd \<Rightarrow> 'd" where
  "live_cancel_all_orders cancel_all_fn instrument = cancel_all_fn instrument"

definition live_stats :: "LiveOrderExecutorSink \<Rightarrow> u64 \<times> u64 \<times> u64" where
  "live_stats lv = (lv_submitted_events_seen lv, lv_response_events_seen lv, lv_storage_append_failures lv)"

text \<open>The calls an executor made, run in order.\<close>

fun live_deliver ::
  "'s append_fn \<Rightarrow> (('cb, 'f) live_callback \<times> OrderResponse) list \<Rightarrow> 's live \<Rightarrow> 's live \<times> ('cb, 'f) effect list" where
  "live_deliver append_op [] live = (live, [])"
| "live_deliver append_op ((callback, response) # calls) live =
     (let (live, eff) = live_on_response append_op callback response live;
          (live, effs) = live_deliver append_op calls live
      in (live, eff @ effs))"

section \<open>What the sink does\<close>

text \<open>Every response reaches the strategy, whether or not the storage takes it, and is counted.\<close>

lemma live_on_response_facts:
  "responses (snd (live_on_response append_op callback response live)) =
     (case lc_response_callback callback of None \<Rightarrow> [] | Some cb \<Rightarrow> [(cb, response)])"
  "lv_response_events_seen (fst (fst (live_on_response append_op callback response live)))
     = lv_response_events_seen (fst live) + 1"
  by (auto simp: live_on_response_def live_append_storage_event_def Let_def case_prod_beta)

lemma live_deliver_responses:
  "responses (snd (live_deliver append_op calls live)) =
     concat (map (\<lambda>(c, r). case lc_response_callback c of None \<Rightarrow> [] | Some cb \<Rightarrow> [(cb, r)]) calls)"
proof (induction calls arbitrary: live)
  case (Cons call calls)
  obtain c r where "call = (c, r)" by fastforce
  then show ?case using Cons live_on_response_facts(1) [of append_op c r live]
    by (simp add: Let_def case_prod_beta split: option.splits)
qed simp

text \<open>
  A storage that refuses the \<open>TradeSubmitted\<close> event after the move: the order is out, the failure is
  counted, and with an emptied function nobody is told.
\<close>

lemma live_storage_failure_unreported:
  assumes "submit_fn trade (Some \<lparr>lc_response_callback = r, lc_storage_failure_callback = f\<rparr>) d = (True, d')"
    and "env_storage env = Some st" and "\<And>event rt. fst (append_op event st rt) = False"
  shows "\<exists>env'. live_submit_trade append_op submit_fn emptied trade r f ((lv, env), d) =
    (True, ((lv\<lparr>lv_storage_append_failures := lv_storage_append_failures lv + 1,
       lv_submitted_events_seen := lv_submitted_events_seen lv + 1\<rparr>, env'), d'), [])"
  using assms
  by (simp add: live_submit_trade_def live_append_storage_event_def env_append_def env_now_def emptied_def
      Let_def case_prod_beta)

section \<open>An order through the executor\<close>

text \<open>
  An order submitted through the live sink to a running executor with room in its queue: the
  executor knows its closure, and of the responses \<open>rs\<close> to it the strategy's callback receives the
  first one.
\<close>

lemma live_executor_session:
  fixes s :: "('cb, 'f) live_callback executor"
  assumes "ex_running s" and "mpsc_inv QUEUE_CAPACITY (ex_queue s)"
    and "length (mpsc_contents QUEUE_CAPACITY (ex_queue s)) < QUEUE_CAPACITY"
    and "live_submit_trade append_op submit_trade moved trade (Some cb) f ((lv, env), s) = (ok, (live, s'), eff)"
    and "list_all (\<lambda>r. r_client_order_id r = t_client_order_id trade) rs" and "ex_calls s = []"
  shows "ok \<and> mpsc_contents QUEUE_CAPACITY (ex_queue s') = mpsc_contents QUEUE_CAPACITY (ex_queue s) @ [trade] \<and>
    responses (snd (live_deliver append_op (ex_calls (fold (on_response emptied) rs s')) live)) = map (Pair cb) (take 1 rs)"
proof -
  let ?c = "\<lparr>lc_response_callback = Some cb, lc_storage_failure_callback = f\<rparr>"
  have push: "fst (mpsc_push_seq QUEUE_CAPACITY trade (ex_queue s)) \<and>
      mpsc_contents QUEUE_CAPACITY (snd (mpsc_push_seq QUEUE_CAPACITY trade (ex_queue s)))
        = mpsc_contents QUEUE_CAPACITY (ex_queue s) @ [trade]" by (rule mpsc.push_room [OF assms(2,3)])
  have sub: "submit_trade trade (Some ?c) s = (True, s\<lparr>ex_pending := (ex_pending s)(t_client_order_id trade \<mapsto> Some ?c),
      ex_queue := snd (mpsc_push_seq QUEUE_CAPACITY trade (ex_queue s))\<rparr>)"
    using assms(1) push by (simp add: submit_trade_def case_prod_beta)
  then have s': "ok" "s' = s\<lparr>ex_pending := (ex_pending s)(t_client_order_id trade \<mapsto> Some ?c),
      ex_queue := snd (mpsc_push_seq QUEUE_CAPACITY trade (ex_queue s))\<rparr>"
    using assms(4) by (auto simp: live_submit_trade_def Let_def case_prod_beta)
  have "ex_pending s' (t_client_order_id trade) = Some (Some ?c)" and "ex_calls s' = []"
    using assms(6) by (simp_all add: s')
  then have "ex_calls (fold (on_response emptied) rs s') = map (Pair ?c) (take 1 rs)"
    using emptied_callback_calls [OF assms(5), of s' ?c] by simp
  then show ?thesis using s' push by (cases rs) (simp_all add: live_deliver_responses live_on_response_facts)
qed

end
