(* ===== verification/Platform.thy ===== *)
theory Platform
  imports Session_Ledger Jsonl_Durability Live_Sink
begin

text \<open>
  The live platform as \<open>main\<close> in \<open>src/main.cpp\<close> wires it: strategies over the risk sink, over the
  live sink, over the order executor, with one storage shared by the manager and the live sink.
  The threads of the program interleave as the steps of \<open>platform_step\<close>: market data reach the
  risk sink and the strategies, the executor's thread and the handlers of its connection run, and
  the storage's flusher writes. A handler runs to its end in one step; the callbacks it makes run
  with it.
\<close>

section \<open>What the connection leaves alone\<close>

text \<open>A view of the client's owner that does not look at the fields of the client.\<close>

locale client_view =
  fixes view :: "'x ws_client_scheme \<Rightarrow> 'v"
  assumes view_fields: "view (s\<lparr>ws_ops := ops\<rparr>) = view s" "view (s\<lparr>ws_wire := msgs\<rparr>) = view s"
      "view (s\<lparr>ws_send_queue := msgs\<rparr>) = view s" "view (s\<lparr>ws_sending := b\<rparr>) = view s"
      "view (s\<lparr>ws_builder := mb\<rparr>) = view s" "view (s\<lparr>ws_clock := c\<rparr>) = view s"
      "view (s\<lparr>ws_connected := b\<rparr>) = view s" "view (s\<lparr>ws_authenticated := b\<rparr>) = view s"
      "view (s\<lparr>ws_reconnect_attempts := i\<rparr>) = view s"
begin

lemma start_op_view [simp]: "view (start_op op s) = view s"
  by (simp add: start_op_def view_fields)

lemma do_send_view [simp]: "view (do_send s) = view s"
  by (simp add: do_send_def take_message_def async_write_def view_fields split: list.splits)

lemma async_send_view [simp]: "view (async_send m s) = view s"
  by (simp add: async_send_def enqueue_message_def acquire_sending_def view_fields Let_def)

lemma send_request_view [simp]: "view (snd (send_request J build s)) = view s"
  by (simp add: send_request_def view_fields case_prod_beta Let_def split: option.splits)

lemma if_authenticated_view: "view (snd (f s)) = view s \<Longrightarrow> view (snd (if_authenticated f s)) = view s"
  by (simp add: if_authenticated_def)

lemma requests_view [simp]:
  "view (snd (ws_cancel_order J hmac i oid cid s)) = view s" "view (snd (ws_cancel_all_orders J hmac i s)) = view s"
  "view (snd (subscribe_order_updates J hmac i s)) = view s" "view (snd (subscribe_trade_updates J hmac i s)) = view s"
  by (simp_all add: ws_cancel_order_def ws_cancel_all_orders_def subscribe_order_updates_def
      subscribe_trade_updates_def if_authenticated_view)

lemma and_then_view: "(\<And>s. view (snd (f s)) = view s) \<Longrightarrow> (\<And>s. view (snd (g s)) = view s) \<Longrightarrow>
    view (snd (and_then f g s)) = view s"
  by (auto simp: and_then_def split: prod.splits option.splits) (metis snd_conv)+

end

locale framed_callbacks = client_view view
  for view :: "'x ws_client_scheme \<Rightarrow> 'v" +
  fixes cb :: "('j, 'x ws_client_scheme) ws_callbacks"
  assumes message_view: "on_message cb = Some f \<Longrightarrow> view (snd (f msg s)) = view s"
    and error_view: "on_error cb = Some g \<Longrightarrow> view (g err s) = view s"
    and connected_view: "on_connected cb = Some h \<Longrightarrow> view (snd (h s)) = view s"
    and disconnected_view: "on_disconnected cb = Some k \<Longrightarrow> view (k s) = view s"
begin

lemma handle_error_view [simp]: "view (handle_error cb err s) = view s"
  by (simp add: handle_error_def error_view split: option.splits)

lemma send_order_view [simp]: "view (snd (send_order J hmac cb t s)) = view s"
  by (simp add: send_order_def)

lemma schedule_reconnect_view [simp]: "view (schedule_reconnect cb s) = view s"
  by (simp add: schedule_reconnect_def view_fields Let_def)

lemma connection_failed_view [simp]: "view (connection_failed cb err s) = view s"
  by (simp add: connection_failed_def)

lemma dispatch_message_view [simp]: "view (snd (dispatch_message J cb msg s)) = view s"
  by (simp add: dispatch_message_def on_heartbeat_def on_auth_answer_def view_fields message_view connected_view
      Let_def split: option.splits bool.splits)

lemma on_read_view [simp]: "view (on_read J what cb result s) = view s"
proof (cases result)
  case (Received m)
  obtain e s' where d: "dispatch_message J cb m s = (e, s')" by (rule prod.exhaust)
  then have "view s' = view s" using dispatch_message_view [of J m s] by simp
  then show ?thesis using Received d by (simp add: on_read_def do_read_def Let_def split: option.splits)
qed (simp_all add: on_read_def view_fields disconnected_view Let_def split: option.splits)

lemma handle_event_view: "view (snd (handle_event J hmac what cb ev s)) = view s"
  by (cases ev)
    (simp_all add: handle_event_def on_resolve_def on_connect_def on_ssl_handshake_def on_handshake_def on_write_def
      on_reconnect_timer_def do_connect_def do_read_def view_fields Let_def split: option.splits)

end

text \<open>The handlers of the connection never touch the order queue.\<close>

lemma on_response_queue [simp]: "ex_queue (on_response moved response s) = ex_queue s"
  by (simp add: on_response_def count_response_def measure_latency_def take_callback_def read_clock_def Let_def
      split: option.splits)

lemma handle_message_queue [simp]: "ex_queue (snd (handle_message J junk moved msg s)) = ex_queue s"
  by (simp add: handle_message_def split: option.splits bool.splits)

interpretation exq: client_view "ex_queue :: 'cb executor \<Rightarrow> _"
  by unfold_locales simp_all

interpretation exq: framed_callbacks "ex_queue :: 'cb executor \<Rightarrow> _" "executor_callbacks J hmac junk moved"
  for J hmac junk moved
proof
  fix f g h k and msg and err :: string and s :: "'cb executor"
  let ?cb = "executor_callbacks J hmac junk moved :: (_, 'cb executor) ws_callbacks"
  note defs = executor_callbacks_def set_callbacks_def no_callbacks_def
  show "ex_queue (snd (f msg s)) = ex_queue s" if "on_message ?cb = Some f" using that by (auto simp: defs)
  show "ex_queue (g err s) = ex_queue s" if "on_error ?cb = Some g" using that by (auto simp: defs)
  show "ex_queue (snd (h s)) = ex_queue s" if "on_connected ?cb = Some h"
    using that by (auto simp: defs executor_on_connected_def intro!: exq.and_then_view)
  show "ex_queue (k s) = ex_queue s" if "on_disconnected ?cb = Some k" using that by (auto simp: defs)
qed

section \<open>Wiring\<close>

lemma cancel_all_text:
  assumes J: "json_laws J" and "ascii instrument" and "instrument \<noteq> []"
  shows "fst (executor_cancel_all_orders J hmac instrument s) = None"
proof -
  let ?params = "j_object J [(''instrument_name'', j_string J instrument)]"
  have put: "j_put J (j_object J []) ''instrument_name'' (j_string J instrument) = ?params"
    using json_objects(4) [OF J, of "[]"] by simp
  have params: "simple_params J ?params" using J by (auto intro!: simple_params_object)
  have keys: "j_keys J ?params \<noteq> []"
    using json_objects(7) [OF J, of "''instrument_name''" ?params] json_objects(1) [OF J] by auto
  obtain str where str: "parameter_string J ?params = Some str" using simple_params_string [OF J params] by auto
  have "reparse J ?params \<noteq> None" using json_texts(7,9) [OF J] assms(2) by simp
  then have "reparse J (request_object J i m ?params (sign_string hmac auth m i str nonce) nonce) \<noteq> None"
    if "ascii m" for i m nonce auth
    unfolding request_object_def using json_texts(4,7,9) [OF J] that by simp
  moreover have "j_dump J v \<noteq> None" if "reparse J v \<noteq> None" for v
    using that by (cases "j_dump J v") (simp_all add: reparse_def)
  ultimately have dump: "j_dump J (request_object J i ''private/cancel-all-orders'' ?params
      (sign_string hmac auth ''private/cancel-all-orders'' i str nonce) nonce) \<noteq> None" for i nonce auth
    by simp
  show ?thesis
    using assms(3) dump [where i = "mb_request_id (ws_builder s)" and auth = "ws_auth s" and nonce = "of_int (ws_clock s 0)"]
    by (auto simp: executor_cancel_all_orders_def ws_cancel_all_orders_def if_authenticated_def send_request_def
        build_cancel_all_orders_def optional_instrument_request_def next_id_def current_timestamp_ms_def read_clock_def
        Let_def put keys str split: option.splits)
qed

type_synonym live_sink = "RiskCheckedExecutionSink \<times> LiveOrderExecutorSink \<times> (nat option, nat) live_callback executor"

type_synonym live_world = "(example, live_sink, JsonlAsyncStorage) world"

text \<open>
  The lambdas given to the live sink. Only \<open>on_stop\<close> of the market makers cancels, on an instrument with
  an ASCII name, for which building and writing the request does not throw (\<open>cancel_all_text\<close>).
\<close>

definition platform_cancel ::
  "'j json_lib \<Rightarrow> hmac_fn \<Rightarrow> string \<Rightarrow> u64 \<Rightarrow> u64 \<Rightarrow> 'cb executor \<Rightarrow> 'cb executor" where
  "platform_cancel J hmac instrument order_id client_oid ex =
     snd (executor_cancel_order J hmac instrument order_id client_oid ex)"

definition platform_cancel_all :: "'j json_lib \<Rightarrow> hmac_fn \<Rightarrow> string \<Rightarrow> 'cb executor \<Rightarrow> 'cb executor" where
  "platform_cancel_all J hmac instrument ex = snd (executor_cancel_all_orders J hmac instrument ex)"

text \<open>
  The sink of the strategies: the risk sink over the live sink over the executor. \<open>moved\<close> is what a
  moved-from function is, see \<open>live_submit_trade\<close>.
\<close>

definition live_ops ::
  "'j json_lib \<Rightarrow> hmac_fn \<Rightarrow> (nat option \<Rightarrow> nat option) \<Rightarrow> (live_sink, JsonlAsyncStorage) sink_ops" where
  "live_ops J hmac moved =
     \<lparr>so_submit = (\<lambda>trade c f ((rs, lv, ex), env).
        let (ok, (rs, ((lv, env), ex)), eff) =
              risk_submit_trade (live_submit_trade jsonl_append submit_trade moved) trade c f (rs, ((lv, env), ex))
        in (ok, ((rs, lv, ex), env), eff)),
      so_cancel = (\<lambda>instrument order_id client_oid ((rs, lv, ex), env).
        let ((rs, ex), eff) =
              risk_downstream (\<lambda>_ ex. (live_cancel_order (platform_cancel J hmac) instrument order_id client_oid ex, []))
                () (rs, ex)
        in (((rs, lv, ex), env), eff)),
      so_cancel_all = (\<lambda>instrument ((rs, lv, ex), env).
        let ((rs, ex), eff) =
              risk_downstream (\<lambda>_ ex. (live_cancel_all_orders (platform_cancel_all J hmac) instrument ex, [])) () (rs, ex)
        in (((rs, lv, ex), env), eff))\<rparr>"

text \<open>The callbacks of the market data client.\<close>

definition platform_on_quote ::
  "'j json_lib \<Rightarrow> hmac_fn \<Rightarrow> (nat option \<Rightarrow> nat option) \<Rightarrow> QuoteUpdate \<Rightarrow> live_world \<Rightarrow> live_world" where
  "platform_on_quote J hmac moved quote w =
     (let ((rs, lv, ex), env) = w_sink w
      in dispatch_quote jsonl_append example_class (live_ops J hmac moved) quote
           (w\<lparr>w_sink := ((risk_sink_update_quote quote rs, lv, ex), env)\<rparr>))"

definition platform_on_trade ::
  "'j json_lib \<Rightarrow> hmac_fn \<Rightarrow> (nat option \<Rightarrow> nat option) \<Rightarrow> TradeEvent \<Rightarrow> live_world \<Rightarrow> live_world" where
  "platform_on_trade J hmac moved = dispatch_trade jsonl_append example_class (live_ops J hmac moved)"

text \<open>The calls the executor makes, through the closures of the live sink and the risk sink.\<close>

definition run_executor_calls :: "live_world \<Rightarrow> live_world" where
  "run_executor_calls w =
     (let ((rs, lv, ex), env) = w_sink w;
          ((lv, env), eff) = live_deliver jsonl_append (ex_calls ex) (lv, env);
          (rs, eff) = risk_effects eff rs
      in w\<lparr>w_sink := ((rs, lv, ex\<lparr>ex_calls := []\<rparr>), env),
           w_strategies := run_callbacks example_class eff (w_strategies w)\<rparr>)"

definition on_executor ::
  "((nat option, nat) live_callback executor \<Rightarrow> (nat option, nat) live_callback executor) \<Rightarrow> live_world \<Rightarrow> live_world" where
  "on_executor f w =
     (let ((rs, lv, ex), env) = w_sink w in run_executor_calls (w\<lparr>w_sink := ((rs, lv, f ex), env)\<rparr>))"

definition live_executor :: "live_world \<Rightarrow> (nat option, nat) live_callback executor" where
  "live_executor w = snd (snd (fst (w_sink w)))"

text \<open>The strategies are stopped first, so that their cancels still go out.\<close>

definition platform_stop ::
  "'j json_lib \<Rightarrow> hmac_fn \<Rightarrow> (nat option \<Rightarrow> nat option) \<Rightarrow> live_world \<Rightarrow> live_world" where
  "platform_stop J hmac moved w =
     on_executor executor_stop (stop_all example_class (live_ops J hmac moved) w)"

record platform =
  pl_world :: live_world
  pl_flusher :: flusher_pc

inductive platform_step ::
  "'j json_lib \<Rightarrow> hmac_fn \<Rightarrow> (exn \<Rightarrow> string) \<Rightarrow> char \<times> char \<Rightarrow> (nat option \<Rightarrow> nat option)
     \<Rightarrow> ((nat option, nat) live_callback option \<Rightarrow> (nat option, nat) live_callback option)
     \<Rightarrow> platform \<Rightarrow> platform \<Rightarrow> bool"
  for J hmac what junk moved moved_cb where
  quote: "platform_step J hmac what junk moved moved_cb p (p\<lparr>pl_world := platform_on_quote J hmac moved q (pl_world p)\<rparr>)"
| trade: "platform_step J hmac what junk moved moved_cb p (p\<lparr>pl_world := platform_on_trade J hmac moved ev (pl_world p)\<rparr>)"
| io_event: "possible ev (live_executor (pl_world p)) \<Longrightarrow>
    platform_step J hmac what junk moved moved_cb p (p\<lparr>pl_world := on_executor
      (\<lambda>ex. snd (handle_event J hmac what (executor_callbacks J hmac junk moved_cb) ev ex)) (pl_world p)\<rparr>)"
| loop: "ex_running (live_executor (pl_world p)) \<Longrightarrow> \<not> ex_draining (live_executor (pl_world p)) \<Longrightarrow>
    platform_step J hmac what junk moved moved_cb p (p\<lparr>pl_world := on_executor loop_head (pl_world p)\<rparr>)"
| execute: "ex_draining (live_executor (pl_world p)) \<Longrightarrow>
    platform_step J hmac what junk moved moved_cb p (p\<lparr>pl_world := on_executor
      (\<lambda>ex. snd (snd (execute_one J hmac (executor_callbacks J hmac junk moved_cb) ex))) (pl_world p)\<rparr>)"
| flusher: "w_sink (pl_world p) = (sink, env) \<Longrightarrow> env_storage env = Some s \<Longrightarrow>
    flusher_step J \<lparr>sy_storage = s, sy_flusher = pl_flusher p, sy_rt = env_rt env, sy_log = []\<rparr> = Some sy \<Longrightarrow>
    platform_step J hmac what junk moved moved_cb p
      (p\<lparr>pl_world := (pl_world p)\<lparr>w_sink := (sink, env\<lparr>env_storage := Some (sy_storage sy)\<rparr>)\<rparr>, pl_flusher := sy_flusher sy\<rparr>)"
| stop: "platform_step J hmac what junk moved moved_cb p (p\<lparr>pl_world := platform_stop J hmac moved (pl_world p)\<rparr>)"

section \<open>Only orders within the limits reach the executor\<close>

text \<open>What the limits say of an order by itself; a market order has no price.\<close>

definition within_limits :: "RiskLimits \<Rightarrow> Trade \<Rightarrow> bool" where
  "within_limits limits t \<longleftrightarrow>
     \<not> t_quantity t \<le> 0 \<and> (rl_allow_market_orders limits \<or> t_type t \<noteq> MARKET) \<and>
     \<not> (0 < rl_max_order_quantity limits \<and> rl_max_order_quantity limits < t_quantity t) \<and>
     \<not> (0 < rl_max_order_notional limits \<and> 0 < t_price t
          \<and> rl_max_order_notional limits < t_price t * t_quantity t)"

lemma check_order_within: "rd_accepted (check_order t rm) \<Longrightarrow> within_limits (rk_limits rm) t"
  by (auto simp: check_order_def within_limits_def order_risk_price_def risk_reject_def Let_def split: if_splits)

definition queue_ok :: "profile \<Rightarrow> RiskLimits \<Rightarrow> Trade mpsc_queue \<Rightarrow> bool" where
  "queue_ok prof limits q \<longleftrightarrow> mpsc_inv QUEUE_CAPACITY q \<and>
     list_all (\<lambda>t. within_limits limits t \<and> traded prof (t_ticker t)) (mpsc_contents QUEUE_CAPACITY q)"

definition live_inv :: "profile \<Rightarrow> RiskLimits \<Rightarrow> live_world \<Rightarrow> bool" where
  "live_inv prof limits w \<longleftrightarrow>
     wf_profile prof \<and> profile_of (w_strategies w) = prof \<and>
     rk_limits (rs_risk_manager (fst (fst (w_sink w)))) = limits \<and> queue_ok prof limits (ex_queue (live_executor w))"

lemma queue_ok_push:
  assumes "queue_ok prof limits q" and "within_limits limits t" and "traded prof (t_ticker t)"
  shows "queue_ok prof limits (snd (mpsc_push_seq QUEUE_CAPACITY t q))"
proof -
  obtain ok q' where p: "mpsc_push_seq QUEUE_CAPACITY t q = (ok, q')" by (rule prod.exhaust)
  from mpsc.push_contents [OF _ p] assms p show ?thesis by (auto simp: queue_ok_def)
qed

lemma queue_ok_pop:
  assumes "queue_ok prof limits q" and "mpsc_try_pop QUEUE_CAPACITY q = (r, q')"
  shows "queue_ok prof limits q'" and "r = Some t \<Longrightarrow> within_limits limits t \<and> traded prof (t_ticker t)"
  using mpsc.pop_contents [OF _ assms(2)] assms(1) by (auto simp: queue_ok_def split: option.splits)

lemma risk_effects_limits [simp]:
  "rk_limits (rs_risk_manager (fst (risk_effects es rs))) = rk_limits (rs_risk_manager rs)"
proof (induction es arbitrary: rs)
  case (Cons e es)
  have "rk_limits (rs_risk_manager (fst (risk_on_response c r rs))) = rk_limits (rs_risk_manager rs)" for c r
    by (simp add: risk_on_response_def Let_def split: option.splits)
  then show ?case using Cons by (cases e) (simp_all add: case_prod_beta Let_def)
qed simp

lemma live_submit_queue:
  "ex_queue (snd (fst (snd (live_submit_trade ap submit_trade moved t c f (live, ex))))) =
     (if ex_running ex then snd (mpsc_push_seq QUEUE_CAPACITY t (ex_queue ex)) else ex_queue ex)"
  by (simp add: live_submit_trade_def submit_trade_def live_append_storage_event_def Let_def case_prod_beta
      split: option.splits)

lemma live_inv_submit:
  assumes "live_inv prof limits w" and "traded prof (t_ticker t)"
  shows "live_inv prof limits (snd (strat_submit_trade example_class (live_ops J hmac moved) i t w))"
proof -
  obtain rs lv ex env where sink: "w_sink w = ((rs, lv, ex), env)" by (metis prod_cases4 prod.collapse)
  let ?down = "live_submit_trade jsonl_append submit_trade moved"
  obtain ok rs' lv' env' ex' eff where sub:
    "risk_submit_trade ?down t (Some i) (Some i) (rs, ((lv, env), ex)) = (ok, (rs', ((lv', env'), ex')), eff)"
    by (metis prod.collapse)
  have lim: "rk_limits (rs_risk_manager rs) = limits" and q: "queue_ok prof limits (ex_queue ex)"
    using assms(1) sink by (simp_all add: live_inv_def live_executor_def)
  have facts: "rk_limits (rs_risk_manager rs') = limits \<and> queue_ok prof limits (ex_queue ex')"
  proof (cases "rd_accepted (check_order t (rs_risk_manager rs))")
    case True
    obtain ok1 d eff1 where d: "?down t (Some (Some i)) (Some i) ((lv, env), ex) = (ok1, d, eff1)" by (rule prod_cases3)
    have "within_limits limits t" using check_order_within [OF True] lim by simp
    then have "queue_ok prof limits (ex_queue (snd d))"
      using live_submit_queue [of jsonl_append moved t "Some (Some i)" "Some i" "(lv, env)" ex] d q
        queue_ok_push [OF q _ assms(2)] by (simp split: if_splits)
    then show ?thesis
      using sub True d lim by (auto simp: risk_submit_trade_def Let_def case_prod_beta)
  qed (use sub lim q in \<open>auto simp: risk_submit_trade_def Let_def\<close>)
  have "profile_of (w_strategies (snd (strat_submit_trade example_class (live_ops J hmac moved) i t w)))
      = profile_of (w_strategies w)"
    by (simp add: strat_submit_trade_def run_callbacks_facts(1) profile_update case_prod_beta Let_def)
  moreover have "w_sink (snd (strat_submit_trade example_class (live_ops J hmac moved) i t w)) = ((rs', lv', ex'), env')"
    by (simp add: strat_submit_trade_def live_ops_def sink sub Let_def)
  ultimately show ?thesis using assms(1) facts by (simp add: live_inv_def live_executor_def)
qed

lemma live_inv_strategies:
  "live_inv prof limits w \<Longrightarrow> profile_of ss = profile_of (w_strategies w) \<Longrightarrow> live_inv prof limits (w\<lparr>w_strategies := ss\<rparr>)"
  by (simp add: live_inv_def live_executor_def)

lemma live_inv_env: "live_inv prof limits w \<Longrightarrow> live_inv prof limits (w\<lparr>w_sink := (fst (w_sink w), env)\<rparr>)"
  by (simp add: live_inv_def live_executor_def)

lemma cancel_queue [simp]:
  "ex_queue (platform_cancel J hmac i oid cid ex) = ex_queue ex" "ex_queue (platform_cancel_all J hmac i ex) = ex_queue ex"
  by (simp_all add: platform_cancel_def platform_cancel_all_def executor_cancel_order_def executor_cancel_all_orders_def)

lemma live_inv_cancel:
  assumes "live_inv prof limits w"
  shows "live_inv prof limits (strat_cancel_order example_class (live_ops J hmac moved) i tk oid cid w)"
    and "live_inv prof limits (strat_cancel_all_orders example_class (live_ops J hmac moved) i tk w)"
  using assms
  by (simp_all add: live_inv_def live_executor_def strat_cancel_order_def strat_cancel_all_orders_def live_ops_def
      risk_downstream_def live_cancel_order_def live_cancel_all_orders_def run_callbacks_facts(1) case_prod_beta Let_def)

interpretation live: recorded_world_invariant example_class "live_ops J hmac moved" maker "traded prof" "length prof"
  "live_inv prof limits" jsonl_append
  for J hmac moved prof limits
proof
  fix w :: live_world and i
  assume inv: "live_inv prof limits w"
  show "length (w_strategies w) = length prof" using inv by (auto simp: live_inv_def profile_of_def)
  show "live_inv prof limits (w\<lparr>w_strategies := update_strategy i (\<lambda>(b, _). (b, u)) (w_strategies w)\<rparr>)"
    if "maker u = maker (snd (w_strategies w ! i))" for u
    by (rule live_inv_strategies [OF inv], rule profile_update) (use that in \<open>auto simp: case_prod_beta\<close>)
  show "live_inv prof limits (update_base i f w)" if "\<And>b. ledger_fields (f b) = ledger_fields b" for f
    unfolding update_base_def
    by (rule live_inv_strategies [OF inv], rule profile_update) (use that in \<open>auto simp: ledger_fields_def\<close>)
  show "traded prof tk" if "i < length prof" "tracks_ticker tk (fst (w_strategies w ! i))" for tk
    using profile_tracked [of "w_strategies w" i tk] inv that by (auto simp: live_inv_def profile_of_def)
qed (auto simp: live_inv_submit live_inv_cancel live_inv_env set_rt_def example_class_facts
    traded_wf dest: example_class_facts(3,5,7))

lemma live_inv_executor:
  assumes "live_inv prof limits w" and "\<And>ex. queue_ok prof limits (ex_queue ex) \<Longrightarrow> queue_ok prof limits (ex_queue (f ex))"
  shows "live_inv prof limits (on_executor f w)"
  using assms
  by (auto simp: live_inv_def live_executor_def on_executor_def run_executor_calls_def run_callbacks_facts(1)
      case_prod_beta Let_def)

lemma queue_ok_execute_one:
  fixes s :: "'cb executor"
  assumes "queue_ok prof limits (ex_queue s)"
  shows "queue_ok prof limits (ex_queue (snd (snd (execute_one J hmac (executor_callbacks J hmac junk moved) s))))"
proof -
  let ?cb = "executor_callbacks J hmac junk moved :: (_, 'cb executor) ws_callbacks"
  obtain r q where pop: "mpsc_try_pop QUEUE_CAPACITY (ex_queue s) = (r, q)" by fastforce
  obtain ok rl where acq: "try_acquire (ex_steady s 0) (ex_limiter s) = (ok, rl)" by fastforce
  define t where t: "t = s\<lparr>ex_queue := q, ex_steady := (\<lambda>n. ex_steady s (Suc n)), ex_limiter := rl\<rparr>"
  note step = execute_one_cases [OF pop acq t, where J = J and hmac = hmac and cb = ?cb]
  note q = queue_ok_pop [OF assms pop]
  show ?thesis
  proof (cases r)
    case (Some trade)
    obtain e u where send: "send_order J hmac ?cb trade t = (e, u)" by fastforce
    have "ex_queue (snd (send_order J hmac ?cb trade t)) = ex_queue t" by (rule exq.send_order_view)
    then have "ex_queue u = q" unfolding send by (simp add: t)
    show ?thesis
    proof (cases ok)
      case True
      then show ?thesis using step(3,4) [OF Some True] send q(1) \<open>ex_queue u = q\<close> by (cases e) simp_all
    next
      case False
      from step(2) [OF Some False] show ?thesis using queue_ok_push [OF q(1)] q(2) [OF Some] by simp
    qed
  qed (simp add: step(1) q(1))
qed

lemma live_inv_step:
  assumes "platform_step J hmac what junk moved moved_cb p p'" and inv: "live_inv prof limits (pl_world p)"
  shows "live_inv prof limits (pl_world p')"
  using assms(1)
proof cases
  case (quote q)
  have "live_inv prof limits (let ((rs, lv, ex), env) = w_sink (pl_world p)
      in (pl_world p)\<lparr>w_sink := ((risk_sink_update_quote q rs, lv, ex), env)\<rparr>)"
    using inv by (simp add: live_inv_def live_executor_def risk_sink_update_quote_def risk_update_quote_def
        case_prod_beta Let_def)
  from live.market_keeps(1) [OF this] show ?thesis using quote by (simp add: platform_on_quote_def case_prod_beta Let_def)
next
  case (trade ev)
  then show ?thesis using live.market_keeps(2) [OF inv] by (simp add: platform_on_trade_def)
next
  case (io_event ev)
  then show ?thesis by (simp add: live_inv_executor [OF inv] exq.handle_event_view)
next
  case loop
  then show ?thesis by (simp add: live_inv_executor [OF inv] loop_head_def)
next
  case execute
  then show ?thesis by (simp add: live_inv_executor [OF inv] queue_ok_execute_one)
next
  case (flusher sink env s sy)
  then show ?thesis using live_inv_env [OF inv, of "env\<lparr>env_storage := Some (sy_storage sy)\<rparr>"] by simp
next
  case stop
  then show ?thesis
    by (simp add: platform_stop_def live_inv_executor [OF live.stop_all_keeps [OF inv]] executor_stop_def ws_close_def Let_def)
qed

lemma live_inv_steps:
  "(platform_step J hmac what junk moved moved_cb)\<^sup>*\<^sup>* p p' \<Longrightarrow> live_inv prof limits (pl_world p) \<Longrightarrow>
   live_inv prof limits (pl_world p')"
  by (induction rule: rtranclp_induct) (auto intro: live_inv_step)

lemma start_all_live:
  assumes "live_inv prof limits w" and "list_all (\<lambda>(_, sink, _). sink) prof"
  obtains w' where "start_all example_class (live_ops J hmac moved) w = (None, w')" "live_inv prof limits w'"
proof (rule live.start_all_keeps [OF assms(1), of J hmac moved])
  show "sb_execution_sink (fst (w_strategies w ! i))" if "live_inv prof limits w" "i < length prof" for w :: live_world and i
    using profile_attached [of "w_strategies w" i] live.strategies [OF that(1)] that assms(2) by (simp add: live_inv_def)
qed (rule that)

end
