(* ===== verification/Market_Data.thy ===== *)
theory Market_Data
  imports Websocket_Client
begin

text \<open>
  \<open>src/exchange/market_data_client.cpp\<close>: the client of the exchange's market channel, which turns
  messages into trades and quotes for its callbacks. It reads and writes synchronously on a thread
  of its own; the results of connecting, reading and writing are arguments. A callback is a value
  that names it, and the calls are recorded in \<open>md_calls\<close>, what is written in \<open>md_wire\<close>.
\<close>

section \<open>Values\<close>

definition as_u64 :: "'j json_lib \<Rightarrow> 'j \<Rightarrow> u64 option" where
  "as_u64 J v =
     (if is_unsigned J v then j_get_u64 J v
      else if is_integer J v
      then map_option (\<lambda>parsed. if 0 < parsed then of_int parsed else 0) (j_get_i64 J v)
      else if j_type J v = VString
      then map_option (\<lambda>s. case stoull s of None \<Rightarrow> 0 | Some n \<Rightarrow> n) (j_get_string J v)
      else Some 0)"

definition as_double :: "'j json_lib \<Rightarrow> 'j \<Rightarrow> double option" where
  "as_double J v =
     (if is_number J v then j_get_double J v
      else if j_type J v = VString
      then map_option (\<lambda>s. case stod s of None \<Rightarrow> 0 | Some x \<Rightarrow> x) (j_get_string J v)
      else Some 0)"

text \<open>The file has its own copy of the conversion of exchange times.\<close>

definition md_exchange_time_to_ns :: "u64 \<Rightarrow> i64" where
  "md_exchange_time_to_ns raw_time =
     (if raw_time = 0 then 0
      else if 10000000000000000 < raw_time then sint raw_time
      else if 10000000000000 < raw_time then sint (raw_time * 1000)
      else sint (raw_time * 1000000))"

lemma same_conversions:
  "as_u64 J v = json_to_u64 J v" "as_double J v = json_to_double J v" "md_exchange_time_to_ns t = exchange_time_to_ns t"
  by (simp_all add: as_u64_def json_to_u64_def as_double_def json_to_double_def md_exchange_time_to_ns_def
      exchange_time_to_ns_def)

text \<open>\<open>std::to_string(int)\<close>.\<close>

definition int_to_string :: "i32 \<Rightarrow> string" where
  "int_to_string n = (if n < 0 then CHR ''-'' # decimal (nat (- n)) else decimal (nat n))"

definition build_subscribe_message :: "'j json_lib \<Rightarrow> string list \<Rightarrow> i32 \<Rightarrow> 'j" where
  "build_subscribe_message J instruments book_depth =
     (let channels = concat (map (\<lambda>instrument.
            [j_string J (''trade.'' @ instrument),
             j_string J (''book.'' @ instrument @ ''.'' @ int_to_string book_depth)]) instruments)
      in j_object J
           [(''id'', j_integer J 1), (''method'', j_string J ''subscribe''),
            (''params'', j_object J
               [(''channels'', j_array J channels), (''book_subscription_type'', j_string J ''SNAPSHOT'')])])"

text \<open>\<open>std::getline(stream, value, ',')\<close> until the stream is empty.\<close>

function split_comma :: "string \<Rightarrow> string list" where
  "split_comma s =
     (if s = [] then []
      else takeWhile (\<lambda>c. c \<noteq> CHR '','') s # split_comma (drop 1 (dropWhile (\<lambda>c. c \<noteq> CHR '','') s)))"
  by auto
termination
proof (relation "measure length", simp)
  fix s :: string
  assume "s \<noteq> []"
  then have "length (drop 1 (dropWhile (\<lambda>c. c \<noteq> CHR '','') s)) < length s"
    using length_dropWhile_le [of "\<lambda>c. c \<noteq> CHR '',''" s] by (cases s) (auto simp: less_Suc_eq_le)
  then show "(drop 1 (dropWhile (\<lambda>c. c \<noteq> CHR '','') s), s) \<in> measure length" by simp
qed

declare split_comma.simps [simp del]

definition split_csv :: "string \<Rightarrow> string list" where
  "split_csv csv = filter (\<lambda>v. v \<noteq> []) (split_comma csv)"

section \<open>State\<close>

record MarketDataClientConfig =
  mc_host :: string
  mc_port :: string
  mc_target :: string
  mc_book_depth :: i32

definition default_MarketDataClientConfig :: MarketDataClientConfig where
  "default_MarketDataClientConfig =
     \<lparr>mc_host = ''stream.crypto.com'', mc_port = ''443'', mc_target = ''/exchange/v1/market'', mc_book_depth = 10\<rparr>"

datatype 'cb md_call = CallQuote 'cb QuoteUpdate | CallTrade 'cb TradeEvent | CallError 'cb string

record 'cb CryptoComMarketDataClient =
  md_instruments :: "string list"
  md_on_quote :: "'cb option"
  md_on_trade :: "'cb option"
  md_on_error :: "'cb option"
  md_config :: MarketDataClientConfig
  md_running :: bool
  md_thread :: bool
  md_calls :: "'cb md_call list"
  md_wire :: "string list"

text \<open>The constructor throws \<open>std::invalid_argument\<close> (\<open>None\<close>) without instruments.\<close>

definition new_CryptoComMarketDataClient ::
  "string list \<Rightarrow> 'cb option \<Rightarrow> 'cb option \<Rightarrow> 'cb option \<Rightarrow> MarketDataClientConfig
     \<Rightarrow> 'cb CryptoComMarketDataClient option" where
  "new_CryptoComMarketDataClient instruments on_quote on_trade on_err config =
     (if instruments = [] then None
      else Some \<lparr>md_instruments = instruments, md_on_quote = on_quote, md_on_trade = on_trade, md_on_error = on_err,
                 md_config = config, md_running = False, md_thread = False, md_calls = [], md_wire = []\<rparr>)"

definition md_start :: "'cb CryptoComMarketDataClient \<Rightarrow> 'cb CryptoComMarketDataClient" where
  "md_start md = (if md_running md then md else md\<lparr>md_running := True, md_thread := True\<rparr>)"

definition md_stop :: "'cb CryptoComMarketDataClient \<Rightarrow> 'cb CryptoComMarketDataClient" where
  "md_stop md = md\<lparr>md_running := False, md_thread := False\<rparr>"

definition report_error :: "string \<Rightarrow> 'cb CryptoComMarketDataClient \<Rightarrow> 'cb CryptoComMarketDataClient" where
  "report_error error md =
     (case md_on_error md of None \<Rightarrow> md | Some cb \<Rightarrow> md\<lparr>md_calls := md_calls md @ [CallError cb error]\<rparr>)"

definition md_write :: "string \<Rightarrow> 'cb CryptoComMarketDataClient \<Rightarrow> 'cb CryptoComMarketDataClient" where
  "md_write msg md = md\<lparr>md_wire := md_wire md @ [msg]\<rparr>"

section \<open>Messages\<close>

text \<open>\<open>item.contains(key) ? convert(item[key]) : fallback\<close>.\<close>

definition read_or :: "'j json_lib \<Rightarrow> 'j \<Rightarrow> string \<Rightarrow> ('j \<Rightarrow> 'v option) \<Rightarrow> 'v option \<Rightarrow> 'v option" where
  "read_or J item key convert fallback = (case j_at J item key of None \<Rightarrow> fallback | Some v \<Rightarrow> convert v)"

text \<open>The body of the loop over the trades: \<open>None\<close> is an exception, \<open>Some None\<close> skips the item.\<close>

definition decode_trade :: "'j json_lib \<Rightarrow> string \<Rightarrow> 'j \<Rightarrow> TradeEvent option option" where
  "decode_trade J fallback_ticker item = do {
     ticker \<leftarrow> value_string J item ''i'' fallback_ticker;
     price \<leftarrow> read_or J item ''p'' (as_double J) (Some 0);
     quantity \<leftarrow> read_or J item ''q'' (as_double J) (Some 0);
     if ticker = [] \<or> price \<le> 0 \<or> quantity \<le> 0 then Some None
     else do {
       side \<leftarrow> value_string J item ''s'' [];
       raw_time \<leftarrow> read_or J item ''tn'' (as_u64 J) (read_or J item ''t'' (as_u64 J) (Some 0));
       trade_id \<leftarrow> read_or J item ''d'' (as_u64 J) (Some 0);
       Some (Some \<lparr>e_ticker = copy_string 16 ticker, e_price = price, e_quantity = quantity,
         e_is_buyer_maker = (side = ''SELL''), e_timestamp_ns = md_exchange_time_to_ns raw_time, e_trade_id = trade_id\<rparr>)
     }
   }"

definition deliver_trade :: "TradeEvent \<Rightarrow> 'cb CryptoComMarketDataClient \<Rightarrow> 'cb CryptoComMarketDataClient" where
  "deliver_trade trade md =
     (case md_on_trade md of None \<Rightarrow> md | Some cb \<Rightarrow> md\<lparr>md_calls := md_calls md @ [CallTrade cb trade]\<rparr>)"

text \<open>An exception ends the loop; the trades before it were delivered.\<close>

fun handle_trades :: "'j json_lib \<Rightarrow> string \<Rightarrow> 'j list \<Rightarrow> 'cb CryptoComMarketDataClient act" where
  "handle_trades J fallback_ticker [] md = (None, md)"
| "handle_trades J fallback_ticker (item # items) md =
     (case decode_trade J fallback_ticker item of
        None \<Rightarrow> (Some TypeError, md)
      | Some None \<Rightarrow> handle_trades J fallback_ticker items md
      | Some (Some trade) \<Rightarrow> handle_trades J fallback_ticker items (deliver_trade trade md))"

text \<open>\<open>result.value("data", json::array())\<close> of an object.\<close>

definition result_data :: "'j json_lib \<Rightarrow> 'j \<Rightarrow> 'j" where
  "result_data J result = (case j_at J result ''data'' of None \<Rightarrow> j_array J [] | Some v \<Rightarrow> v)"

definition handle_trade_result :: "'j json_lib \<Rightarrow> 'j \<Rightarrow> 'cb CryptoComMarketDataClient act" where
  "handle_trade_result J result md =
     (case value_string J result ''instrument_name'' [] of
        None \<Rightarrow> (Some TypeError, md)
      | Some fallback_ticker \<Rightarrow>
          let data = result_data J result
          in if j_type J data \<noteq> VArray then (None, md) else handle_trades J fallback_ticker (j_elements J data) md)"

text \<open>The front of a member that is a non-empty array.\<close>

definition front_of :: "'j json_lib \<Rightarrow> 'j \<Rightarrow> string \<Rightarrow> 'j option" where
  "front_of J book key =
     (case j_at J book key of
        None \<Rightarrow> None
      | Some v \<Rightarrow> if j_type J v = VArray \<and> j_elements J v \<noteq> [] then Some (hd (j_elements J v)) else None)"

definition is_level :: "'j json_lib \<Rightarrow> 'j \<Rightarrow> bool" where
  "is_level J v \<longleftrightarrow> j_type J v = VArray \<and> 2 \<le> length (j_elements J v)"

definition decode_book :: "'j json_lib \<Rightarrow> string \<Rightarrow> 'j \<Rightarrow> QuoteUpdate option option" where
  "decode_book J ticker book =
     (case (front_of J book ''bids'', front_of J book ''asks'') of
        (Some best_bid, Some best_ask) \<Rightarrow>
          if \<not> is_level J best_bid \<or> \<not> is_level J best_ask then Some None
          else do {
            timestamp \<leftarrow> read_or J book ''t'' (as_u64 J) (read_or J book ''tt'' (as_u64 J) (Some 0));
            bid_price \<leftarrow> as_double J (j_elements J best_bid ! 0);
            bid_size \<leftarrow> as_double J (j_elements J best_bid ! 1);
            ask_price \<leftarrow> as_double J (j_elements J best_ask ! 0);
            ask_size \<leftarrow> as_double J (j_elements J best_ask ! 1);
            Some (Some \<lparr>q_ticker = copy_string 16 ticker, q_bid_price = bid_price, q_bid_size = bid_size,
              q_ask_price = ask_price, q_ask_size = ask_size, q_timestamp_ns = md_exchange_time_to_ns timestamp\<rparr>)
          }
      | _ \<Rightarrow> Some None)"

definition deliver_quote :: "QuoteUpdate \<Rightarrow> 'cb CryptoComMarketDataClient \<Rightarrow> 'cb CryptoComMarketDataClient" where
  "deliver_quote quote md =
     (case md_on_quote md of None \<Rightarrow> md | Some cb \<Rightarrow> md\<lparr>md_calls := md_calls md @ [CallQuote cb quote]\<rparr>)"

definition handle_book_result :: "'j json_lib \<Rightarrow> 'j \<Rightarrow> 'cb CryptoComMarketDataClient act" where
  "handle_book_result J result md =
     (case value_string J result ''instrument_name'' [] of
        None \<Rightarrow> (Some TypeError, md)
      | Some ticker \<Rightarrow>
          let data = result_data J result
          in if ticker = [] \<or> j_type J data \<noteq> VArray \<or> j_elements J data = [] \<or>
                j_type J (hd (j_elements J data)) \<noteq> VObject
             then (None, md)
             else case decode_book J ticker (hd (j_elements J data)) of
                    None \<Rightarrow> (Some TypeError, md)
                  | Some None \<Rightarrow> (None, md)
                  | Some (Some quote) \<Rightarrow> (None, deliver_quote quote md))"

definition process_text_message :: "'j json_lib \<Rightarrow> string \<Rightarrow> 'cb CryptoComMarketDataClient act" where
  "process_text_message J message md =
     (case j_parse J message of
        None \<Rightarrow> (None, md)
      | Some decoded \<Rightarrow>
          (case j_at J decoded ''result'' of
             None \<Rightarrow> (None, md)
           | Some result \<Rightarrow>
               if j_type J result \<noteq> VObject then (None, md)
               else case value_string J result ''channel'' [] of
                      None \<Rightarrow> (Some TypeError, md)
                    | Some channel \<Rightarrow>
                        if channel = ''trade'' then handle_trade_result J result md
                        else if channel = ''book'' then handle_book_result J result md
                        else (None, md)))"

section \<open>The thread\<close>

text \<open>\<open>decoded.value("id", 0)\<close>: the default is an \<open>int\<close>, so the id is converted to one.\<close>

definition heartbeat_id :: "'j json_lib \<Rightarrow> 'j \<Rightarrow> i32 option" where
  "heartbeat_id J decoded = (case j_at J decoded ''id'' of None \<Rightarrow> Some 0 | Some v \<Rightarrow> j_get_i32 J v)"

definition md_heartbeat_response :: "'j json_lib \<Rightarrow> 'j \<Rightarrow> string option" where
  "md_heartbeat_response J decoded =
     Option.bind (heartbeat_id J decoded) (\<lambda>i. j_dump J (j_object J
       [(''id'', j_integer J i), (''method'', j_string J ''public/respond-heartbeat'')]))"

text \<open>
  One iteration of the loop in \<open>run\<close>: what \<open>ws.read\<close> reports, and the error of \<open>ws.write\<close>, if any.
  The loop goes on, is left, or an exception leaves it.
\<close>

datatype loop_result = Continue | Break | Throw exn

definition md_iteration ::
  "'j json_lib \<Rightarrow> read_result \<Rightarrow> string option \<Rightarrow> 'cb CryptoComMarketDataClient
     \<Rightarrow> loop_result \<times> 'cb CryptoComMarketDataClient" where
  "md_iteration J result write_ec md =
     (case result of
        Closed \<Rightarrow> (Break, md)
      | ReadError m \<Rightarrow> (Break, report_error (''market data read failed: '' @ m) md)
      | Received message \<Rightarrow>
          (case j_parse J message of
             None \<Rightarrow> (Continue, report_error ''market data JSON parse failed'' md)
           | Some decoded \<Rightarrow>
               (case value_string J decoded ''method'' [] of
                  None \<Rightarrow> (Throw TypeError, md)
                | Some method_name \<Rightarrow>
                    if method_name = ''public/heartbeat''
                    then (case md_heartbeat_response J decoded of
                            None \<Rightarrow> (Throw TypeError, md)
                          | Some response \<Rightarrow>
                              (case write_ec of
                                 None \<Rightarrow> (Continue, md_write response md)
                               | Some m \<Rightarrow> (Break, report_error (''market data heartbeat response failed: '' @ m) md)))
                    else (case process_text_message J message md of
                            (None, md) \<Rightarrow> (Continue, md)
                          | (Some e, md) \<Rightarrow> (Throw e, md)))))"

text \<open>
  The loop over the reads; \<open>Continue\<close> when it waits for the next one. The thread sees \<open>running_\<close> before
  each read.
\<close>

fun md_loop ::
  "'j json_lib \<Rightarrow> (read_result \<times> string option) list \<Rightarrow> 'cb CryptoComMarketDataClient
     \<Rightarrow> loop_result \<times> 'cb CryptoComMarketDataClient" where
  "md_loop J [] md = (if md_running md then Continue else Break, md)"
| "md_loop J ((result, write_ec) # reads) md =
     (if \<not> md_running md then (Break, md)
      else case md_iteration J result write_ec md of
             (Continue, md) \<Rightarrow> md_loop J reads md
           | (r, md) \<Rightarrow> (r, md))"

text \<open>
  \<open>run\<close>: connecting fails with the text of an exception, or the client subscribes and loops. While
  the loop waits for a message the thread is still in it.
\<close>

definition md_failed :: "string \<Rightarrow> 'cb CryptoComMarketDataClient \<Rightarrow> 'cb CryptoComMarketDataClient" where
  "md_failed e md =
     (if md_running md then report_error (''market data connection failed: '' @ e) md else md)\<lparr>md_running := False\<rparr>"

definition md_run ::
  "'j json_lib \<Rightarrow> (exn \<Rightarrow> string) \<Rightarrow> string option \<Rightarrow> (read_result \<times> string option) list
     \<Rightarrow> 'cb CryptoComMarketDataClient \<Rightarrow> 'cb CryptoComMarketDataClient" where
  "md_run J what connect_error reads md =
     (case connect_error of
        Some e \<Rightarrow> md_failed e md
      | None \<Rightarrow>
          (case j_dump J (build_subscribe_message J (md_instruments md) (mc_book_depth (md_config md))) of
             None \<Rightarrow> md_failed (what TypeError) md
           | Some subscription \<Rightarrow>
               (case md_loop J reads (md_write subscription md) of
                  (Continue, md) \<Rightarrow> md
                | (Break, md) \<Rightarrow> md\<lparr>md_running := False\<rparr>
                | (Throw e, md) \<Rightarrow> md_failed (what e) md)))"

definition parse_market_instruments_env :: "string option \<Rightarrow> string list \<Rightarrow> string list" where
  "parse_market_instruments_env configured defaults =
     (case configured of
        None \<Rightarrow> defaults
      | Some s \<Rightarrow>
          if s = [] then defaults
          else let parsed = split_csv s in if parsed = [] then defaults else parsed)"

definition make_crypto_com_market_config :: "bool \<Rightarrow> i32 \<Rightarrow> MarketDataClientConfig" where
  "make_crypto_com_market_config use_sandbox book_depth =
     default_MarketDataClientConfig\<lparr>mc_host := (if use_sandbox then HOST_SANDBOX else HOST_PROD), mc_port := PORT,
       mc_target := PATH_MARKET, mc_book_depth := book_depth\<rparr>"

section \<open>What the callbacks see\<close>

text \<open>
  The structures fit their arrays, and a trade has a price and a quantity that are not zero or
  less (so they are positive, or NaN, which the comparison lets pass).
\<close>

fun wf_call :: "'cb md_call \<Rightarrow> bool" where
  "wf_call (CallQuote cb q) = wf_quote q"
| "wf_call (CallTrade cb e) = (wf_event e \<and> \<not> e_price e \<le> 0 \<and> \<not> e_quantity e \<le> 0)"
| "wf_call (CallError cb m) = True"

definition md_ok :: "'cb CryptoComMarketDataClient \<Rightarrow> bool" where
  "md_ok md \<longleftrightarrow> list_all wf_call (md_calls md)"

lemma md_ok_simps [simp]:
  "md_ok (md\<lparr>md_running := b\<rparr>) = md_ok md" "md_ok (md_write m md) = md_ok md" "md_ok (report_error e md) = md_ok md"
  by (simp_all add: md_ok_def md_write_def report_error_def split: option.splits)

lemma decode_trade_ok:
  "decode_trade J ticker item = Some (Some e) \<Longrightarrow> wf_event e \<and> \<not> e_price e \<le> 0 \<and> \<not> e_quantity e \<le> 0"
  by (auto simp: decode_trade_def bind_eq_Some_conv wf_event_def split: if_splits)

lemma decode_book_ok: "decode_book J ticker book = Some (Some q) \<Longrightarrow> wf_quote q"
  by (auto simp: decode_book_def bind_eq_Some_conv wf_quote_def split: if_splits option.splits)

lemma handle_trades_ok [inv_intros]: "md_ok md \<Longrightarrow> md_ok (snd (handle_trades J ticker items md))"
proof (induction items arbitrary: md)
  case (Cons item items)
  have "md_ok (deliver_trade e md)" if "decode_trade J ticker item = Some (Some e)" for e
    using decode_trade_ok [OF that] Cons.prems by (simp add: md_ok_def deliver_trade_def split: option.splits)
  then show ?case using Cons by (auto split: option.splits)
qed simp

lemma handle_book_result_ok [inv_intros]: "md_ok md \<Longrightarrow> md_ok (snd (handle_book_result J result md))"
  using decode_book_ok
  by (auto simp: handle_book_result_def md_ok_def deliver_quote_def Let_def split: option.splits)

lemma process_text_message_ok [inv_intros]: "md_ok md \<Longrightarrow> md_ok (snd (process_text_message J message md))"
  by (auto simp: process_text_message_def handle_trade_result_def Let_def handle_trades_ok handle_book_result_ok
      split: option.splits)

lemma md_iteration_ok [inv_intros]: "md_ok md \<Longrightarrow> md_ok (snd (md_iteration J result ec md))"
  using process_text_message_ok [of md J]
  by (auto simp: md_iteration_def split: read_result.splits option.splits prod.splits) (metis snd_conv)+

lemma md_loop_ok [inv_intros]: "md_ok md \<Longrightarrow> md_ok (snd (md_loop J reads md))"
proof (induction reads arbitrary: md)
  case (Cons read reads)
  obtain result ec where r: "read = (result, ec)" by fastforce
  obtain k md' where i: "md_iteration J result ec md = (k, md')" by fastforce
  then have "md_ok md'" using md_iteration_ok [OF Cons.prems, of J result ec] by simp
  then show ?case using Cons r i by (cases k) auto
qed simp

lemma md_run_ok: "md_ok md \<Longrightarrow> md_ok (md_run J what err reads md)"
  using md_loop_ok [of "md_write m md" J reads for m]
  by (auto simp: md_run_def md_failed_def split: option.splits prod.splits loop_result.splits) (metis snd_conv md_ok_simps(2))+

text \<open>
  (C39) Whatever the exchange sends, and however connecting, reading and writing end, each structure
  the market data client hands to its callbacks is well formed: tickers fit their arrays, and no
  trade has a price or a quantity of zero or less.
\<close>

theorem market_data_well_formed:
  assumes "new_CryptoComMarketDataClient instruments on_quote on_trade on_err config = Some md"
  shows "list_all wf_call (md_calls (md_run J what err reads (md_start md)))"
proof -
  have "md_ok (md_start md)"
    using assms by (auto simp: new_CryptoComMarketDataClient_def md_start_def md_ok_def split: if_splits)
  then show ?thesis using md_run_ok by (simp add: md_ok_def [symmetric])
qed

theorem market_data_well_formed_witness:
  "list_all wf_call (md_calls (md_run reference_json (\<lambda>e. ''?'') None [(Received ''['', None), (ReadError ''reset'', None)]
     (md_start (the (new_CryptoComMarketDataClient [''BTC_USDT''] (Some 1) (Some 2) (Some 3) default_MarketDataClientConfig)))))"
  by (rule market_data_well_formed [of "[''BTC_USDT'']" "Some 1" "Some 2" "Some 3" default_MarketDataClientConfig])
    (simp add: new_CryptoComMarketDataClient_def)

section \<open>A book message\<close>

definition book_message :: "'j json_lib \<Rightarrow> string \<Rightarrow> string \<times> string \<Rightarrow> string \<times> string \<Rightarrow> u64 \<Rightarrow> 'j" where
  "book_message J ticker bid ask ms = j_object J
     [(''id'', j_unsigned J 1), (''method'', j_string J ''subscribe''),
      (''result'', j_object J
         [(''channel'', j_string J ''book''), (''instrument_name'', j_string J ticker),
          (''data'', j_array J [j_object J
             [(''bids'', j_array J [j_array J [j_string J (fst bid), j_string J (snd bid)]]),
              (''asks'', j_array J [j_array J [j_string J (fst ask), j_string J (snd ask)]]),
              (''t'', j_unsigned J ms)]])])]"

lemma book_message_stable:
  assumes J: "json_laws J" and "ascii ticker" "ascii (fst bid)" "ascii (snd bid)" "ascii (fst ask)" "ascii (snd ask)"
  shows "reparse J (book_message J ticker bid ask ms) = Some (book_message J ticker bid ask ms)"
  unfolding book_message_def
  by (intro reparse_object_stable [OF J])
    (simp_all add: reparse_object_stable [OF J] reparse_array_stable [OF J] json_texts [OF J] assms)


definition example_quote :: QuoteUpdate where
  "example_quote = \<lparr>q_ticker = ''BTC_USDT'', q_bid_price = Fin 100, q_bid_size = Fin 2, q_ask_price = Fin 101,
     q_ask_size = Fin 3, q_timestamp_ns = 1700000000123000000\<rparr>"

definition example_market_client :: "nat CryptoComMarketDataClient" where
  "example_market_client =
     the (new_CryptoComMarketDataClient [''BTC_USDT''] (Some 1) (Some 2) (Some 3) default_MarketDataClientConfig)"


text \<open>
  An id of a heartbeat that does not fit 32 bits is answered with another id. The client of the user
  channel reads it as 64 bits.
\<close>

lemma heartbeat_id_truncated:
  assumes "json_laws J" and "j_at J decoded ''id'' = Some (j_unsigned J 1587523073344)"
  shows "heartbeat_id J decoded = Some (- 1614826176)" and "get_heartbeat_id J decoded = Some 1587523073344"
proof -
  have "signed_take_bit 31 (1587523073344 :: int) = - 1614826176" by code_simp
  then show "heartbeat_id J decoded = Some (- 1614826176)"
    using assms by (simp add: heartbeat_id_def json_numbers)
  show "get_heartbeat_id J decoded = Some 1587523073344" using assms by (simp add: get_heartbeat_id_def json_numbers)
qed

end
