(* ===== verification/Main_Program.thy ===== *)
theory Main_Program
  imports Platform Market_Data
begin

text \<open>
  \<open>src/main.cpp\<close>: the command line, the environment variables, and the two ways the components are
  put together: an offline backtest over a stored log and the live platform. The environment is a
  function from names to values, the files are a function from paths to what the constructor of
  the storage finds there. Console output is left out.
\<close>

section \<open>Environment\<close>

type_synonym environment = "string \<Rightarrow> string option"

definition default_JsonlAsyncStorageConfig :: "string \<Rightarrow> JsonlAsyncStorageConfig" where
  "default_JsonlAsyncStorageConfig path =
     \<lparr>cf_file_path = path, cf_queue_capacity = 65536, cf_batch_size = 256, cf_start_flusher_thread = True\<rparr>"

definition maybe_create_storage ::
  "'j json_lib \<Rightarrow> (string \<Rightarrow> file_at_path) \<Rightarrow> environment \<Rightarrow> storage_error + JsonlAsyncStorage option" where
  "maybe_create_storage J files getenv =
     (case getenv ''CRYPTO_HFT_STORAGE_PATH'' of
        None \<Rightarrow> Inr None
      | Some storage_path \<Rightarrow>
          if storage_path = [] then Inr None
          else (case new_JsonlAsyncStorage J (default_JsonlAsyncStorageConfig storage_path) (files storage_path) of
                  Inl e \<Rightarrow> Inl e
                | Inr storage \<Rightarrow> Inr (Some storage)))"

definition env_double :: "environment \<Rightarrow> string \<Rightarrow> double \<Rightarrow> double" where
  "env_double getenv name fallback =
     (case getenv name of
        None \<Rightarrow> fallback
      | Some v \<Rightarrow> if v = [] then fallback else (case stod v of None \<Rightarrow> fallback | Some x \<Rightarrow> x))"

definition make_risk_limits_from_env :: "environment \<Rightarrow> RiskLimits" where
  "make_risk_limits_from_env getenv =
     \<lparr>rl_max_order_quantity = env_double getenv ''CRYPTO_HFT_MAX_ORDER_QTY'' 0,
      rl_max_order_notional = env_double getenv ''CRYPTO_HFT_MAX_ORDER_NOTIONAL'' 0,
      rl_max_net_position_abs = env_double getenv ''CRYPTO_HFT_MAX_NET_POSITION_ABS'' 0,
      rl_allow_market_orders = True\<rparr>"

section \<open>The strategies of the platform\<close>

definition add_platform_strategies :: "(example, 'd, 's) world \<Rightarrow> (example, 'd, 's) world" where
  "add_platform_strategies w =
     (let ((b1, u1), rt) = new_SimpleMarketMaker 1 ''BTC_USDT'' (Fin 10) (round64 (1 / 1000)) (w_rt w);
          w = snd (add_strategy b1 u1 True (set_rt rt w));
          ((b2, u2), rt) = new_SimpleMarketMaker 2 ''ETH_USDT'' (Fin 15) (round64 (1 / 100)) (w_rt w);
          w = snd (add_strategy b2 u2 True (set_rt rt w));
          (b3, u3) = new_SimpleMomentum 3 ''BTC_USDT'' (Fin (1 / 2)) (round64 (5 / 10000))
      in snd (add_strategy b3 u3 True w))"

section \<open>The backtest\<close>

datatype backtest_error = StorageError storage_error | StartError strategy_error | ReplayError replay_error

text \<open>What \<open>run_backtest\<close> prints, with the strategies and the closed storage it leaves.\<close>

record backtest_report =
  br_replay :: BacktestReplayStats
  br_execution :: SimulatedExecutionStats
  br_strategies :: "example strategy list"
  br_storage :: JsonlAsyncStorage

text \<open>
  \<open>close\<close> with a flusher thread: the thread runs to its end, is joined, and the file is closed. The
  fuel is one more than the work left for the thread, which suffices (\<open>flusher_stops\<close>).
\<close>

definition close_storage :: "'j json_lib \<Rightarrow> runtime \<Rightarrow> flusher_pc \<Rightarrow> JsonlAsyncStorage \<Rightarrow> JsonlAsyncStorage" where
  "close_storage J rt pc s =
     (let sy = \<lparr>sy_storage = s\<lparr>js_closed := True\<rparr>, sy_flusher = pc, sy_rt = rt, sy_log = []\<rparr>
      in close_output (sy_storage (flusher_run J (Suc (flusher_work sy)) sy)))"

definition backtest_request :: ReplayRequest where
  "backtest_request =
     \<lparr>rq_start_offset = None, rq_start_ts_ns = None, rq_end_ts_ns = None, rq_ticker = None, rq_max_events = 1024\<rparr>"

definition backtest_world :: "runtime \<Rightarrow> (example, JsonlAsyncStorage) sim_world" where
  "backtest_world rt =
     add_platform_strategies
       \<lparr>w_strategies = [],
        w_sink = (new_SimulatedExecutionSink
                    \<lparr>sc_maker_fee_bps = 0, sc_taker_fee_bps = 0, sc_reject_without_market = True\<rparr>,
                  \<lparr>env_storage = None, env_rt = rt\<rparr>),
        w_storage = False\<rparr>"

definition run_backtest ::
  "'j json_lib \<Rightarrow> (string \<Rightarrow> file_at_path) \<Rightarrow> string \<Rightarrow> runtime \<Rightarrow> (backtest_error + backtest_report) option" where
  "run_backtest J files storage_path rt =
     (case new_JsonlAsyncStorage J (default_JsonlAsyncStorageConfig storage_path) (files storage_path) of
        Inl e \<Rightarrow> Some (Inl (StorageError e))
      | Inr storage \<Rightarrow>
          (case start_all example_class (sim_ops jsonl_append) (backtest_world rt) of
             (Some e, w) \<Rightarrow> Some (Inl (StartError e))
           | (None, w) \<Rightarrow>
               (case backtest_run (\<lambda>rq. jsonl_replay rq storage) jsonl_append example_class backtest_request w of
                  None \<Rightarrow> None
                | Some (Inl e) \<Rightarrow> Some (Inl (ReplayError e))
                | Some (Inr (replay_stats, w)) \<Rightarrow>
                    let w = stop_all example_class (sim_ops jsonl_append) w;
                        storage = close_storage J (w_rt w) Waiting storage
                    in Some (Inr \<lparr>br_replay = replay_stats, br_execution = sim_stats (fst (w_sink w)),
                                  br_strategies = w_strategies w, br_storage = storage\<rparr>))))"

section \<open>What a backtest leaves behind\<close>

definition platform_profile :: profile where
  "platform_profile =
     [([''BTC_USDT''], True, True), ([''ETH_USDT''], True, True), ([''BTC_USDT''], True, False)]"

lemma platform_profile_facts:
  "wf_profile platform_profile" "list_all (\<lambda>(_, sink, _). sink) platform_profile" "length platform_profile = 3"
  "traded platform_profile tk \<longleftrightarrow> tk = ''BTC_USDT'' \<or> tk = ''ETH_USDT''"
  by (auto simp: platform_profile_def wf_profile_def wf_buffer_def traded_def)

text \<open>Adding the strategies leaves the sink and the storage alone.\<close>

lemma add_platform_strategies_facts:
  assumes "w_strategies w = []"
  defines "w' \<equiv> add_platform_strategies w"
  shows "profile_of (w_strategies w') = platform_profile" and "fst (w_sink w') = fst (w_sink w)"
    and "list_all (\<lambda>(b, u). sb_orders_submitted b = 0 \<and> sb_order_responses b = 0) (w_strategies w')"
  using assms(1)
  by (simp_all add: w'_def add_platform_strategies_def new_SimpleMarketMaker_def new_SimpleMomentum_def
      add_strategy_def attach_execution_sink_def new_StrategyBase_def profile_of_def platform_profile_def
      now_ns_def set_rt_def Let_def case_prod_beta)

lemma backtest_world_session: "session_inv platform_profile (backtest_world rt)"
proof -
  let ?w = "\<lparr>w_strategies = [], w_sink = (new_SimulatedExecutionSink
      \<lparr>sc_maker_fee_bps = 0, sc_taker_fee_bps = 0, sc_reject_without_market = True\<rparr>,
      \<lparr>env_storage = None, env_rt = rt\<rparr>), w_storage = False\<rparr> :: (example, JsonlAsyncStorage) sim_world"
  note facts = add_platform_strategies_facts [of ?w, folded backtest_world_def]
  have "length (w_strategies (backtest_world rt)) = length platform_profile"
    using arg_cong [OF facts(1), of length] by (simp add: profile_of_def)
  then show ?thesis
    using facts platform_profile_facts(1)
    by (auto simp: session_inv_def balanced_def tally_def new_SimulatedExecutionSink_def list_all_length
        case_prod_beta)
qed

lemma stop_all_settles:
  fixes w :: "(example, 's) sim_world" and ap :: "'s append_fn"
  assumes "session_inv platform_profile w"
  defines "w' \<equiv> stop_all example_class (sim_ops ap) w"
  shows "session_inv platform_profile w'" and "resting (w_sink w') = []"
proof -
  let ?stop = "strategy_stop example_class (sim_ops ap)"
  note len = platform_profile_facts(3)
  have inv: "session_inv platform_profile (?stop i v)" if "session_inv platform_profile v" "i < 3" for i v
    using session.stop_keeps [OF that(1), of i ap] that(2) len by simp
  have w': "w' = ?stop 2 (?stop 1 (?stop 0 w))"
    unfolding w'_def stop_all_def session.strategies [OF assms(1)] len by (simp add: upt_rec numeral_2_eq_2)
  have i1: "session_inv platform_profile (?stop 0 w)" using inv [OF assms(1)] by simp
  have i2: "session_inv platform_profile (?stop 1 (?stop 0 w))" using inv [OF i1] by simp
  show "session_inv platform_profile w'" unfolding w' using inv [OF i2] by simp
  have r0: "resting (w_sink (?stop 0 w)) = filter (\<lambda>po. t_ticker (po_trade po) \<noteq> ''BTC_USDT'') (resting (w_sink w))"
    using stop_resting [OF assms(1), of 0 "''BTC_USDT''" "[]" True ap] by (simp add: platform_profile_def)
  have r1: "resting (w_sink (?stop 1 (?stop 0 w))) =
      filter (\<lambda>po. t_ticker (po_trade po) \<noteq> ''ETH_USDT'') (resting (w_sink (?stop 0 w)))"
    using stop_resting [OF i1, of 1 "''ETH_USDT''" "[]" True ap] by (simp add: platform_profile_def)
  have r2: "resting (w_sink w') = resting (w_sink (?stop 1 (?stop 0 w)))"
    unfolding w' using stop_resting [OF i2, of 2 "''BTC_USDT''" "[]" False ap] by (simp add: platform_profile_def)
  have "list_all (\<lambda>po. t_ticker (po_trade po) = ''BTC_USDT'' \<or> t_ticker (po_trade po) = ''ETH_USDT'') (resting (w_sink w))"
    using assms(1) by (simp add: session_inv_def platform_profile_facts(4))
  then show "resting (w_sink w') = []" unfolding r2 r1 r0 by (auto simp: list_all_iff filter_empty_conv)
qed

lemma close_storage_idle:
  assumes "js_queue s = []" and "js_output s = \<lparr>os_content = c, os_buffer = [], os_open = True, os_good = True\<rparr>"
  shows "os_content (js_output (close_storage J rt Waiting s)) = c \<and> js_closed (close_storage J rt Waiting s) \<and>
    js_committed_events (close_storage J rt Waiting s) = js_committed_events s"
  using assms by (simp add: close_storage_def flusher_work_def flusher_step_def close_output_def stream_flush_def
      drain_queue_batch_def Let_def)

lemma backtest_ledger:
  assumes "session_inv platform_profile w" and "resting (w_sink w) = []"
  shows "ss_resting (sim_stats (fst (w_sink w))) = 0 \<and>
    ss_submitted (sim_stats (fst (w_sink w))) = ss_filled (sim_stats (fst (w_sink w)))
      + ss_canceled (sim_stats (fst (w_sink w))) + ss_rejected (sim_stats (fst (w_sink w))) \<and>
    list_all (\<lambda>(b, u). sb_orders_submitted b = sb_order_responses b) (w_strategies w)"
  using assms session.strategies [OF assms(1)]
  by (auto simp: session_inv_def balanced_def tally_def sim_stats_def list_all_length case_prod_beta)

lemma backtest_report:
  fixes J :: "'j json_lib" and path :: string and files :: "string \<Rightarrow> file_at_path" and rt :: runtime
  assumes "new_JsonlAsyncStorage J (default_JsonlAsyncStorageConfig path) (files path) = Inr s"
    and "offsets_ok (js_committed_events s)" and "length (js_committed_events s) < 2 ^ 64"
  defines "es \<equiv> js_committed_events s"
  shows "\<exists>report. run_backtest J files path rt = Some (Inr report) \<and>
    br_replay report = \<lparr>bs_events_processed = of_nat (length es), bs_quote_events = of_type QuoteUpdateEvent es,
      bs_trade_events = of_type MarketTrade es,
      bs_ignored_execution_events = of_type TradeSubmitted es + of_type OrderResponseEvent es\<rparr> \<and>
    ss_resting (br_execution report) = 0 \<and>
    ss_submitted (br_execution report) =
      ss_filled (br_execution report) + ss_canceled (br_execution report) + ss_rejected (br_execution report) \<and>
    list_all (\<lambda>(b, u). sb_orders_submitted b = sb_order_responses b) (br_strategies report) \<and>
    os_content (js_output (br_storage report)) = file_chars (files path)"
proof -
  let ?run = "fold (unless_error (backtest_event jsonl_append example_class)) es"
  note new = new_storage_facts [OF assms(1)]
  have typed: "list_all payload_matches_type es"
    by (rule new) (use load_typed in \<open>fastforce simp: es_def list_all_iff\<close>)
  then have "jsonl_log_inv s" using assms(2) by (simp add: jsonl_log_inv_def es_def)
  note replay = jsonl.replay_complete [OF this assms(3), folded es_def]
  have hits: "filter (matches_replay_filter backtest_request) es = es"
    by (simp add: matches_replay_filter_def backtest_request_def)
  obtain w where start: "start_all example_class (sim_ops jsonl_append) (backtest_world rt) = (None, w)"
    "session_inv platform_profile w"
    by (rule start_all_session [OF backtest_world_session platform_profile_facts(2)])
  obtain w1 where w1: "?run (Inr (new_BacktestReplayStats, w)) = Inr (fold count_event es new_BacktestReplayStats, w1)"
    using backtest_fold [OF typed] by blast
  have inv: "session_inv platform_profile w1" by (rule backtest_fold_session [OF w1 start(2)])
  have run: "backtest_run (\<lambda>rq. jsonl_replay rq s) jsonl_append example_class backtest_request w
      = Some (Inr (fold count_event es new_BacktestReplayStats, w1))"
    by (simp add: backtest_run_def replay hits w1)
  let ?w2 = "stop_all example_class (sim_ops jsonl_append) w1"
  note stopped = backtest_ledger [OF stop_all_settles [OF inv, of jsonl_append]]
  have closed: "os_content (js_output (close_storage J rt' Waiting s)) = file_chars (files path)" for rt'
    by (rule new) (use close_storage_idle in blast)
  have "run_backtest J files path rt = Some (Inr \<lparr>br_replay = fold count_event es new_BacktestReplayStats,
      br_execution = sim_stats (fst (w_sink ?w2)), br_strategies = w_strategies ?w2,
      br_storage = close_storage J (w_rt ?w2) Waiting s\<rparr>)"
    by (simp add: run_backtest_def assms(1) start(1) run Let_def)
  then show ?thesis
    using stopped closed by (simp add: fold_count_event new_BacktestReplayStats_def)
qed



section \<open>The live platform\<close>

text \<open>
  The platform with its market data client and \<open>g_running\<close>. The client's callbacks are named by the
  handlers they are: 0 for quotes, 1 for trades and 2 for errors.
\<close>

record live_state =
  ls_platform :: platform
  ls_market :: "nat CryptoComMarketDataClient"
  ls_running :: bool

datatype live_error = LiveStorageError storage_error | NoInstruments | LiveStartError strategy_error

text \<open>
  From the storage to \<open>executor->start()\<close>. \<open>zero\<close> is what the order queue's slots are created with; the
  clocks are those of the executor and of its client.
\<close>

definition live_setup ::
  "'j json_lib \<Rightarrow> (string \<Rightarrow> file_at_path) \<Rightarrow> environment \<Rightarrow> AuthHandler \<Rightarrow> bool \<Rightarrow> Trade \<Rightarrow> clock \<Rightarrow> clock \<Rightarrow> clock
     \<Rightarrow> runtime \<Rightarrow> live_error + live_state" where
  "live_setup J files getenv auth use_sandbox zero steady wall c rt =
     (case maybe_create_storage J files getenv of
        Inl e \<Rightarrow> Inl (LiveStorageError e)
      | Inr storage \<Rightarrow>
          let ws_client = new_ws_client auth use_sandbox c;
              executor = new_executor zero steady wall ws_client;
              risk_manager = new_RiskManager (make_risk_limits_from_env getenv);
              w = add_platform_strategies
                    \<lparr>w_strategies = [],
                     w_sink = ((new_RiskCheckedExecutionSink risk_manager, new_LiveOrderExecutorSink, executor),
                               \<lparr>env_storage = storage, env_rt = rt\<rparr>),
                     w_storage = (storage \<noteq> None)\<rparr>;
              market_instruments =
                parse_market_instruments_env (getenv ''CRYPTO_HFT_MARKET_INSTRUMENTS'') [''BTC_USDT'', ''ETH_USDT'']
          in case new_CryptoComMarketDataClient market_instruments (Some 0) (Some 1) (Some 2)
                    (make_crypto_com_market_config use_sandbox 10) of
               None \<Rightarrow> Inl NoInstruments
             | Some market_data_client \<Rightarrow>
                 Inr \<lparr>ls_platform = \<lparr>pl_world = on_executor executor_start w, pl_flusher = Waiting\<rparr>,
                      ls_market = market_data_client, ls_running = True\<rparr>)"

text \<open>
  The wait for authentication: \<open>authenticated n\<close> and \<open>running n\<close> are what the two atomics show in
  iteration \<open>n\<close>. The result is \<open>wait_count\<close> at the end.
\<close>

function wait_authenticated :: "(nat \<Rightarrow> bool) \<Rightarrow> (nat \<Rightarrow> bool) \<Rightarrow> nat \<Rightarrow> nat" where
  "wait_authenticated authenticated running n =
     (if \<not> authenticated n \<and> running n \<and> n < 100 then wait_authenticated authenticated running (n + 1) else n)"
  by auto
termination
  by (relation "measure (\<lambda>(a, r, n). 100 - n)") auto

declare wait_authenticated.simps [simp del]

text \<open>After the wait: without authentication nothing is started and the main loop ends at once.\<close>

definition live_begin ::
  "'j json_lib \<Rightarrow> hmac_fn \<Rightarrow> (nat option \<Rightarrow> nat option) \<Rightarrow> bool \<Rightarrow> live_state \<Rightarrow> live_error + live_state" where
  "live_begin J hmac moved authenticated ls =
     (if \<not> authenticated then Inr (ls\<lparr>ls_running := False\<rparr>)
      else (case start_all example_class (live_ops J hmac moved) (pl_world (ls_platform ls)) of
              (Some e, w) \<Rightarrow> Inl (LiveStartError e)
            | (None, w) \<Rightarrow>
                Inr (ls\<lparr>ls_platform := (ls_platform ls)\<lparr>pl_world := w\<rparr>, ls_market := md_start (ls_market ls)\<rparr>)))"

text \<open>
  \<open>SIGINT\<close> and \<open>SIGTERM\<close> end the wait above and the main loop, which otherwise only prints statistics every
  five seconds.
\<close>

definition signal_handler :: "live_state \<Rightarrow> live_state" where
  "signal_handler ls = ls\<lparr>ls_running := False\<rparr>"

text \<open>The end of \<open>main\<close>: the \<open>flush\<close> before \<open>close\<close> waits for work the closing flusher does anyway.\<close>

definition live_shutdown ::
  "'j json_lib \<Rightarrow> hmac_fn \<Rightarrow> (nat option \<Rightarrow> nat option) \<Rightarrow> live_state \<Rightarrow> live_state" where
  "live_shutdown J hmac moved ls =
     (let p = ls_platform ls;
          w = platform_stop J hmac moved (pl_world p);
          (sink, env) = w_sink w;
          env = env\<lparr>env_storage := map_option (close_storage J (env_rt env) (pl_flusher p)) (env_storage env)\<rparr>
      in ls\<lparr>ls_market := md_stop (ls_market ls),
            ls_platform := p\<lparr>pl_world := w\<lparr>w_sink := (sink, env)\<rparr>, pl_flusher := Stopped\<rparr>\<rparr>)"

section \<open>The command line\<close>

text \<open>\<open>argv\<close> holds the program's name first. A live platform runs on as \<open>platform_step\<close> says.\<close>

datatype main_result = Exit i32 | Running live_state

definition use_sandbox_of :: "environment \<Rightarrow> bool" where
  "use_sandbox_of getenv = (getenv ''CRYPTO_COM_SANDBOX'' \<noteq> Some ''false'')"

definition hft_main ::
  "'j json_lib \<Rightarrow> (string \<Rightarrow> file_at_path) \<Rightarrow> environment \<Rightarrow> Trade \<Rightarrow> clock \<Rightarrow> clock \<Rightarrow> clock \<Rightarrow> string list
     \<Rightarrow> runtime \<Rightarrow> main_result option" where
  "hft_main J files getenv zero steady wall c argv rt =
     (case tl argv of
        command # args \<Rightarrow>
          if command = ''--help'' \<or> command = ''-h'' then Some (Exit 0)
          else if command = ''--backtest''
          then (case args of
                  [] \<Rightarrow> Some (Exit 1)
                | path # _ \<Rightarrow>
                    (case run_backtest J files path rt of
                       None \<Rightarrow> None
                     | Some (Inl e) \<Rightarrow> Some (Exit 1)
                     | Some (Inr report) \<Rightarrow> Some (Exit 0)))
          else Some (Exit 1)
      | [] \<Rightarrow>
          (case (getenv ''CRYPTO_COM_API_KEY'', getenv ''CRYPTO_COM_API_SECRET'') of
             (Some key, Some secret) \<Rightarrow>
               (case live_setup J files getenv \<lparr>api_key = key, api_secret = secret\<rparr> (use_sandbox_of getenv)
                       zero steady wall c rt of
                  Inl e \<Rightarrow> Some (Exit 1)
                | Inr ls \<Rightarrow> Some (Running ls))
           | _ \<Rightarrow> Some (Exit 1)))"

section \<open>Properties of the live platform\<close>

lemma live_setup_inv:
  assumes "live_setup J files getenv auth sb zero steady wall c rt = Inr ls"
  shows "live_inv platform_profile (make_risk_limits_from_env getenv) (pl_world (ls_platform ls))"
proof -
  from assms obtain storage md where
    storage: "maybe_create_storage J files getenv = Inr storage" and
    ls: "ls_platform ls = \<lparr>pl_world = on_executor executor_start (add_platform_strategies
        \<lparr>w_strategies = [],
         w_sink = ((new_RiskCheckedExecutionSink (new_RiskManager (make_risk_limits_from_env getenv)),
             new_LiveOrderExecutorSink, new_executor zero steady wall (new_ws_client auth sb c)),
           \<lparr>env_storage = storage, env_rt = rt\<rparr>),
         w_storage = (storage \<noteq> None)\<rparr>), pl_flusher = Waiting\<rparr>"
    by (auto simp: live_setup_def Let_def split: sum.splits option.splits)
  let ?w = "\<lparr>w_strategies = [],
     w_sink = ((new_RiskCheckedExecutionSink (new_RiskManager (make_risk_limits_from_env getenv)),
         new_LiveOrderExecutorSink, new_executor zero steady wall (new_ws_client auth sb c)),
       \<lparr>env_storage = storage, env_rt = rt\<rparr>), w_storage = (storage \<noteq> None)\<rparr> :: live_world"
  have "queue_ok platform_profile limits (mpsc_new QUEUE_CAPACITY zero)" for limits
    by (simp add: queue_ok_def mpsc_new_inv capacity_ok)
  then have "live_inv platform_profile (make_risk_limits_from_env getenv) (add_platform_strategies ?w)"
    using add_platform_strategies_facts [of ?w] platform_profile_facts(1)
    by (simp add: live_inv_def live_executor_def new_RiskCheckedExecutionSink_def new_RiskManager_def
        new_executor_def ws_client.defs executor.defs)
  then show ?thesis
    unfolding ls by (simp add: live_inv_executor executor_start_def connect_def do_connect_def start_op_def)
qed

lemma live_begin_inv:
  assumes "live_begin J hmac moved authenticated ls = Inr ls'"
    and "live_inv platform_profile limits (pl_world (ls_platform ls))"
  shows "live_inv platform_profile limits (pl_world (ls_platform ls'))"
proof (cases authenticated)
  case True
  obtain w where "start_all example_class (live_ops J hmac moved) (pl_world (ls_platform ls)) = (None, w)"
    "live_inv platform_profile limits w"
    by (rule start_all_live [OF assms(2) platform_profile_facts(2)])
  then show ?thesis using assms(1) True by (auto simp: live_begin_def)
qed (use assms in \<open>auto simp: live_begin_def\<close>)


definition example_environment :: environment where
  "example_environment = [''CRYPTO_COM_API_KEY'' \<mapsto> ''k'', ''CRYPTO_COM_API_SECRET'' \<mapsto> ''s'',
     ''CRYPTO_HFT_MAX_ORDER_QTY'' \<mapsto> ''2'']"


text \<open>
  A limit whose variable does not hold a number is no limit: \<open>env_double\<close> falls back to 0, which the
  checks take for "off". Orders of any size pass.
\<close>

lemma malformed_limit_is_off:
  assumes "getenv ''CRYPTO_HFT_MAX_ORDER_QTY'' = Some v" and "stod v = None"
    and "getenv ''CRYPTO_HFT_MAX_ORDER_NOTIONAL'' = None" and "getenv ''CRYPTO_HFT_MAX_NET_POSITION_ABS'' = None"
    and "0 < t_quantity t"
  shows "rd_accepted (check_order t (new_RiskManager (make_risk_limits_from_env getenv)))"
proof -
  have "\<not> t_quantity t \<le> 0" "\<not> (0 :: double) < 0"
    using assms(5) by (cases "t_quantity t"; simp add: zero_double_def less_double_def less_eq_double_def)+
  then show ?thesis
    using assms(1-4) by (simp add: check_order_def make_risk_limits_from_env_def env_double_def new_RiskManager_def Let_def)
qed

text \<open>A path that names no file is a backtest of nothing: it is reported as a success.\<close>

lemma backtest_of_missing_file:
  assumes "fp_content (files path) = None" and "fp_writable (files path)" and "path \<noteq> []"
  shows "hft_main J files getenv zero steady wall c [prog, ''--backtest'', path] rt = Some (Exit 0)"
proof -
  obtain s where s: "new_JsonlAsyncStorage J (default_JsonlAsyncStorageConfig path) (files path) = Inr s"
    "js_committed_events s = []"
    using assms by (simp add: new_JsonlAsyncStorage_def load_existing_file_def open_output_file_def
        default_JsonlAsyncStorageConfig_def)
  obtain report where "run_backtest J files path rt = Some (Inr report)"
    using backtest_report [where files = files and path = path, OF s(1)] s(2) by (auto simp: offsets_ok_def)
  then show ?thesis by (simp add: hft_main_def)
qed

text \<open>The wait for authentication takes at most a hundred iterations.\<close>

lemma wait_authenticated_bound: "n \<le> 100 \<Longrightarrow> wait_authenticated authenticated running n \<le> 100"
  by (induction authenticated running n rule: wait_authenticated.induct)
    (subst wait_authenticated.simps, auto)

end
