(* ===== verification/Ipc_Server.thy ===== *)
theory Ipc_Server
  imports Json "HOL-Library.Sublist"
begin

text \<open>
  \<open>include/ipc/client_protocol.hpp\<close> and \<open>include/ipc/unix_domain_server.hpp\<close>: a command server on a
  Unix domain socket. A client sends one line with a JSON object and receives one line back. The
  results of system calls are arguments; the calls a start or stop makes are recorded. The two
  callbacks are functions on the state \<open>'d\<close> of the program and may throw (\<open>None\<close>).
\<close>

section \<open>The protocol\<close>

datatype CommandType = Subscribe | Snapshot | Ping | Unknown

record ClientCommand =
  cc_type :: CommandType
  cc_tickers :: "string list"

definition command_type_from_string :: "string \<Rightarrow> CommandType" where
  "command_type_from_string v =
     (if v = ''subscribe'' then Subscribe
      else if v = ''snapshot'' then Snapshot
      else if v = ''ping'' then Ping
      else Unknown)"

text \<open>The strings among the tickers; values of other types are skipped.\<close>

definition ticker_strings :: "'j json_lib \<Rightarrow> 'j list \<Rightarrow> string list option" where
  "ticker_strings J vs =
     those (map (j_get_string J) (filter (\<lambda>v. j_type J v = VString) vs))"

text \<open>
  \<open>Inl\<close> is the error text, \<open>Inr\<close> the command; \<open>None\<close> is an exception, which \<open>value("cmd", "")\<close>
  throws for a \<open>cmd\<close> that is not a string.
\<close>

definition parse_command_line :: "'j json_lib \<Rightarrow> string \<Rightarrow> (string + ClientCommand) option" where
  "parse_command_line J line =
     (case j_parse J line of
        None \<Rightarrow> Some (Inl ''invalid JSON object'')
      | Some decoded \<Rightarrow>
          if j_type J decoded \<noteq> VObject then Some (Inl ''invalid JSON object'')
          else case value_string J decoded ''cmd'' [] of
                 None \<Rightarrow> None
               | Some command \<Rightarrow>
                   let ty = command_type_from_string command
                   in if ty = Unknown then Some (Inl ''unknown command'')
                      else let one = (case j_at J decoded ''ticker'' of None \<Rightarrow> [] | Some v \<Rightarrow> [v]);
                               many = (case j_at J decoded ''tickers'' of
                                         None \<Rightarrow> []
                                       | Some v \<Rightarrow> if j_type J v = VArray then j_elements J v else [])
                           in case ticker_strings J (one @ many) of
                                None \<Rightarrow> None
                              | Some tickers \<Rightarrow>
                                  if ty \<in> {Subscribe, Snapshot} \<and> tickers = [] then Some (Inl ''ticker is required'')
                                  else Some (Inr \<lparr>cc_type = ty, cc_tickers = tickers\<rparr>))"

abbreviation newline :: char where "newline \<equiv> CHR 0x0A"

definition make_ok_response :: "'j json_lib \<Rightarrow> 'j \<Rightarrow> string option" where
  "make_ok_response J result =
     map_option (\<lambda>s. s @ [newline]) (j_dump J (j_object J [(''ok'', j_bool J True), (''result'', result)]))"

definition make_error_response :: "'j json_lib \<Rightarrow> string \<Rightarrow> string option" where
  "make_error_response J message =
     map_option (\<lambda>s. s @ [newline]) (j_dump J (j_object J [(''ok'', j_bool J False), (''error'', j_string J message)]))"

section \<open>The server\<close>

datatype syscall = Socket | Unlink string | Bind string | Listen | Shutdown int | Close int

record ('j, 'd) UnixDomainCommandServer =
  us_socket_path :: string
  us_subscribe_callback :: "(string list \<Rightarrow> 'd \<Rightarrow> 'j option \<times> 'd) option"
  us_snapshot_callback :: "(string \<Rightarrow> 'd \<Rightarrow> 'j option \<times> 'd) option"
  us_running :: bool
  us_listen_fd :: int
  us_thread :: bool
  us_calls :: "syscall list"

definition new_UnixDomainCommandServer :: "string \<Rightarrow> ('j, 'd) UnixDomainCommandServer" where
  "new_UnixDomainCommandServer socket_path =
     \<lparr>us_socket_path = socket_path, us_subscribe_callback = None, us_snapshot_callback = None,
      us_running = False, us_listen_fd = -1, us_thread = False, us_calls = []\<rparr>"

definition set_subscribe_callback ::
  "(string list \<Rightarrow> 'd \<Rightarrow> 'j option \<times> 'd) option \<Rightarrow> ('j, 'd) UnixDomainCommandServer \<Rightarrow> ('j, 'd) UnixDomainCommandServer" where
  "set_subscribe_callback callback us = us\<lparr>us_subscribe_callback := callback\<rparr>"

definition set_snapshot_callback ::
  "(string \<Rightarrow> 'd \<Rightarrow> 'j option \<times> 'd) option \<Rightarrow> ('j, 'd) UnixDomainCommandServer \<Rightarrow> ('j, 'd) UnixDomainCommandServer" where
  "set_snapshot_callback callback us = us\<lparr>us_snapshot_callback := callback\<rparr>"

definition called :: "syscall \<Rightarrow> ('j, 'd) UnixDomainCommandServer \<Rightarrow> ('j, 'd) UnixDomainCommandServer" where
  "called c us = us\<lparr>us_calls := us_calls us @ [c]\<rparr>"

definition close_listen_socket :: "('j, 'd) UnixDomainCommandServer \<Rightarrow> ('j, 'd) UnixDomainCommandServer" where
  "close_listen_socket us =
     (if 0 \<le> us_listen_fd us
      then (called (Close (us_listen_fd us)) (called (Shutdown (us_listen_fd us)) us))\<lparr>us_listen_fd := -1\<rparr>
      else us)"

text \<open>\<open>sizeof(sockaddr_un::sun_path)\<close> on Linux.\<close>

definition SUN_PATH_SIZE :: nat where "SUN_PATH_SIZE = 108"

text \<open>
  \<open>start\<close>, with what \<open>socket\<close>, \<open>bind\<close> and \<open>listen\<close> return: \<open>Some\<close> text is the error thrown
  (without the text of \<open>errno\<close>).
\<close>

definition server_start ::
  "int \<Rightarrow> int \<Rightarrow> int \<Rightarrow> ('j, 'd) UnixDomainCommandServer \<Rightarrow> string option \<times> ('j, 'd) UnixDomainCommandServer" where
  "server_start fd bound listening us =
     (if us_running us then (None, us)
      else let us = (called Socket (us\<lparr>us_running := True\<rparr>))\<lparr>us_listen_fd := fd\<rparr>
           in if fd < 0 then (Some ''failed to create unix socket'', us\<lparr>us_running := False\<rparr>)
              else let us = called (Unlink (us_socket_path us)) us
                   in if SUN_PATH_SIZE \<le> length (us_socket_path us)
                      then (Some ''unix socket path too long'', (close_listen_socket us)\<lparr>us_running := False\<rparr>)
                      else let us = called (Bind (us_socket_path us)) us
                           in if bound \<noteq> 0
                              then (Some ''failed to bind unix socket'', (close_listen_socket us)\<lparr>us_running := False\<rparr>)
                              else let us = called Listen us
                                   in if listening \<noteq> 0
                                      then (Some ''failed to listen on unix socket'',
                                            (close_listen_socket us)\<lparr>us_running := False\<rparr>)
                                      else (None, us\<lparr>us_thread := True\<rparr>))"

definition server_stop :: "('j, 'd) UnixDomainCommandServer \<Rightarrow> ('j, 'd) UnixDomainCommandServer" where
  "server_stop us =
     (if \<not> us_running us then us
      else let us = close_listen_socket (us\<lparr>us_running := False\<rparr>);
               us = us\<lparr>us_thread := False\<rparr>
           in called (Unlink (us_socket_path us)) us)"

section \<open>A client\<close>

text \<open>
  The loop that reads: \<open>chunks\<close> are what the calls of \<open>read\<close> return, at most 1024 bytes each; an
  empty one, or the end of the list, is end of file or an error. \<open>None\<close> is a request of more than
  64 KiB.
\<close>

definition MAX_REQUEST :: nat where "MAX_REQUEST = 64 * 1024"

fun read_request :: "string list \<Rightarrow> string \<Rightarrow> string option" where
  "read_request [] line = Some line"
| "read_request (chunk # chunks) line =
     (if newline \<in> set line \<or> chunk = [] then Some line
      else if MAX_REQUEST < length (line @ chunk) then None
      else read_request chunks (line @ chunk))"

text \<open>The commands; the answer is \<open>None\<close> when an exception leaves the function.\<close>

definition serve_command ::
  "'j json_lib \<Rightarrow> ('j, 'd) UnixDomainCommandServer \<Rightarrow> ClientCommand \<Rightarrow> 'd \<Rightarrow> string option \<times> 'd" where
  "serve_command J us command d =
     (case cc_type command of
        Ping \<Rightarrow> (make_ok_response J (j_object J [(''pong'', j_bool J True)]), d)
      | Subscribe \<Rightarrow>
          (case us_subscribe_callback us of
             None \<Rightarrow> (make_error_response J ''subscribe unavailable'', d)
           | Some f \<Rightarrow> (let (result, d) = f (cc_tickers command) d in (Option.bind result (make_ok_response J), d)))
      | Snapshot \<Rightarrow>
          (case us_snapshot_callback us of
             None \<Rightarrow> (make_error_response J ''snapshot unavailable'', d)
           | Some f \<Rightarrow> (let (result, d) = f (hd (cc_tickers command)) d in (Option.bind result (make_ok_response J), d)))
      | Unknown \<Rightarrow> (make_error_response J ''unknown command'', d))"

definition handle_client ::
  "'j json_lib \<Rightarrow> ('j, 'd) UnixDomainCommandServer \<Rightarrow> string list \<Rightarrow> 'd \<Rightarrow> string option \<times> 'd" where
  "handle_client J us chunks d =
     (case read_request chunks [] of
        None \<Rightarrow> (make_error_response J ''request too large'', d)
      | Some line \<Rightarrow>
          (case parse_command_line J (takeWhile (\<lambda>c. c \<noteq> newline) line) of
             None \<Rightarrow> (None, d)
           | Some (Inl error) \<Rightarrow> (make_error_response J error, d)
           | Some (Inr command) \<Rightarrow> serve_command J us command d))"

text \<open>The bytes that \<open>write_response\<close> gets out, with what the calls of \<open>write\<close> return.\<close>

fun write_response :: "int list \<Rightarrow> string \<Rightarrow> string" where
  "write_response [] data = []"
| "write_response (written # rest) data =
     (if data = [] \<or> written \<le> 0 then []
      else take (nat written) data @ write_response rest (drop (nat written) data))"

text \<open>
  One iteration of \<open>accept_loop\<close>: \<open>accept\<close> returned \<open>client_fd\<close>, and the client sent \<open>chunks\<close>. The
  flag says whether the loop goes on; \<open>None\<close> is an exception in the server's thread.
\<close>

definition accept_step ::
  "'j json_lib \<Rightarrow> int \<Rightarrow> string list \<Rightarrow> ('j, 'd) UnixDomainCommandServer \<times> 'd
     \<Rightarrow> (bool \<times> string) option \<times> ('j, 'd) UnixDomainCommandServer \<times> 'd" where
  "accept_step J client_fd chunks st =
     (let (us, d) = st
      in if \<not> us_running us then (Some (False, []), us, d)
         else if client_fd < 0 then (Some (us_running us, []), us, d)
         else let (answer, d) = handle_client J us chunks d
              in case answer of
                   None \<Rightarrow> (None, us, d)
                 | Some response \<Rightarrow> (Some (True, response), called (Close client_fd) us, d))"

section \<open>Lines\<close>

abbreviation first_line :: "string \<Rightarrow> string" where
  "first_line s \<equiv> takeWhile (\<lambda>c. c \<noteq> newline) s"

lemma first_line_append: "newline \<notin> set a \<Longrightarrow> first_line (a @ newline # b) = a"
  by (induction a) auto

lemma read_request_line:
  "list_all (\<lambda>c. c \<noteq> []) chunks \<Longrightarrow> length (line @ concat chunks) \<le> MAX_REQUEST \<Longrightarrow>
   \<exists>l. read_request chunks line = Some l \<and> first_line l = first_line (line @ concat chunks)"
proof (induction chunks arbitrary: line)
  case (Cons chunk chunks)
  show ?case
  proof (cases "newline \<in> set line")
    case True
    then have "first_line (line @ concat (chunk # chunks)) = first_line line" by (simp add: takeWhile_append1)
    then show ?thesis using True by simp
  next
    case False
    then show ?thesis using Cons.IH [of "line @ chunk"] Cons.prems by simp
  qed
qed simp

lemma write_response_prefix: "prefix (write_response ws data) data"
proof (induction ws data rule: write_response.induct)
  case (2 w ws data)
  then show ?case
    by (auto simp: prefix_def) (metis append.assoc append_take_drop_id)
qed simp

lemma write_response_complete:
  "list_all (\<lambda>w. 0 < w) ws \<Longrightarrow> int (length data) \<le> sum_list ws \<Longrightarrow> write_response ws data = data"
proof (induction ws data rule: write_response.induct)
  case (2 w ws data)
  show ?case
  proof (cases "data = []")
    case False
    have pos: "0 < w" "list_all (\<lambda>w. 0 < w) ws" using 2(2) by simp_all
    have "0 \<le> sum_list ws" using pos(2) by (induction ws) auto
    then have "int (length (drop (nat w) data)) \<le> sum_list ws" using 2(3) pos(1) by auto
    then show ?thesis using 2(1) False pos by simp
  qed simp
qed simp

lemma those_map_Some: "(\<And>x. x \<in> set xs \<Longrightarrow> f x = Some (g x)) \<Longrightarrow> those (map f xs) = Some (map g xs)"
  by (induction xs) simp_all

text \<open>The object that asks for subscriptions, and what the server makes of its text.\<close>

definition subscribe_request :: "'j json_lib \<Rightarrow> string list \<Rightarrow> 'j" where
  "subscribe_request J tickers =
     j_object J [(''cmd'', j_string J ''subscribe''), (''tickers'', j_array J (map (j_string J) tickers))]"

lemma parse_subscribe_request:
  assumes J: "json_laws J" and "list_all ascii tickers" and "tickers \<noteq> []"
    and "j_dump J (subscribe_request J tickers) = Some request"
  shows "parse_command_line J request = Some (Inr \<lparr>cc_type = Subscribe, cc_tickers = tickers\<rparr>)"
proof -
  have "reparse J (subscribe_request J tickers) = Some (subscribe_request J tickers)"
    unfolding subscribe_request_def using assms(2) J
    by (intro reparse_object_stable) (auto simp: reparse_array_stable json_texts(7) list_all_iff)
  then have p: "j_parse J request = Some (subscribe_request J tickers)" using assms(4) by (simp add: reparse_def)
  have "ticker_strings J (map (j_string J) tickers) = Some tickers"
    using those_map_Some [of tickers Some "\<lambda>t. t"] by (simp add: ticker_strings_def json_types [OF J] comp_def)
  then show ?thesis
    using assms(3)
    by (simp add: parse_command_line_def p subscribe_request_def json_types [OF J] json_objects [OF J]
        value_string_def command_type_from_string_def)
qed

lemma make_ok_response_line:
  assumes J: "json_laws J" and "reparse J result = Some result'"
  obtains body where "make_ok_response J result = Some (body @ [newline])" "newline \<notin> set body"
    "j_parse J body = Some (j_object J [(''ok'', j_bool J True), (''result'', result')])"
proof -
  have "reparse J (j_object J [(''ok'', j_bool J True), (''result'', result)])
      = Some (j_object J [(''ok'', j_bool J True), (''result'', result')])"
    using json_texts(3,9) [OF J] assms(2) by simp
  then obtain body where b: "j_dump J (j_object J [(''ok'', j_bool J True), (''result'', result)]) = Some body"
    "j_parse J body = Some (j_object J [(''ok'', j_bool J True), (''result'', result')])"
    by (auto simp: reparse_def split: option.splits)
  then show thesis using that [of body] json_texts(1) [OF J b(1)] by (simp add: make_ok_response_def)
qed

text \<open>
  (C38) A subscription over the socket. The client writes the request and a line break; however the
  bytes arrive, in chunks of any sizes and with anything after the line break, the server calls its
  subscription callback once, with exactly the tickers asked for, and answers with one line, which
  reads back as \<open>ok\<close> and the callback's result.
\<close>

theorem subscribe_over_socket:
  assumes "json_laws J" and "list_all ascii tickers" and "tickers \<noteq> []"
    and "j_dump J (subscribe_request J tickers) = Some request"
    and "concat chunks = request @ newline # rest" and "list_all (\<lambda>c. c \<noteq> []) chunks"
    and "length (concat chunks) \<le> MAX_REQUEST"
    and "us_subscribe_callback us = Some callback" and "callback tickers d = (Some result, d')"
    and "reparse J result = Some result'"
  shows "\<exists>body. handle_client J us chunks d = (Some (body @ [newline]), d') \<and> newline \<notin> set body \<and>
    j_parse J body = Some (j_object J [(''ok'', j_bool J True), (''result'', result')])"
proof -
  obtain line where line: "read_request chunks [] = Some line" "first_line line = first_line (concat chunks)"
    using read_request_line [OF assms(6), of "[]"] assms(7) by auto
  have "newline \<notin> set request" using json_texts(1) [OF assms(1,4)] .
  then have "first_line line = request" using line(2) assms(5) by (simp add: first_line_append)
  then have "handle_client J us chunks d = serve_command J us \<lparr>cc_type = Subscribe, cc_tickers = tickers\<rparr> d"
    using parse_subscribe_request [OF assms(1-4)] line(1) by (simp add: handle_client_def)
  moreover obtain body where "make_ok_response J result = Some (body @ [newline])" "newline \<notin> set body"
    "j_parse J body = Some (j_object J [(''ok'', j_bool J True), (''result'', result')])"
    using make_ok_response_line [OF assms(1,10)] .
  ultimately show ?thesis using assms(8,9) by (simp add: serve_command_def)
qed

text \<open>The callback of the example counts its calls and returns the number of tickers.\<close>

definition example_server :: "(jval, nat) UnixDomainCommandServer" where
  "example_server = set_subscribe_callback (Some (\<lambda>tickers n. (Some (JUInt (of_nat (length tickers))), n + 1)))
     (new_UnixDomainCommandServer ''/tmp/hft.sock'')"

theorem subscribe_over_socket_witness:
  "\<exists>J body. handle_client J example_server [''r'', [newline, CHR ''x'']] 0 = (Some (body @ [newline]), 1) \<and> newline \<notin> set body \<and>
     j_parse J body = Some (JObj [(''ok'', JBool True), (''result'', JUInt 2)])"
proof -
  define r where "r = subscribe_request reference_json [''BTC_USDT'', ''ETH_USDT'']"
  define J where "J = short_json r"
  have c: "j_object J = JObj" "j_bool J = JBool" "j_string J = JStr" "j_array J = JArr"
    by (simp_all add: J_def short_json_def reference_json_def)
  have req: "subscribe_request J [''BTC_USDT'', ''ETH_USDT''] = r"
    by (simp add: subscribe_request_def c r_def) (simp add: reference_json_def)
  have "j_dump J (subscribe_request J [''BTC_USDT'', ''ETH_USDT'']) = Some ''r''"
    unfolding req by (simp add: J_def short_json_def)
  moreover have "reparse J (JUInt 2) = Some (JUInt 2)"
    using json_texts(4) [OF short_json_laws, of r 2] by (simp add: J_def) (simp add: short_json_def reference_json_def)
  ultimately have "\<exists>body. handle_client J example_server [''r'', [newline, CHR ''x'']] 0 = (Some (body @ [newline]), 1) \<and>
      newline \<notin> set body \<and> j_parse J body = Some (j_object J [(''ok'', j_bool J True), (''result'', JUInt 2)])"
    by (intro subscribe_over_socket [where tickers = "[''BTC_USDT'', ''ETH_USDT'']" and request = "''r''" and rest = "''x''"
        and callback = "\<lambda>tickers n. (Some (JUInt (of_nat (length tickers))), n + 1)" and result = "JUInt 2"])
      (simp_all add: J_def short_json_laws example_server_def set_subscribe_callback_def MAX_REQUEST_def)
  then show ?thesis by (auto simp: c)
qed

text \<open>A \<open>cmd\<close> that is not a string throws out of the server's thread.\<close>

lemma non_string_command_throws:
  assumes "json_laws J" and "j_parse J line = Some v" and "j_type J v = VObject"
    and "j_at J v ''cmd'' = Some x" and "j_get_string J x = None"
  shows "parse_command_line J line = None"
  using assms(2-5) by (simp add: parse_command_line_def value_string_def)

end
