(* ===== verification/Shutdown.thy ===== *)
theory Shutdown
  imports Platform Market_Data Ipc_Server
begin

text \<open>
  The destructors. Each of them stops its object once more, after \<open>main\<close> has stopped most of them
  already: the lemmas say that the second time nothing happens, so that no connection is closed
  twice, no socket file of a successor is unlinked and no event is written after \<open>close\<close>.
\<close>

definition destroy_CryptoComWebSocketClient :: "'x ws_client_scheme \<Rightarrow> 'x ws_client_scheme" where
  "destroy_CryptoComWebSocketClient s = ws_close (s\<lparr>ws_should_reconnect := False\<rparr>)"

definition destroy_OrderExecutor :: "'cb executor \<Rightarrow> 'cb executor" where
  "destroy_OrderExecutor s = executor_stop s"

definition destroy_CryptoComMarketDataClient :: "'cb CryptoComMarketDataClient \<Rightarrow> 'cb CryptoComMarketDataClient" where
  "destroy_CryptoComMarketDataClient md = md_stop md"

definition destroy_UnixDomainCommandServer ::
  "('j, 'd) UnixDomainCommandServer \<Rightarrow> ('j, 'd) UnixDomainCommandServer" where
  "destroy_UnixDomainCommandServer us = server_stop us"

text \<open>
  An exception that leaves a destructor ends the process (\<open>Terminated\<close>): \<open>close\<close> of a storage
  without a flusher thread writes the queued events and lets exceptions through.
\<close>

datatype destroyed = Destroyed JsonlAsyncStorage clock | Terminated

definition destroy_JsonlAsyncStorage :: "'j json_lib \<Rightarrow> JsonlAsyncStorage \<Rightarrow> clock \<Rightarrow> destroyed option" where
  "destroy_JsonlAsyncStorage J s c =
     (case jsonl_close J s c of
        None \<Rightarrow> None
      | Some (Threw, s, c) \<Rightarrow> Some Terminated
      | Some (Returned _, s, c) \<Rightarrow> Some (Destroyed s c))"

lemma ws_close_twice: "ws_close (ws_close s) = ws_close s"
  by (simp add: ws_close_def Let_def)

lemma destroy_client_closed: "destroy_CryptoComWebSocketClient (ws_close s) = ws_close s"
  by (simp add: destroy_CryptoComWebSocketClient_def ws_close_def Let_def)

lemma destroy_executor_stopped: "destroy_OrderExecutor (executor_stop s) = executor_stop s"
  by (simp add: destroy_OrderExecutor_def executor_stop_def ws_close_def Let_def)

text \<open>The executor goes first, then the client it shares: one close in all.\<close>

lemma destroy_executor_then_client:
  "destroy_CryptoComWebSocketClient (destroy_OrderExecutor s) = executor_stop s"
  by (simp add: destroy_OrderExecutor_def executor_stop_def destroy_client_closed)

lemma destroy_market_data_stopped: "destroy_CryptoComMarketDataClient (md_stop md) = md_stop md"
  by (simp add: destroy_CryptoComMarketDataClient_def md_stop_def)

lemma server_stop_running: "\<not> us_running (server_stop us)"
  by (simp add: server_stop_def close_listen_socket_def called_def Let_def)

lemma destroy_server_stopped: "destroy_UnixDomainCommandServer (server_stop us) = server_stop us"
  using server_stop_running [of us]
  by (simp add: destroy_UnixDomainCommandServer_def server_stop_def [of "server_stop us"])

lemma drain_queue_batch_closed: "drain_queue_batch n s = Some (batch, s') \<Longrightarrow> js_closed s' = js_closed s"
  by (auto simp: drain_queue_batch_def Let_def split: if_splits)

lemma write_batch_closed: "write_batch J batch s = (r, s') \<Longrightarrow> js_closed s' = js_closed s"
  by (auto simp: write_batch_def write_file_def insert_committed_def count_committed_def split: if_splits prod.splits bool.splits)

lemma flush_without_worker_closed:
  assumes "flush_without_worker J deadline s c = Some res"
  shows "js_closed (fst (snd res)) = js_closed s"
proof (rule flush_without_worker.raw_induct
    [where P = "\<lambda>J deadline s c res. js_closed (fst (snd res)) = js_closed s", OF _ assms], goal_cases)
  case (1 f J deadline s c res)
  have wr: "js_closed (snd (write_batch J batch s1)) = js_closed s1" for batch s1
    using write_batch_closed [OF prod.collapse [symmetric]] .
  show ?case
  proof (cases "drain_queue_batch (unat (cf_batch_size (js_config s))) s")
    case None
    show ?thesis
      using 1(2) 1(1) [of J deadline s "snd (read_clock c)" res]
      by (auto simp: flush_output_def Let_def split_beta None split: if_splits)
  next
    case (Some d)
    obtain batch s1 where d: "d = (batch, s1)" by (cases d)
    have "js_closed s1 = js_closed s" using drain_queue_batch_closed Some d by blast
    then show ?thesis
      using 1(2) 1(1) [of J deadline "snd (write_batch J batch s1)" "snd (read_clock c)" res] wr [of batch s1]
      by (auto simp: flush_output_def Let_def split_beta Some d split: if_splits)
  qed
qed

lemma jsonl_close_closed: "jsonl_close J s c = Some (r, s', c') \<Longrightarrow> js_closed s'"
  using flush_without_worker_closed [of J]
  by (fastforce simp: jsonl_close_def jsonl_flush_def close_output_def Let_def split_beta
      split: if_splits option.splits flush_result.splits)

theorem destroy_storage_closed:
  assumes "jsonl_close J s c = Some (r, s', c')"
  shows "destroy_JsonlAsyncStorage J s' t = Some (Destroyed s' t)"
  using jsonl_close_closed [OF assms] by (simp add: destroy_JsonlAsyncStorage_def jsonl_close_def)

end
