(* ===== verification/Spec2Isabelle.thy ===== *)
theory Spec2Isabelle
  imports Spsc_Concurrent Mpsc_Concurrent Order_Book Main_Program Ipc_Server Shutdown
begin

text \<open>
  Verification of a low-latency trading engine for crypto exchanges (C++, namespace \<open>hft\<close>).

  \<^bold>\<open>The program.\<close> Strategies (\<open>include/strategy\<close>) react to market events and place orders through an
  execution sink. Live, the sink is a risk check (\<open>include/risk\<close>) in front of a sink that hands
  orders to the order executor (\<open>include/core\<close>), whose thread takes them from a lock-free queue, at
  most as many as the rate limiter grants, and sends them signed over a WebSocket connection to the
  exchange (\<open>include/exchange\<close>); the exchange's answers come back through the callbacks the orders
  carry. A second client receives market data and feeds the strategies. Orders, answers and market
  events can be stored (\<open>include/storage\<close>), in memory or in a JSONL file written by a flusher thread,
  and replayed, into the strategies alone or into a backtest with a simulated exchange
  (\<open>include/backtest\<close>). Order books (\<open>include/orderbook\<close>) and a command server on a local socket
  (\<open>include/ipc\<close>) are separate parts. \<open>src/main.cpp\<close> puts the backtest and the live platform together.

  \<^bold>\<open>Foundations.\<close>
  \<^item> \<open>Prelude\<close>: machine types (unsigned words keep their width), character buffers with \<open>strncpy\<close>, clocks
    as the sequence of their readings, generic lemmas.
  \<^item> \<open>Double\<close>: binary64 as an executable datatype with rounding to nearest even; the sign of zero is
    not kept. Comparisons are those of C++, so a NaN is neither below nor above anything.
  \<^item> \<open>Std_Map\<close>: \<open>std::map\<close> as a list sorted by its comparator. \<open>Number_Text\<close>: \<open>std::to_string\<close>, \<open>stoull\<close>,
    \<open>stod\<close> and \<open>snprintf\<close> of a double. \<open>Json\<close>: \<open>nlohmann::json\<close> as a record of operations with the laws the
    sources rely on (\<open>json_laws\<close>), and an instance that satisfies them.

  \<^bold>\<open>Components.\<close> The definitions keep the names of the source where possible.
  \<^item> \<open>Trade\<close> (\<open>types/trade.hpp\<close>): orders, responses, market events and the order factories; identifiers
    are distinct.
  \<^item> \<open>Trade_Queue\<close> (\<open>core/trade_queue.hpp\<close>): the three queues, their indices as 64-bit words. The
    locale \<open>bounded_fifo\<close> is their contract; both ring buffers are interpreted, so what is popped
    is what was pushed, in order, across the wrap-around of the counters.
  \<^item> \<open>Concurrent_Queue\<close>, \<open>Spsc_Concurrent\<close>, \<open>Mpsc_Concurrent\<close>: the two lock-free queues again, as the single
    memory accesses of their threads (\<open>push_step\<close>, \<open>pop_step\<close>, \<open>spsc_push_step\<close>, \<open>spsc_pop_step\<close>) in any
    interleaving. The locale \<open>concurrent_queue\<close> derives from one-step laws that the interleavings
    refine a bounded queue; both queues interpret it. Also shown: trades arrive as written and in
    order, plain accesses do not race, a producer left alone returns, between calls the sequential
    invariant holds, and the calls of \<open>Trade_Queue\<close> are the uninterrupted runs of the accesses.
  \<^item> \<open>Order_Book\<close> (\<open>orderbook/order_book.hpp\<close>): the sides refine finite maps; best, consolidated and
    snapshot queries are proved against them.
  \<^item> \<open>Storage\<close> (\<open>storage/storage_types.hpp\<close>, \<open>in_memory_storage\<close>): events, paged replay and its contract, the
    locale \<open>event_log\<close>: every matching event is delivered once, in order.
  \<^item> \<open>Execution_Sink\<close>: callbacks as values and effects in call order; the locale \<open>order_ledger\<close>: each
    order is open or answered once. \<open>Simulated_Execution\<close> and \<open>Risk\<close> interpret it; they also show that
    no resting order is executable and that filled orders keep the position limit.
  \<^item> \<open>Strategy\<close>, \<open>Example_Strategies\<close>: the base class with the virtual functions of a derived class as a
    record, the manager's dispatch, the two strategies of the repository.
  \<^item> \<open>Replay\<close>: both replay drivers, over any storage; an exception ends a run.
  \<^item> \<open>Jsonl_Codec\<close>, \<open>Jsonl_Storage\<close>, \<open>Jsonl_Durability\<close> (\<open>storage/jsonl_async_storage\<close>): the lines of the
    file, the storage object with its flusher thread as a step relation over the critical sections,
    and its guarantees: recovery after a stop at any moment, durability when \<open>flush\<close> returns,
    completion of \<open>close\<close>.
  \<^item> \<open>Auth\<close>, \<open>Exchange_Api\<close>, \<open>Request_Text\<close> (\<open>exchange/auth_handler.hpp\<close>, \<open>crypto_com_api.hpp\<close>): signatures,
    requests and responses; HMAC-SHA256 is a parameter. Requests verify, prices and quantities
    survive formatting, requests for ASCII instruments can always be written.
  \<^item> \<open>Rate_Limiter\<close>, \<open>Order_Executor\<close> (\<open>core/order_executor.hpp\<close>): the limiter equals a specification over
    the grants so far; the executor extends the record of the client it owns.
  \<^item> \<open>Websocket_Client\<close>, \<open>Websocket_Safety\<close> (\<open>exchange/websocket_client.hpp\<close>): every asynchronous operation
    and its completion handler; at most one write and one operation of the connection are
    outstanding and no message is forgotten. \<open>Execution_Safety\<close> composes executor and client: the
    interleaving of all their threads keeps the connection safe, a pass of the execution loop sends
    what the limiter grants, reconnecting ends.
  \<^item> \<open>Live_Sink\<close> (\<open>strategy/live_order_executor_sink.hpp\<close>): storage around the executor's callbacks.
  \<^item> \<open>Market_Data\<close> (\<open>exchange/market_data_client\<close>): the market data thread iteration by iteration, from
    the text of a message to the callback.
  \<^item> \<open>Ipc_Server\<close> (\<open>ipc\<close>): commands over a socket that returns bytes in any pieces.
  \<^item> \<open>Session_Ledger\<close>: the locale \<open>world_invariant\<close> lifts an invariant of a sink to whole sessions of
    strategies; it is interpreted on the simulated exchange (each strategy's order ledger) and in
    \<open>Platform\<close> on the live sink. \<open>Platform\<close> is the live system as one step relation, \<open>Main_Program\<close>
    (\<open>src/main.cpp\<close>) the command line, the environment, the backtest and the start and end of the live
    platform: a backtest returns with every order settled, and only orders within the configured
    limits reach the executor. \<open>Shutdown\<close> has the destructors, which repeat a stop without effect.

  \<^bold>\<open>Interleaving.\<close> Where threads meet, a step is a section the code runs under one lock, one atomic
  operation or one handler: the flusher and its clients (\<open>jsonl_step\<close>), the senders of the WebSocket
  client (\<open>send_step\<close>), executor and connection (\<open>ex_step\<close>), the whole platform (\<open>platform_step\<close>). The
  queues are interleaved access by access on their own; in the larger step relations a push or
  pop of a queue is one step, which the refinement of the queues justifies up to the moment at
  which a pop sees a push (\<open>mpsc_pop_misses_completed_push\<close>). Memory orders weaker than sequential
  consistency are not modelled; the plain accesses of the queues are shown not to race.

  \<^bold>\<open>Loops, fuel and bounds.\<close> Loops over data are structural. \<open>flush_without_worker\<close> may run for ever and
  is a \<open>partial_function\<close>; \<open>jsonl_flush_returns\<close> shows that it returns. \<open>replay_run\<close> pages until the end
  of the stream and is shown to end for any page size. \<open>drain_queue\<close> takes fuel: more than the
  length of the queue is enough. \<open>flusher_run\<close> takes fuel: one more than \<open>flusher_work\<close>, four critical
  sections per waiting event. The wait for authentication is bounded by its hundred iterations.
  Counters and offsets are 64-bit words; where a theorem needs that they do not wrap, it says so.

  \<^bold>\<open>Not modelled.\<close> Console output and the layout of printed statistics; signals, threads and sleeping
  beyond the steps above; the libraries Boost.Beast and Asio, OpenSSL and the sockets, which appear
  as operations that complete with any result the code handles; the JSON library beyond its laws;
  directories created for the log file; the tests and build files. Alignment, padding and memory
  order annotations have no counterpart. Strategies that act on the result of a placement are
  outside the strategy interface; the repository has none.
\<close>

end
